(* ===== verification/Prelude.thy ===== *)
theory Prelude
  imports Complex_Main
begin

text \<open>
  Shared vocabulary of the development: the exceptions the modelled code can raise, Python's
  insertion-ordered dictionaries, block arithmetic on unbounded integers, and the list lemmas
  the components share. Python's \<open>int\<close> is HOL's \<open>int\<close>; \<open>a // b\<close> is \<open>a div b\<close> and
  \<open>a % b\<close> is \<open>a mod b\<close>, which agree for every \<open>b \<noteq> 0\<close> (both round towards minus infinity).
\<close>

named_theorems frame_simps \<open>fields an operation leaves alone\<close>

subsection \<open>Exceptions\<close>

datatype py_error =
    IndexError
  | KeyError
  | ValueError
  | TypeError
  | OverflowError
  | AssertionError
  | RuntimeError string
  | ProviderError string

subsection \<open>Block arithmetic\<close>

abbreviation len :: "'a list \<Rightarrow> int" where
  "len xs \<equiv> int (length xs)"

definition align_up :: "int \<Rightarrow> int \<Rightarrow> int" where
  "align_up p b = ((p + b - 1) div b) * b"

definition align_down :: "int \<Rightarrow> int \<Rightarrow> int" where
  "align_down p b = (p div b) * b"

lemma align_down_le [simp]: "0 < b \<Longrightarrow> align_down p b \<le> p"
  unfolding align_down_def
  by (metis div_mult_mod_eq le_add_same_cancel1 pos_mod_sign)

lemma align_down_gt: "0 < b \<Longrightarrow> p < align_down p b + b"
  unfolding align_down_def
  by (metis add_strict_left_mono div_mult_mod_eq pos_mod_bound)

lemma dvd_align_down [simp]: "b dvd align_down p b"
  by (simp add: align_down_def)

lemma dvd_align_up [simp]: "b dvd align_up p b"
  by (simp add: align_up_def)

lemma align_up_ge [simp]: "0 < b \<Longrightarrow> p \<le> align_up p b"
proof -
  assume b: "0 < b"
  have "p + b - 1 < align_down (p + b - 1) b + b" by (rule align_down_gt [OF b])
  then show ?thesis by (simp add: align_down_def align_up_def)
qed

lemma align_up_lt: "0 < b \<Longrightarrow> align_up p b < p + b"
  using align_down_le [of b "p + b - 1"] by (simp add: align_up_def align_down_def)

lemma align_up_id:
  assumes "0 < b" and "b dvd p"
  shows "align_up p b = p"
proof -
  from \<open>b dvd p\<close> obtain k where k: "p = k * b" by (metis dvdE mult.commute)
  have "(k * b + (b - 1)) div b = k + (b - 1) div b"
    using \<open>0 < b\<close> by (intro div_mult_self3) simp
  moreover have "(b - 1) div b = 0" using \<open>0 < b\<close> by simp
  ultimately show ?thesis using k by (simp add: align_up_def algebra_simps)
qed

lemma align_down_id: "0 < b \<Longrightarrow> b dvd p \<Longrightarrow> align_down p b = p"
  by (auto simp: align_down_def dvd_def)

lemma align_down_mono: "0 < b \<Longrightarrow> p \<le> q \<Longrightarrow> align_down p b \<le> align_down q b"
  by (simp add: align_down_def zdiv_mono1 mult_right_mono)

lemma align_down_greatest: "0 < b \<Longrightarrow> b dvd q \<Longrightarrow> q \<le> p \<Longrightarrow> q \<le> align_down p b"
  using align_down_mono [of b q p] by (simp add: align_down_id)

lemma align_down_nonneg: "0 < b \<Longrightarrow> 0 \<le> p \<Longrightarrow> 0 \<le> align_down p b"
  by (simp add: align_down_def pos_imp_zdiv_nonneg_iff)

subsection \<open>Insertion-ordered dictionaries\<close>

text \<open>
  A Python \<open>dict\<close> or \<open>OrderedDict\<close> whose iteration order the code depends on is an association
  list with distinct keys, oldest entry first. Where only lookups matter a map is used instead.
\<close>

type_synonym ('k, 'v) odict = "('k \<times> 'v) list"

definition od_get :: "('k, 'v) odict \<Rightarrow> 'k \<Rightarrow> 'v option" where
  "od_get d k = map_of d k"

definition od_keys :: "('k, 'v) odict \<Rightarrow> 'k list" where
  "od_keys d = map fst d"

text \<open>\<open>d[k] = v\<close>: an existing key keeps its place, a new one goes last.\<close>

fun od_set :: "('k, 'v) odict \<Rightarrow> 'k \<Rightarrow> 'v \<Rightarrow> ('k, 'v) odict" where
  "od_set [] k v = [(k, v)]"
| "od_set ((k', v') # d) k v = (if k' = k then (k, v) # d else (k', v') # od_set d k v)"

text \<open>\<open>d.pop(k, None)\<close> as far as the dictionary goes; \<open>del d[k]\<close> for a present key.\<close>

definition od_pop :: "('k, 'v) odict \<Rightarrow> 'k \<Rightarrow> ('k, 'v) odict" where
  "od_pop d k = filter (\<lambda>e. fst e \<noteq> k) d"

text \<open>\<open>d.move_to_end(k)\<close> for a present key.\<close>

definition od_move_to_end :: "('k, 'v) odict \<Rightarrow> 'k \<Rightarrow> ('k, 'v) odict" where
  "od_move_to_end d k = (case map_of d k of None \<Rightarrow> d | Some v \<Rightarrow> od_pop d k @ [(k, v)])"

text \<open>\<open>d.popitem(last=False)\<close>: the oldest entry goes, and an empty dictionary raises KeyError.\<close>

fun od_popitem_first :: "('k, 'v) odict \<Rightarrow> py_error + (('k \<times> 'v) \<times> ('k, 'v) odict)" where
  "od_popitem_first [] = Inl KeyError"
| "od_popitem_first (e # d) = Inr (e, d)"

definition od_wf :: "('k, 'v) odict \<Rightarrow> bool" where
  "od_wf d \<longleftrightarrow> distinct (od_keys d)"

lemma od_get_set [simp]: "od_get (od_set d k v) = (od_get d)(k \<mapsto> v)"
  unfolding od_get_def by (induction d k v rule: od_set.induct) auto

lemma map_of_od_pop: "map_of (od_pop d k) = (map_of d)(k := None)"
  by (induction d) (auto simp: od_pop_def fun_eq_iff)

lemma od_get_pop [simp]: "od_get (od_pop d k) = (od_get d)(k := None)"
  by (rule ext) (simp add: od_get_def map_of_od_pop)

lemma od_keys_set: "set (od_keys (od_set d k v)) = insert k (set (od_keys d))"
  unfolding od_keys_def by (induction d k v rule: od_set.induct) auto

lemma od_keys_pop: "set (od_keys (od_pop d k)) = set (od_keys d) - {k}"
  by (auto simp: od_keys_def od_pop_def)

lemma od_wf_set [simp]: "od_wf d \<Longrightarrow> od_wf (od_set d k v)"
proof (induction d k v rule: od_set.induct)
  case (2 k' v' d k v)
  then show ?case using od_keys_set [of d k v] by (auto simp: od_wf_def od_keys_def)
qed (simp add: od_wf_def od_keys_def)

lemma od_wf_pop [simp]: "od_wf d \<Longrightarrow> od_wf (od_pop d k)"
  by (simp add: od_wf_def od_keys_def od_pop_def distinct_map_filter)

lemma od_get_None_iff: "od_get d k = None \<longleftrightarrow> k \<notin> set (od_keys d)"
  by (simp add: od_get_def od_keys_def map_of_eq_None_iff)

lemma od_get_in: "od_get d k = Some v \<Longrightarrow> (k, v) \<in> set d"
  by (simp add: od_get_def map_of_SomeD)

lemma od_wf_get: "od_wf d \<Longrightarrow> (k, v) \<in> set d \<Longrightarrow> od_get d k = Some v"
  by (simp add: od_wf_def od_keys_def od_get_def)

lemma od_pop_absent: "k \<notin> set (od_keys d) \<Longrightarrow> od_pop d k = d"
  by (induction d) (auto simp: od_pop_def od_keys_def)

lemma od_wf_move [simp]: "od_wf d \<Longrightarrow> od_wf (od_move_to_end d k)"
  using od_wf_pop [of d k] od_keys_pop [of d k]
  by (auto simp: od_move_to_end_def od_wf_def od_keys_def split: option.splits)

lemma od_get_move [simp]: "od_get (od_move_to_end d k) = od_get d"
proof (cases "map_of d k")
  case (Some v)
  have "map_of (od_pop d k @ [(k, v)]) j = map_of d j" for j
    using Some by (auto simp: map_of_od_pop map_add_def split: option.splits)
  then have "od_get (od_pop d k @ [(k, v)]) j = od_get d j" for j
    by (simp add: od_get_def)
  then show ?thesis using Some by (auto simp: od_move_to_end_def)
qed (simp add: od_move_to_end_def)

lemma od_keys_move: "set (od_keys (od_move_to_end d k)) = set (od_keys d)"
proof -
  have "j \<in> set (od_keys (od_move_to_end d k)) \<longleftrightarrow> j \<in> set (od_keys d)" for j
    using od_get_None_iff [of "od_move_to_end d k" j] od_get_None_iff [of d j] by simp
  then show ?thesis by blast
qed

lemma od_pop_pop: "od_pop (od_pop d k) k = od_pop d k"
  by (simp add: od_pop_def)

subsection \<open>Runs of a stateful operation\<close>

lemma fst_run: "fst p = a \<Longrightarrow> p = (a, snd p)"
  by (cases p) simp

subsection \<open>Lists\<close>

lemma sorted_wrt_lift:
  "sorted_wrt P xs \<Longrightarrow> (\<And>x y. x \<in> set xs \<Longrightarrow> y \<in> set xs \<Longrightarrow> P x y \<Longrightarrow> Q x y) \<Longrightarrow> sorted_wrt Q xs"
  by (induction xs) auto

lemma nth_eq_shift:
  assumes "xs ! nat (p + i) = ys ! nat (q + i)" and "p + i = p'" and "q + i = q'"
  shows "xs ! nat p' = ys ! nat q'"
  using assms by simp

end
