(* ===== verification/Span.thy ===== *)
theory Span
  imports Prelude
begin

text \<open>
  The block-aligned span planner, \<open>semantic_span.py\<close>: snapping raw donor runs to block edges,
  the boundary-anchored supply decision, the greedy chain over several donors and the trimming
  of its pieces. Positions are Python integers. Every function below is the source function of
  the same name; \<open>block_align_loop\<close>, \<open>best_run\<close> and \<open>chain_loop\<close> are the loops inside them.
\<close>

subsection \<open>Data\<close>

record raw_span =
  rs_target_start :: int
  rs_length :: int
  rs_donor_start :: int

record block_span =
  bs_target_start :: int
  bs_target_end :: int
  bs_donor_start :: int

record run =
  run_donor_id :: string
  run_donor_start :: int
  run_target_start :: int
  run_length :: int

record piece =
  pc_donor_id :: string
  pc_donor_start :: int
  pc_target_start :: int
  pc_token_count :: int

abbreviation run_end :: "run \<Rightarrow> int" where
  "run_end r \<equiv> run_target_start r + run_length r"

abbreviation piece_end :: "piece \<Rightarrow> int" where
  "piece_end p \<equiv> pc_target_start p + pc_token_count p"

subsection \<open>Snapping raw spans to block edges\<close>

fun block_align_loop :: "int \<Rightarrow> int \<Rightarrow> int \<Rightarrow> raw_span list \<Rightarrow> block_span list" where
  "block_align_loop b min_span cursor [] = []"
| "block_align_loop b min_span cursor (raw # rest) =
     (let t0 = rs_target_start raw;
          t1 = t0 + rs_length raw;
          snapped_start = ((t0 + b - 1) div b) * b;
          snapped_end = (t1 div b) * b
      in if snapped_start < cursor then block_align_loop b min_span cursor rest
         else if snapped_end - snapped_start < max min_span 1
           then block_align_loop b min_span cursor rest
         else \<lparr>bs_target_start = snapped_start, bs_target_end = snapped_end,
               bs_donor_start = rs_donor_start raw + (snapped_start - t0)\<rparr>
              # block_align_loop b min_span snapped_end rest)"

definition block_align_spans :: "raw_span list \<Rightarrow> int \<Rightarrow> int \<Rightarrow> block_span list" where
  "block_align_spans spans b min_span =
     block_align_loop b min_span 0 (sort_key rs_target_start spans)"

subsection \<open>The supply decision\<close>

fun supply_loop :: "block_span list \<Rightarrow> int \<Rightarrow> int \<times> int option" where
  "supply_loop [] usable_from = (0, None)"
| "supply_loop (sp # spans) usable_from =
     (if bs_target_start sp \<le> usable_from \<and> usable_from < bs_target_end sp
      then (bs_target_end sp - usable_from,
            Some (bs_donor_start sp + (usable_from - bs_target_start sp)))
      else supply_loop spans usable_from)"

definition supply_at_boundary :: "block_span list \<Rightarrow> int \<Rightarrow> int \<Rightarrow> int \<times> int option" where
  "supply_at_boundary spans boundary b =
     supply_loop spans (((boundary + b - 1) div b) * b)"

subsection \<open>Chaining runs of several donors\<close>

text \<open>The inner \<open>for\<close> of \<open>chain_at_boundary\<close>: the first run of maximal end that covers the position.\<close>

fun best_run :: "run list \<Rightarrow> int \<Rightarrow> run option \<Rightarrow> run option" where
  "best_run [] position best = best"
| "best_run (r # rs) position best =
     (if run_target_start r \<le> position \<and> position < run_end r
         \<and> (case best of None \<Rightarrow> True | Some b \<Rightarrow> run_end b < run_end r)
      then best_run rs position (Some r)
      else best_run rs position best)"

lemma best_run_Some:
  assumes "best_run rs p best = Some r"
  shows "(best = Some r \<or> r \<in> set rs \<and> run_target_start r \<le> p \<and> p < run_end r)
    \<and> (\<forall>q \<in> set rs. run_target_start q \<le> p \<longrightarrow> p < run_end q \<longrightarrow> run_end q \<le> run_end r)
    \<and> (\<forall>b. best = Some b \<longrightarrow> run_end b \<le> run_end r)"
  using assms
proof (induction rs p best rule: best_run.induct)
  case (1 p best)
  then show ?case by simp
next
  case (2 q rs p best)
  then show ?case by (cases best) (fastforce split: if_splits)+
qed

lemma best_run_None:
  "best_run rs p best = None \<longleftrightarrow>
     best = None \<and> (\<forall>q \<in> set rs. \<not> (run_target_start q \<le> p \<and> p < run_end q))"
  by (induction rs p best rule: best_run.induct) (auto split: option.splits)

lemma best_run_covers:
  assumes "best_run rs p None = Some r"
  shows "r \<in> set rs" and "run_target_start r \<le> p" and "p < run_end r"
  using best_run_Some [OF assms] by auto

lemma best_run_furthest:
  assumes "best_run rs p None = Some r" and "q \<in> set rs"
    and "run_target_start q \<le> p" and "p < run_end q"
  shows "run_end q \<le> run_end r"
  using best_run_Some [OF assms(1)] assms(2-) by blast

text \<open>
  The \<open>while True\<close> loop: it returns the pieces and the position it stopped at. Each round moves
  the position to the end of some run, so it stops after at most one round per run end.
\<close>

definition reach_bound :: "run list \<Rightarrow> int" where
  "reach_bound rs = fold (\<lambda>r m. max (run_end r) m) rs 0"

lemma fold_max_ge:
  "(m :: int) \<le> fold (\<lambda>r m. max (run_end r) m) rs m"
  "q \<in> set rs \<Longrightarrow> run_end q \<le> fold (\<lambda>r m. max (run_end r) m) rs m"
proof (induction rs arbitrary: m)
  case (Cons r rs)
  {
    case 1
    show ?case using Cons(1) [of "max (run_end r) m"] by simp
  next
    case 2
    then show ?case using Cons(1) [of "max (run_end r) m"] Cons(2) [of "max (run_end r) m"] by auto
  }
qed auto

lemma run_end_le_bound: "r \<in> set rs \<Longrightarrow> run_end r \<le> reach_bound rs"
  by (simp add: reach_bound_def fold_max_ge(2))

function chain_loop :: "run list \<Rightarrow> int \<Rightarrow> piece list \<times> int" where
  "chain_loop runs position =
     (case best_run runs position None of
        None \<Rightarrow> ([], position)
      | Some r \<Rightarrow>
          (let offset = position - run_target_start r;
               (pieces, final) = chain_loop runs (run_end r)
           in (\<lparr>pc_donor_id = run_donor_id r, pc_donor_start = run_donor_start r + offset,
                 pc_target_start = position, pc_token_count = run_end r - position\<rparr> # pieces,
               final)))"
  by pat_completeness auto
termination
proof (relation "measure (\<lambda>(rs, p). nat (reach_bound rs - p))", goal_cases)
  case (2 runs position r)
  then show ?case
    using best_run_covers [of runs position r] run_end_le_bound [of r runs] by auto
qed simp

declare chain_loop.simps [simp del]

fun trim_pieces :: "piece list \<Rightarrow> int \<Rightarrow> piece list" where
  "trim_pieces [] end_pos = []"
| "trim_pieces (p # ps) end_pos =
     (let count = min (pc_token_count p) (end_pos - pc_target_start p)
      in if count > 0 then p\<lparr>pc_token_count := count\<rparr> # trim_pieces ps end_pos
         else trim_pieces ps end_pos)"

definition chain_at_boundary :: "run list \<Rightarrow> int \<Rightarrow> int \<Rightarrow> piece list" where
  "chain_at_boundary runs boundary b =
     (let (pieces, position) = chain_loop runs (((boundary + b - 1) div b) * b)
      in trim_pieces pieces ((position div b) * b))"

subsection \<open>Lemmas on snapping\<close>

text \<open>One round of the loop in terms of the two alignments.\<close>

lemma block_align_loop_Cons:
  "block_align_loop b m cursor (raw # rest) =
     (let s = align_up (rs_target_start raw) b;
          e = align_down (rs_target_start raw + rs_length raw) b
      in if s < cursor \<or> e - s < max m 1 then block_align_loop b m cursor rest
         else \<lparr>bs_target_start = s, bs_target_end = e,
               bs_donor_start = rs_donor_start raw + (s - rs_target_start raw)\<rparr>
              # block_align_loop b m e rest)"
  by (simp add: align_up_def align_down_def Let_def)

declare block_align_loop.simps(2) [simp del]

text \<open>
  What a snapped span owes to the raw span it came from: it lies inside it, keeps the distance
  between the donor's and the target's position, and loses less than a block at either end.
\<close>

definition snapped_from :: "int \<Rightarrow> raw_span \<Rightarrow> block_span \<Rightarrow> bool" where
  "snapped_from b raw s \<longleftrightarrow>
     rs_target_start raw \<le> bs_target_start s \<and> bs_target_end s \<le> rs_target_start raw + rs_length raw
     \<and> bs_donor_start s - bs_target_start s = rs_donor_start raw - rs_target_start raw
     \<and> bs_target_start s < rs_target_start raw + b
     \<and> rs_target_start raw + rs_length raw < bs_target_end s + b"

lemma block_align_loop_span:
  assumes "0 < b" and "s \<in> set (block_align_loop b m cursor spans)"
  shows "b dvd bs_target_start s \<and> b dvd bs_target_end s \<and> cursor \<le> bs_target_start s
    \<and> max m 1 \<le> bs_target_end s - bs_target_start s
    \<and> (\<exists>raw \<in> set spans. snapped_from b raw s)"
  using assms(2)
proof (induction spans arbitrary: cursor)
  case (Cons raw rest)
  let ?s = "align_up (rs_target_start raw) b"
  let ?e = "align_down (rs_target_start raw + rs_length raw) b"
  show ?case
  proof (cases "?s < cursor \<or> ?e - ?s < max m 1")
    case True
    with Cons.prems have "s \<in> set (block_align_loop b m cursor rest)"
      by (simp add: block_align_loop_Cons Let_def)
    from Cons.IH [OF this] show ?thesis by auto
  next
    case False
    let ?new = "\<lparr>bs_target_start = ?s, bs_target_end = ?e,
                  bs_donor_start = rs_donor_start raw + (?s - rs_target_start raw)\<rparr>"
    from False Cons.prems consider "s = ?new" | "s \<in> set (block_align_loop b m ?e rest)"
      by (auto simp: block_align_loop_Cons Let_def)
    then show ?thesis
    proof cases
      case 1
      with False \<open>0 < b\<close> show ?thesis
        by (auto simp: snapped_from_def align_up_lt align_down_gt)
    next
      case 2
      from Cons.IH [OF this] False show ?thesis by auto
    qed
  qed
qed simp

lemma block_align_loop_disjoint:
  assumes "0 < b"
  shows "sorted_wrt (\<lambda>s t. bs_target_end s \<le> bs_target_start t) (block_align_loop b m cursor spans)"
  using block_align_loop_span [OF assms]
  by (induction spans arbitrary: cursor) (auto simp: block_align_loop_Cons Let_def)

lemma block_align_spans_span:
  assumes "0 < b" and "s \<in> set (block_align_spans spans b m)"
  shows "b dvd bs_target_start s" and "b dvd bs_target_end s" and "0 \<le> bs_target_start s"
    and "max m 1 \<le> bs_target_end s - bs_target_start s"
    and "\<exists>raw \<in> set spans. snapped_from b raw s"
  using block_align_loop_span [OF assms(1) assms(2) [unfolded block_align_spans_def]] by simp_all

lemma supply_loop_result:
  assumes "supply_loop spans u = (n, Some d)"
  shows "\<exists>s \<in> set spans. bs_target_start s \<le> u \<and> u < bs_target_end s
    \<and> n = bs_target_end s - u \<and> d = bs_donor_start s + (u - bs_target_start s)"
  using assms by (induction spans u rule: supply_loop.induct) (auto split: if_splits)

lemma supply_loop_none:
  "supply_loop spans u = (n, None) \<longleftrightarrow>
     n = 0 \<and> (\<forall>s \<in> set spans. \<not> (bs_target_start s \<le> u \<and> u < bs_target_end s))"
  by (induction spans u rule: supply_loop.induct) auto


subsection \<open>Contiguous pieces\<close>

text \<open>\<open>contiguous p ps q\<close>: the pieces are non-empty, back to back, and cover exactly \<open>[p, q)\<close>.\<close>

fun contiguous :: "int \<Rightarrow> piece list \<Rightarrow> int \<Rightarrow> bool" where
  "contiguous p [] q \<longleftrightarrow> p = q"
| "contiguous p (x # xs) q \<longleftrightarrow>
     pc_target_start x = p \<and> 0 < pc_token_count x \<and> contiguous (piece_end x) xs q"

text \<open>A piece is cut out of a run: same donor, same distance between the two frames.\<close>

definition piece_of :: "run \<Rightarrow> piece \<Rightarrow> bool" where
  "piece_of r x \<longleftrightarrow>
     pc_donor_id x = run_donor_id r
     \<and> pc_donor_start x - pc_target_start x = run_donor_start r - run_target_start r
     \<and> run_target_start r \<le> pc_target_start x \<and> piece_end x \<le> run_end r"

definition pieces_total :: "piece list \<Rightarrow> int" where
  "pieces_total ps = sum_list (map pc_token_count ps)"

definition covered :: "run list \<Rightarrow> int \<Rightarrow> bool" where
  "covered rs x \<longleftrightarrow> (\<exists>r \<in> set rs. run_target_start r \<le> x \<and> x < run_end r)"

lemma contiguous_le: "contiguous p ps q \<Longrightarrow> p \<le> q"
  by (induction p ps q rule: contiguous.induct) auto

lemma contiguous_total: "contiguous p ps q \<Longrightarrow> pieces_total ps = q - p"
  by (induction p ps q rule: contiguous.induct) (auto simp: pieces_total_def)

lemma contiguous_mem:
  "contiguous p ps q \<Longrightarrow> x \<in> set ps \<Longrightarrow> p \<le> pc_target_start x \<and> piece_end x \<le> q \<and> 0 < pc_token_count x"
proof (induction p ps q rule: contiguous.induct)
  case (2 p y xs q)
  then show ?case using contiguous_le [of "piece_end y" xs q] by auto
qed simp

lemma contiguous_hd: "contiguous p (x # xs) q \<Longrightarrow> pc_target_start x = p"
  by simp

lemma trim_pieces_past: "contiguous p ps q \<Longrightarrow> e \<le> p \<Longrightarrow> trim_pieces ps e = []"
  by (induction p ps q rule: contiguous.induct) (auto simp: Let_def)

lemma trim_pieces_contiguous:
  "contiguous p ps q \<Longrightarrow> p \<le> e \<Longrightarrow> contiguous p (trim_pieces ps e) (min q e)"
proof (induction p ps q rule: contiguous.induct)
  case (2 p x xs q)
  show ?case
  proof (cases "piece_end x \<le> e")
    case True
    with 2 show ?thesis by (auto simp: Let_def)
  next
    case False
    with 2(2) have "trim_pieces xs e = []" by (auto intro: trim_pieces_past)
    with False 2(2,3) show ?thesis
      using contiguous_le [of "piece_end x" xs q] by (auto simp: Let_def min_def)
  qed
qed simp

lemma trim_pieces_mem:
  "x \<in> set (trim_pieces ps e) \<Longrightarrow>
     \<exists>y \<in> set ps. x = y\<lparr>pc_token_count := pc_token_count x\<rparr> \<and> pc_token_count x \<le> pc_token_count y"
  by (induction ps e rule: trim_pieces.induct) (auto simp: Let_def split: if_splits)

lemma trim_piece_of: "piece_of r y \<Longrightarrow> c \<le> pc_token_count y \<Longrightarrow> piece_of r (y\<lparr>pc_token_count := c\<rparr>)"
  by (simp add: piece_of_def)

lemma chain_loop_contiguous:
  "chain_loop rs p = (ps, q) \<Longrightarrow> contiguous p ps q"
proof (induction rs p arbitrary: ps q rule: chain_loop.induct)
  case (1 rs p)
  show ?case
  proof (cases "best_run rs p None")
    case None
    with "1.prems" show ?thesis by (simp add: chain_loop.simps [of rs p])
  next
    case (Some r)
    obtain ps' where rec: "chain_loop rs (run_end r) = (ps', q)"
      and ps: "ps = \<lparr>pc_donor_id = run_donor_id r,
                 pc_donor_start = run_donor_start r + (p - run_target_start r),
                 pc_target_start = p, pc_token_count = run_end r - p\<rparr> # ps'"
      using "1.prems" Some
      by (auto simp: chain_loop.simps [of rs p] Let_def split: prod.splits)
    from "1.IH" [OF Some _ rec] best_run_covers [OF Some] ps show ?thesis by simp
  qed
qed

lemma chain_loop_pieces:
  "chain_loop rs p = (ps, q) \<Longrightarrow> x \<in> set ps \<Longrightarrow> \<exists>r \<in> set rs. piece_of r x"
proof (induction rs p arbitrary: ps q rule: chain_loop.induct)
  case (1 rs p)
  show ?case
  proof (cases "best_run rs p None")
    case None
    with "1.prems" show ?thesis by (simp add: chain_loop.simps [of rs p])
  next
    case (Some r)
    obtain ps' where rec: "chain_loop rs (run_end r) = (ps', q)"
      and ps: "ps = \<lparr>pc_donor_id = run_donor_id r,
                 pc_donor_start = run_donor_start r + (p - run_target_start r),
                 pc_target_start = p, pc_token_count = run_end r - p\<rparr> # ps'"
      using "1.prems" Some
      by (auto simp: chain_loop.simps [of rs p] Let_def split: prod.splits)
    show ?thesis
      using "1.IH" [OF Some _ rec] "1.prems"(2) ps best_run_covers [OF Some]
      by (auto simp: piece_of_def)
  qed
qed

lemma chain_loop_stuck: "chain_loop rs p = (ps, q) \<Longrightarrow> \<not> covered rs q"
proof (induction rs p arbitrary: ps q rule: chain_loop.induct)
  case (1 rs p)
  show ?case
  proof (cases "best_run rs p None")
    case None
    with "1.prems" show ?thesis
      by (auto simp: chain_loop.simps [of rs p] best_run_None covered_def)
  next
    case (Some r)
    obtain ps' where "chain_loop rs (run_end r) = (ps', q)"
      using "1.prems" Some
      by (auto simp: chain_loop.simps [of rs p] Let_def split: prod.splits)
    from "1.IH" [OF Some _ this] show ?thesis by simp
  qed
qed

text \<open>
  \<open>chain_at_boundary\<close> in one statement: with \<open>u\<close> the aligned boundary there is a block-aligned
  end \<open>v \<ge> u\<close> such that the pieces tile \<open>[u, v)\<close>, and the position the loop stopped at, which
  no run covers, lies less than a block above \<open>v\<close>.
\<close>

lemma chain_at_boundary_shape:
  assumes "0 < b"
  shows "\<exists>v q. contiguous (align_up boundary b) (chain_at_boundary rs boundary b) v
     \<and> b dvd v \<and> v \<le> q \<and> q < v + b \<and> \<not> covered rs q"
proof -
  let ?u = "align_up boundary b"
  obtain ps q where rec: "chain_loop rs ?u = (ps, q)" by fastforce
  have c: "contiguous ?u ps q" by (rule chain_loop_contiguous [OF rec])
  have le: "?u \<le> align_down q b"
    using align_down_greatest [OF assms dvd_align_up] contiguous_le [OF c] by blast
  have "chain_at_boundary rs boundary b = trim_pieces ps (align_down q b)"
    using rec by (simp add: chain_at_boundary_def align_up_def align_down_def)
  moreover have "min q (align_down q b) = align_down q b" using assms by simp
  ultimately show ?thesis
    using trim_pieces_contiguous [OF c le] chain_loop_stuck [OF rec] align_down_gt [OF assms, of q]
      align_down_le [OF assms, of q] dvd_align_down [of b q]
    by metis
qed

text \<open>A block-aligned window of covered tokens from the boundary is within the chain.\<close>

lemma chain_reaches:
  assumes "0 < b" and "b dvd n"
    and cov: "\<forall>y. align_up boundary b \<le> y \<and> y < align_up boundary b + n \<longrightarrow> covered rs y"
  shows "\<exists>v. contiguous (align_up boundary b) (chain_at_boundary rs boundary b) v \<and> b dvd v
    \<and> align_up boundary b + n \<le> v"
proof -
  let ?u = "align_up boundary b"
  obtain v q where c: "contiguous ?u (chain_at_boundary rs boundary b) v"
    and v: "b dvd v" "v \<le> q" "q < v + b" and q: "\<not> covered rs q"
    using chain_at_boundary_shape [OF assms(1)] by blast
  have "n \<le> v - ?u"
  proof (rule ccontr)
    assume "\<not> n \<le> v - ?u"
    moreover have "b dvd n - (v - ?u)" using assms(2) v(1) dvd_align_up by (simp add: dvd_diff)
    ultimately have "b \<le> n - (v - ?u)" by (intro zdvd_imp_le) auto
    with v have "q < ?u + n" by linarith
    moreover have "?u \<le> q" using contiguous_le [OF c] v(2) by linarith
    ultimately show False using cov q by blast
  qed
  then show ?thesis using c v(1) by (intro exI [of _ v]) simp
qed

lemma chain_at_boundary_piece:
  assumes "x \<in> set (chain_at_boundary rs boundary b)"
  shows "\<exists>r \<in> set rs. piece_of r x"
proof -
  obtain ps q where rec: "chain_loop rs (align_up boundary b) = (ps, q)" by fastforce
  with assms have "x \<in> set (trim_pieces ps (align_down q b))"
    by (simp add: chain_at_boundary_def align_up_def align_down_def)
  then obtain y where y: "y \<in> set ps" "x = y\<lparr>pc_token_count := pc_token_count x\<rparr>"
    "pc_token_count x \<le> pc_token_count y"
    using trim_pieces_mem by blast
  from chain_loop_pieces [OF rec y(1)] obtain r where "r \<in> set rs" "piece_of r y" by blast
  with y show ?thesis using trim_piece_of by metis
qed

subsection \<open>Token identity\<close>

text \<open>
  The planner's input is token-identity-verified: a run is verbatim when the donor holds, at the
  run's donor positions, exactly the target's tokens.
\<close>

definition verbatim :: "int list \<Rightarrow> int list \<Rightarrow> int \<Rightarrow> int \<Rightarrow> int \<Rightarrow> bool" where
  "verbatim donor target ds ts n \<longleftrightarrow>
     (\<forall>i. 0 \<le> i \<longrightarrow> i < n \<longrightarrow> target ! nat (ts + i) = donor ! nat (ds + i))"

lemma verbatim_sub:
  assumes "verbatim donor target ds ts n" and "ds' - ts' = ds - ts" and "ts \<le> ts'" and "ts' + m \<le> ts + n"
  shows "verbatim donor target ds' ts' m"
  unfolding verbatim_def
proof (intro allI impI)
  fix i :: int
  assume i: "0 \<le> i" "i < m"
  have "target ! nat (ts + j) = donor ! nat (ds + j)" if "0 \<le> j" and "j < n" for j
    using assms(1) that unfolding verbatim_def by blast
  from this [of "ts' - ts + i"]
  have "target ! nat (ts + (ts' - ts + i)) = donor ! nat (ds + (ts' - ts + i))"
    using assms i by linarith
  then show "target ! nat (ts' + i) = donor ! nat (ds' + i)"
    by (rule nth_eq_shift) (use assms in linarith)+
qed

subsection \<open>Properties of the span planner\<close>

text \<open>
  A snapped span is block-aligned at both ends, at least \<open>max(min_span, 1)\<close> tokens long, and
  lies inside one raw span with the donor offset kept and less than one block lost at each end.
\<close>

theorem block_align_spans_sound:
  assumes "0 < b" and "s \<in> set (block_align_spans spans b m)"
  shows "b dvd bs_target_start s \<and> b dvd bs_target_end s
    \<and> max m 1 \<le> bs_target_end s - bs_target_start s
    \<and> (\<exists>raw \<in> set spans. rs_target_start raw \<le> bs_target_start s
          \<and> bs_target_end s \<le> rs_target_start raw + rs_length raw
          \<and> bs_donor_start s - bs_target_start s = rs_donor_start raw - rs_target_start raw)"
  using block_align_spans_span [OF assms] unfolding snapped_from_def by blast


theorem block_align_spans_sound_witness:
  "\<exists>s. s \<in> set (block_align_spans [\<lparr>rs_target_start = 5, rs_length = 60, rs_donor_start = 105\<rparr>] 16 16)
     \<and> max 16 1 \<le> bs_target_end s - bs_target_start s"
proof -
  let ?s = "\<lparr>bs_target_start = 16, bs_target_end = 64, bs_donor_start = 116\<rparr>"
  have m: "?s \<in> set (block_align_spans [\<lparr>rs_target_start = 5, rs_length = 60, rs_donor_start = 105\<rparr>] 16 16)"
    by (simp add: block_align_spans_def block_align_loop_Cons align_up_def align_down_def Let_def)
  from block_align_spans_sound [OF _ m] m show ?thesis by (intro exI [of _ ?s]) simp
qed

text \<open>
  Snapped spans come out in target order and never overlap: each one ends before the next
  begins, whatever the overlaps of the raw spans.
\<close>

theorem block_align_spans_disjoint:
  assumes "0 < b"
  shows "sorted_wrt (\<lambda>s t. bs_target_end s \<le> bs_target_start t) (block_align_spans spans b m)"
  unfolding block_align_spans_def by (rule block_align_loop_disjoint [OF assms])

theorem block_align_spans_disjoint_witness:
  "sorted_wrt (\<lambda>s t. bs_target_end s \<le> bs_target_start t)
     (block_align_spans [\<lparr>rs_target_start = 40, rs_length = 60, rs_donor_start = 0\<rparr>,
                         \<lparr>rs_target_start = 5, rs_length = 60, rs_donor_start = 105\<rparr>] 16 16)"
  by (rule block_align_spans_disjoint) simp

text \<open>
  The span pipeline never serves a token the donor did not hold: if every raw span is a
  verbatim copy of donor tokens, then the window \<open>[u, u + n)\<close> the supply decision grants from the
  aligned boundary \<open>u\<close> is verbatim at the donor position it reports, and \<open>n\<close> is a positive
  multiple of the block size.
\<close>

theorem supply_verbatim:
  assumes "0 < b"
    and "\<And>raw. raw \<in> set spans \<Longrightarrow>
           verbatim donor target (rs_donor_start raw) (rs_target_start raw) (rs_length raw)"
    and "supply_at_boundary (block_align_spans spans b m) boundary b = (n, Some d)"
  shows "0 < n \<and> b dvd n \<and> verbatim donor target d (align_up boundary b) n"
proof -
  let ?u = "align_up boundary b"
  obtain s where s: "s \<in> set (block_align_spans spans b m)"
    and sp: "bs_target_start s \<le> ?u" "?u < bs_target_end s" "n = bs_target_end s - ?u"
      "d = bs_donor_start s + (?u - bs_target_start s)"
    using supply_loop_result assms(3) unfolding supply_at_boundary_def align_up_def by blast
  from block_align_spans_span [OF assms(1) s] obtain raw where raw: "raw \<in> set spans"
    and fr: "snapped_from b raw s" and dv: "b dvd bs_target_end s" by blast
  have "verbatim donor target d ?u n"
    by (rule verbatim_sub [OF assms(2) [OF raw]]) (use fr sp in \<open>auto simp: snapped_from_def\<close>)
  moreover have "b dvd n" using dv sp(3) dvd_align_up by (simp add: dvd_diff)
  ultimately show ?thesis using sp by simp
qed

theorem supply_verbatim_witness:
  "verbatim [7, 8, 1, 2, 3, 4, 9] [5, 1, 2, 3, 4, 6] 3 2 2"
proof -
  let ?raw = "\<lparr>rs_target_start = 1, rs_length = 4, rs_donor_start = 2\<rparr>"
  have v: "verbatim [7, 8, 1, 2, 3, 4, 9] [5, 1, 2, 3, 4, 6] 2 1 4"
    unfolding verbatim_def
  proof (intro allI impI)
    fix i :: int
    assume "0 \<le> i" "i < 4"
    then consider "i = 0" | "i = 1" | "i = 2" | "i = 3" by linarith
    then show "[5, 1, 2, 3, 4, 6] ! nat (1 + i) = [7, 8, 1, 2, 3, 4, 9 :: int] ! nat (2 + i)"
      by cases (simp_all add: eval_nat_numeral)
  qed
  have "supply_at_boundary (block_align_spans [?raw] 2 1) 1 2 = (2, Some 3)"
    by (simp add: supply_at_boundary_def block_align_spans_def block_align_loop_Cons
        align_up_def align_down_def Let_def)
  from supply_verbatim [OF _ _ this, of "[7, 8, 1, 2, 3, 4, 9]" "[5, 1, 2, 3, 4, 6]"] v
  show ?thesis by (simp add: align_up_def)
qed

text \<open>
  C11. The greedy chain is optimal and well-formed: its pieces tile a window that starts at the
  aligned boundary and ends on a block edge, every piece is cut from one of the runs with the
  donor offset kept, and no block-aligned window of covered tokens from that boundary is longer.
\<close>

theorem chain_at_boundary_optimal:
  assumes "0 < b"
  shows "(\<exists>v. b dvd v \<and> contiguous (align_up boundary b) (chain_at_boundary rs boundary b) v)
    \<and> (\<forall>x \<in> set (chain_at_boundary rs boundary b). \<exists>r \<in> set rs. piece_of r x)
    \<and> (\<forall>n. b dvd n \<and> (\<forall>y. align_up boundary b \<le> y \<and> y < align_up boundary b + n \<longrightarrow> covered rs y)
          \<longrightarrow> n \<le> pieces_total (chain_at_boundary rs boundary b))"
proof -
  let ?u = "align_up boundary b" and ?ps = "chain_at_boundary rs boundary b"
  obtain w where c: "contiguous ?u ?ps w" "b dvd w" using chain_at_boundary_shape [OF assms] by blast
  have "n \<le> pieces_total ?ps"
    if n: "b dvd n" "\<forall>y. ?u \<le> y \<and> y < ?u + n \<longrightarrow> covered rs y" for n
  proof -
    obtain v where "contiguous ?u ?ps v" "?u + n \<le> v" using chain_reaches [OF assms n] by blast
    then show ?thesis using contiguous_total by fastforce
  qed
  then show ?thesis using c chain_at_boundary_piece by blast
qed

theorem chain_at_boundary_optimal_witness:
  "32 \<le> pieces_total (chain_at_boundary
      [\<lparr>run_donor_id = ''a'', run_donor_start = 0, run_target_start = 16, run_length = 20\<rparr>,
       \<lparr>run_donor_id = ''b'', run_donor_start = 9, run_target_start = 30, run_length = 19\<rparr>] 16 16)"
proof -
  let ?rs = "[\<lparr>run_donor_id = ''a'', run_donor_start = 0, run_target_start = 16, run_length = 20\<rparr>,
       \<lparr>run_donor_id = ''b'', run_donor_start = 9, run_target_start = 30, run_length = 19\<rparr>]"
  have "covered ?rs y" if "16 \<le> y \<and> y < 48" for y
    using that by (auto simp: covered_def)
  then show ?thesis
    using chain_at_boundary_optimal [of 16 16 ?rs] by (simp add: align_up_def)
qed

text \<open>
  A chain assembled from several donors is still verbatim: if every run copies its own
  donor's tokens, so does every piece of the chain, at the donor position the piece carries.
\<close>

theorem chain_verbatim:
  assumes "\<And>r. r \<in> set rs \<Longrightarrow>
      verbatim (tokens_of (run_donor_id r)) target (run_donor_start r) (run_target_start r) (run_length r)"
    and "x \<in> set (chain_at_boundary rs boundary b)"
  shows "verbatim (tokens_of (pc_donor_id x)) target
           (pc_donor_start x) (pc_target_start x) (pc_token_count x)"
proof -
  from chain_at_boundary_piece [OF assms(2)] obtain r where r: "r \<in> set rs" and p: "piece_of r x"
    by blast
  show ?thesis
    using verbatim_sub [OF assms(1) [OF r]] p by (simp add: piece_of_def)
qed

theorem chain_verbatim_witness:
  "verbatim [4, 5, 6, 7] [4, 5, 9] 0 0 2"
proof -
  let ?r = "\<lparr>run_donor_id = ''a'', run_donor_start = 0, run_target_start = 0, run_length = 2\<rparr>"
  let ?x = "\<lparr>pc_donor_id = ''a'', pc_donor_start = 0, pc_target_start = 0, pc_token_count = 2\<rparr>"
  have v: "verbatim [4, 5, 6, 7] [4, 5, 9] 0 0 2"
    unfolding verbatim_def
  proof (intro allI impI)
    fix i :: int
    assume "0 \<le> i" "i < 2"
    then consider "i = 0" | "i = 1" by linarith
    then show "[4, 5, 9] ! nat (0 + i) = [4, 5, 6, 7 :: int] ! nat (0 + i)" by cases simp_all
  qed
  have "?x \<in> set (chain_at_boundary [?r] 0 2)"
    by (simp add: chain_at_boundary_def chain_loop.simps Let_def)
  from chain_verbatim [OF _ this, of "\<lambda>_. [4, 5, 6, 7]" "[4, 5, 9]"] v show ?thesis by simp
qed

end
