(* ===== verification/Values.thy ===== *)
theory Values
  imports Prelude
begin

text \<open>
  Python values as the connector meets them in vLLM's objects, request metadata and provider
  results: \<open>None\<close>, booleans, integers, floats, strings, sequences, mappings and attribute-carrying
  objects. A float is its exact rational value with the text \<open>str\<close> gives it; a compound value
  carries its \<open>str\<close> text as a label, since the code only ever prints it. Strings are ASCII.
\<close>

datatype pyval =
    PNone
  | PBool bool
  | PInt int
  | PFloat rat string
  | PStr string
  | PSeq string "pyval list"
  | PMap string "(string \<times> pyval) list"
  | PObj string "(string \<times> pyval) list"

text \<open>\<open>getattr(obj, name, None)\<close>, \<open>hasattr(obj, name)\<close>, \<open>mapping.get(key)\<close> and truth values.\<close>

definition getattr :: "pyval \<Rightarrow> string \<Rightarrow> pyval" where
  "getattr obj name =
     (case obj of PObj _ attrs \<Rightarrow> (case map_of attrs name of Some v \<Rightarrow> v | None \<Rightarrow> PNone) | _ \<Rightarrow> PNone)"

definition hasattr :: "pyval \<Rightarrow> string \<Rightarrow> bool" where
  "hasattr obj name = (case obj of PObj _ attrs \<Rightarrow> map_of attrs name \<noteq> None | _ \<Rightarrow> False)"

definition get_item :: "(string \<times> pyval) list \<Rightarrow> string \<Rightarrow> pyval" where
  "get_item d key = (case map_of d key of Some v \<Rightarrow> v | None \<Rightarrow> PNone)"

fun truthy :: "pyval \<Rightarrow> bool" where
  "truthy PNone = False"
| "truthy (PBool b) = b"
| "truthy (PInt i) = (i \<noteq> 0)"
| "truthy (PFloat r _) = (r \<noteq> 0)"
| "truthy (PStr s) = (s \<noteq> [])"
| "truthy (PSeq _ xs) = (xs \<noteq> [])"
| "truthy (PMap _ d) = (d \<noteq> [])"
| "truthy (PObj _ _) = True"

text \<open>Python's \<open>a or b\<close> on values.\<close>

definition py_or :: "pyval \<Rightarrow> pyval \<Rightarrow> pyval" where
  "py_or a b = (if truthy a then a else b)"

text \<open>\<open>str(v)\<close>; integers print in decimal.\<close>

fun digits_of :: "nat \<Rightarrow> string" where
  "digits_of n =
     (if n < 10 then [char_of (48 + n)] else digits_of (n div 10) @ [char_of (48 + n mod 10)])"

declare digits_of.simps [simp del]

definition str_of_int :: "int \<Rightarrow> string" where
  "str_of_int i = (if i < 0 then ''-'' @ digits_of (nat (- i)) else digits_of (nat i))"

fun py_str :: "pyval \<Rightarrow> string" where
  "py_str PNone = ''None''"
| "py_str (PBool b) = (if b then ''True'' else ''False'')"
| "py_str (PInt i) = str_of_int i"
| "py_str (PFloat _ t) = t"
| "py_str (PStr s) = s"
| "py_str (PSeq t _) = t"
| "py_str (PMap t _) = t"
| "py_str (PObj t _) = t"

text \<open>ASCII \<open>str.strip\<close>, \<open>str.lower\<close> and \<open>str.replace(\<dots>, \<dots>)\<close> for single characters.\<close>

definition is_space :: "char \<Rightarrow> bool" where
  "is_space c \<longleftrightarrow> c \<in> {CHR 0x09, CHR 0x0A, CHR 0x0B, CHR 0x0C, CHR 0x0D, CHR 0x1C, CHR 0x1D,
     CHR 0x1E, CHR 0x1F, CHR 0x20}"

definition py_strip :: "string \<Rightarrow> string" where
  "py_strip s = rev (dropWhile is_space (rev (dropWhile is_space s)))"

definition lower_char :: "char \<Rightarrow> char" where
  "lower_char c = (let n = (of_char c :: nat) in if 65 \<le> n \<and> n \<le> 90 then char_of (n + 32) else c)"

definition py_lower :: "string \<Rightarrow> string" where
  "py_lower s = map lower_char s"

definition replace_char :: "char \<Rightarrow> char \<Rightarrow> string \<Rightarrow> string" where
  "replace_char a b s = map (\<lambda>c. if c = a then b else c) s"

lemma strip_no_space:
  "s \<noteq> [] \<Longrightarrow> \<not> is_space (hd s) \<Longrightarrow> \<not> is_space (last s) \<Longrightarrow> py_strip s = s"
  by (simp add: py_strip_def iffD2 [OF dropWhile_eq_self_iff] hd_rev)

text \<open>\<open>round(x, 6)\<close> and \<open>int(x)\<close> on exact values: half to even, and truncation.\<close>

definition round_half_even :: "rat \<Rightarrow> int" where
  "round_half_even r =
     (let f = floor r; d = r - of_int f
      in if d < 1 / 2 then f else if 1 / 2 < d then f + 1 else if even f then f else f + 1)"

definition round6 :: "rat \<Rightarrow> rat" where
  "round6 r = of_int (round_half_even (r * 1000000)) / 1000000"

end
