(* ===== verification/Types.thy ===== *)
theory Types
  imports Values
begin

text \<open>
  The shared enums and dataclasses, \<open>types.py\<close>. A \<open>str\<close> enum is a datatype with its \<open>.value\<close>
  text; a frozen dataclass is a record whose fields carry the class's initials as a prefix. The
  registration's \<open>timestamp\<close> is wall-clock time, which nothing in the program reads, and is left out.
\<close>

subsection \<open>Enums\<close>

datatype reuse_mode =
    DISCOVERY_ONLY
  | EXACT_PREFIX
  | REQUEST_ONLY_EXPERIMENTAL
  | SEGMENTED_EXPERIMENTAL
  | SEMANTIC_SPAN_EXPERIMENTAL

fun mode_value :: "reuse_mode \<Rightarrow> string" where
  "mode_value DISCOVERY_ONLY = ''discovery_only''"
| "mode_value EXACT_PREFIX = ''exact_prefix''"
| "mode_value REQUEST_ONLY_EXPERIMENTAL = ''request_only_experimental''"
| "mode_value SEGMENTED_EXPERIMENTAL = ''segmented_experimental''"
| "mode_value SEMANTIC_SPAN_EXPERIMENTAL = ''semantic_span_experimental''"

datatype mat_kind =
    K_DISCOVERY_ONLY
  | K_EXACT_PREFIX
  | K_REQUEST_ONLY
  | K_SEMANTIC_SPAN
  | K_SEGMENTED

subsection \<open>Lookup requests and results\<close>

record block_ref =
  br_block_id :: string
  br_start_token :: int
  br_token_count :: int

record segment =
  sg_donor_id :: string
  sg_donor_start :: int
  sg_target_start :: int
  sg_token_count :: int
  sg_block_refs :: "block_ref list option"

record lookup_request =
  lq_request_id :: string
  lq_token_ids :: "int list"
  lq_prompt_text :: "string option"
  lq_model_id :: string
  lq_namespace :: string
  lq_cache_salt :: "string option"
  lq_already_computed_tokens :: int
  lq_metadata :: "(string \<times> pyval) list"

record lookup_result =
  lr_donor_id :: string
  lr_similarity :: rat
  lr_reusable_token_count :: int
  lr_kind :: mat_kind
  lr_donor_token_ids :: "int list option"
  lr_block_refs :: "block_ref list option"
  lr_segments :: "segment list option"
  lr_quality_signals :: "(string \<times> pyval) list"
  lr_metadata :: "(string \<times> pyval) list"
  lr_reason :: "string option"

record donor_registration =
  dr_donor_id :: string
  dr_token_ids :: "int list"
  dr_prompt_text :: "string option"
  dr_model_id :: string
  dr_namespace :: string
  dr_cache_salt :: "string option"
  dr_has_captured_kv :: bool
  dr_metadata :: "(string \<times> pyval) list"

subsection \<open>Loads and stores handed to the worker\<close>

type_synonym block_table = "nat list list"

record load_piece =
  lp_donor_id :: string
  lp_donor_start :: int
  lp_target_start :: int
  lp_token_count :: int

record pending_load =
  pl_request_id :: string
  pl_donor_id :: string
  pl_token_count :: int
  pl_kind :: mat_kind
  pl_namespace :: string
  pl_block_ids :: "block_table option"
  pl_donor_start :: "int option"
  pl_target_start :: "int option"
  pl_pieces :: "load_piece list"

record pending_store =
  ps_request_id :: string
  ps_token_ids :: "int list"
  ps_token_count :: int
  ps_namespace :: string
  ps_block_ids :: "block_table option"
  ps_final :: bool

record connector_metadata =
  cm_loads :: "pending_load list"
  cm_stores :: "pending_store list"
  cm_finalize :: "string list"

subsection \<open>The audit join key\<close>

record join_key =
  jk_connector_id :: string
  jk_request_id :: string
  jk_request_seq :: nat
  jk_event_seq :: nat

text \<open>\<open>x or ()\<close> for an optional sequence, and its truth value.\<close>

definition opt_list :: "'a list option \<Rightarrow> 'a list" where
  "opt_list x = (case x of None \<Rightarrow> [] | Some xs \<Rightarrow> xs)"

definition opt_truthy :: "'a list option \<Rightarrow> bool" where
  "opt_truthy x = (opt_list x \<noteq> [])"

lemma opt_list_simps [simp]: "opt_list None = []" "opt_list (Some xs) = xs"
  by (simp_all add: opt_list_def)

lemma opt_truthy_simps [simp]: "opt_truthy None = False" "opt_truthy (Some xs) = (xs \<noteq> [])"
  by (simp_all add: opt_truthy_def)

lemma opt_truthy_Some: "opt_truthy x \<Longrightarrow> \<exists>xs. x = Some xs \<and> xs \<noteq> []"
  by (cases x) simp_all

end
