(* ===== verification/Config.thy ===== *)
theory Config
  imports Types
begin

text \<open>
  The connector's configuration, \<open>config.py\<close>: the frozen dataclass with its defaults and the
  readers that turn the extra-config mapping and the environment into it.
\<close>

record config =
  c_mode :: reuse_mode
  c_provider :: string
  c_provider_module :: "string option"
  c_provider_class :: "string option"
  c_model_id :: "string option"
  c_min_prompt_tokens :: int
  c_min_semantic_span :: int
  c_lookup_precheck :: bool
  c_multi_donor_spans :: bool
  c_min_mid_prefill_segment :: int
  c_min_boundary_tokens :: int
  c_evict_filled_blocks_from_prefix_cache :: bool
  c_min_similarity :: rat
  c_min_reuse_ratio :: rat
  c_embedder_type :: "string option"
  c_chunk_size :: "int option"
  c_max_donors :: int
  c_register_donors :: bool
  c_skip_when_exact_prefix_ratio_at_least :: rat
  c_lookup_top_k :: int
  c_enable_prompt_text :: bool
  c_boundary_sliced_query_text :: bool
  c_min_query_text_chars :: int
  c_log_decisions :: bool
  c_audit_path :: "string option"
  c_kv_storage_path :: string
  c_max_materialized_tokens :: int
  c_allow_non_identical_request_only :: bool
  c_capture_served_requests :: bool
  c_capture_policy :: string
  c_capture_sample_rate :: rat
  c_capture_hint_key :: string
  c_stage_hint_key :: string
  c_capture_write_queue_depth :: int
  c_capture_async_copy :: bool
  c_capture_write_close_timeout_s :: rat
  c_donor_registration_retry_steps :: int
  c_kv_storage_backend :: string
  c_kv_memory_max_donors :: int

definition default_config :: config where
  "default_config = \<lparr>
     c_mode = DISCOVERY_ONLY, c_provider = ''local'', c_provider_module = None,
     c_provider_class = None, c_model_id = None, c_min_prompt_tokens = 512,
     c_min_semantic_span = 512, c_lookup_precheck = True, c_multi_donor_spans = False,
     c_min_mid_prefill_segment = 128, c_min_boundary_tokens = 0,
     c_evict_filled_blocks_from_prefix_cache = True, c_min_similarity = 7 / 10,
     c_min_reuse_ratio = 1 / 2, c_embedder_type = None, c_chunk_size = None,
     c_max_donors = 10000, c_register_donors = True,
     c_skip_when_exact_prefix_ratio_at_least = 1 / 2, c_lookup_top_k = 5,
     c_enable_prompt_text = False, c_boundary_sliced_query_text = True,
     c_min_query_text_chars = 64, c_log_decisions = True, c_audit_path = None,
     c_kv_storage_path = ''/tmp/semblend-vllm-kv'', c_max_materialized_tokens = 4096,
     c_allow_non_identical_request_only = False, c_capture_served_requests = False,
     c_capture_policy = ''all'', c_capture_sample_rate = 1,
     c_capture_hint_key = ''semblend_capture'', c_stage_hint_key = ''semblend_stage'',
     c_capture_write_queue_depth = 64, c_capture_async_copy = True,
     c_capture_write_close_timeout_s = 5, c_donor_registration_retry_steps = 8,
     c_kv_storage_backend = ''disk'', c_kv_memory_max_donors = 16\<rparr>"

end
