(* ===== verification/AuditTrail.thy ===== *)
theory AuditTrail
  imports Span Config
begin

text \<open>
  The connector's environment, its counters and its audit trail: \<open>_stats\<close>, \<open>_audit_event\<close> and the
  per-request join key (\<open>_stamp_request_seq\<close>, \<open>_take_event_seq\<close>, \<open>_join_key\<close>,
  \<open>_forget_request_join_key\<close>) of \<open>connector.py\<close>, with the provider protocol of \<open>provider.py\<close>.

  A counter is a constructor named as its key; a key built from a value carries the value. An
  audit event is a constructor named as the event whose arguments are the event's keyword
  arguments in the order of the call, without \<open>request_id\<close> (it is in the join key) and without
  wall-clock readings but those of \<open>CaptureCost\<close> (\<open>time_unix_s\<close>, \<open>latency_ms\<close>, \<open>precheck_us\<close> and \<open>lookup_latency_ms_sum\<close>
  are not modelled). Text written to the engine log is not modelled.
\<close>

subsection \<open>Closed sets of reason strings\<close>

datatype text_kind = Query_text | Donor_text

datatype slice_fallback =
    No_prompt_text
  | Disabled_by_config
  | Offset_unavailable
  | Offset_past_prompt_text
  | Below_min_chars

datatype text_unavailable = Text_disabled_by_config | Decode_unavailable

datatype no_plan_reason =
    No_segments
  | No_donor_token_ids
  | Donor_not_stored
  | Boundary_not_zero
  | Mode_kind_mismatch
  | No_block_refs
  | No_reusable_tokens

datatype fill_phase = Load_allocated_phase | Running_step_phase

datatype skip_reason =
    Short_prompt
  | Served_request
  | Staged_prefill_stage
  | Not_sampled
  | Not_hinted
  | No_block_ids
  | Prompt_below_one_block
  | Store_without_block_ids

subsection \<open>Counters\<close>

datatype match_stat =
    Lookups_total
  | Skipped_incompatible_engine_config
  | Skipped_short_prompt
  | Skipped_exact_prefix_sufficient_per_attempt
  | Skipped_below_min_boundary_per_attempt
  | Skipped_remaining_below_min_span_per_attempt
  | Skipped_no_provider
  | Provider_errors_total
  | Semantic_misses_total
  | Semantic_hits_total
  | Materialization_suppressed_by_mode
  | Discovery_only_hits_total
  | Lookup_precheck_errors_total
  | Skipped_no_shared_run_per_attempt

datatype plan_stat =
    Loads_advertised_total mat_kind
  | Load_plan_revised_per_attempt
  | Semantic_span_declined_unaligned_boundary_per_attempt
  | Semantic_span_clamped_to_prompt_headroom_per_attempt
  | Semantic_span_declined_below_min_after_clamp_per_attempt
  | Semantic_span_boundary_missed_per_attempt
  | Request_only_loads_rejected_non_identical_prefix
  | Exact_prefix_declined_below_one_block_after_clamp_per_attempt
  | Materialization_rejected_no_safe_plan
  | Materialization_rejected_no_safe_plan_for no_plan_reason
  | Segmented_prefill_segments_total
  | Semantic_span_multi_donor_declined_per_attempt
  | Semantic_span_multi_donor_loads_total

datatype text_stat =
    Text_sliced_total text_kind
  | Text_fallback text_kind slice_fallback
  | Prompt_text_unavailable text_unavailable

datatype fill_stat =
    Prefix_cache_left_cached_passes_without_pool
  | Prefix_cache_blocks_left_cached
  | Prefix_cache_distinct_blocks_left_cached
  | Prefix_cache_eviction_passes_without_pool
  | Prefix_cache_eviction_error_passes
  | Prefix_cache_blocks_evicted
  | Prefix_cache_distinct_blocks_evicted
  | Load_dropped_before_alloc
  | Alloc_without_pending_load
  | Load_declined_no_blocks

datatype capture_stat =
    Capture_disabled_steps
  | Capture_skipped skip_reason
  | Capture_closed_short_at_decode
  | Capture_unclamped_no_schedule_info

datatype reg_stat =
    Donor_registration_skipped_incompatible
  | Donor_registration_skipped_disabled
  | Donor_registration_skipped_no_provider
  | Donor_registration_skipped_short_prompt
  | Donor_registration_skipped_no_captured_kv
  | Donor_registration_skipped_not_durable
  | Donor_registration_deferred_total
  | Donor_registration_errors_total
  | Donors_registered_total

datatype worker_stat =
    Slot_mapping_multi_group_refused
  | Slot_mapping_window_not_covered
  | Layer_capture_skipped_nothing_new
  | Layer_capture_base_missing
  | Capture_write_queue_blocked_total
  | Capture_finalize_skipped_write_failed
  | Capture_orphan_discard_errors
  | Capture_orphans_discarded_total
  | Capture_metadata_unexpected_type_layers
  | Capture_layers_total
  | Capture_ms_total
  | Capture_copy_ms_total
  | Capture_write_ms_total
  | Capture_write_blocked_ms_total
  | Capture_bytes_total
  | Capture_flush_ms_total

text \<open>Which source answers for the width of a packed page.\<close>

datatype content_source = Kv_cache_spec | Hf_head_size | Unresolved

datatype load_stat =
    Load_metadata_unexpected_type_steps
  | Materialized_without_forward
  | Layer_attn_metadata_missing
  | Semantic_span_declined_mla
  | Semantic_span_declined_no_rope_params
  | Semantic_span_declined_short_donor
  | Load_declined_donor_gone
  | Load_error_blocks_reported
  | Loads_rejected_no_kv_layers
  | Loads_materialized_total
  | Packed_content_dim_check_skipped_unknown_head_size
  | Packed_asymmetric_kv_content_refused
  | Packed_head_slot_layout_refused_vs content_source

datatype stat =
    Audit_errors_total
  | Compat_check_incomplete string
  | SW worker_stat
  | SL load_stat
  | SM match_stat
  | SP plan_stat
  | ST text_stat
  | SF fill_stat
  | SC capture_stat
  | SR reg_stat

subsection \<open>Audit events\<close>

text \<open>\<open>attempt\<close> is a \<open>nat\<close>; the other integers are token counts and positions.\<close>

datatype match_event =
    Lookup_skipped_incompatible_engine nat int string
  | Lookup_skipped_short_prompt nat int int
  | Lookup_skipped_exact_ratio nat int int rat rat
  | Lookup_skipped_below_min_boundary nat int int int int
  | Lookup_skipped_remaining_below_min_span nat int int int int int
  | Lookup_skipped_no_shared_run nat string int int int int
  | Lookup_error_no_provider nat string
  | Lookup_error_provider_exception nat string string string
  | Semantic_lookup_miss nat string int int int "slice_fallback option" "(string \<times> pyval) list"
  | Semantic_lookup_hit nat string string rat mat_kind int "string option" int string int int
      "slice_fallback option"
  | Materialization_suppressed nat string string mat_kind
  | Discovery_only_no_supply nat string string rat int "string option"

datatype plan_event =
    Semantic_span_declined_unaligned_boundary nat string string int int
  | Semantic_span_supply_clamped nat string string int int int int
  | Semantic_span_declined_below_min_after_clamp nat string string int int int
  | Semantic_span_load_advertised nat string string int int int int "block_span list"
  | Multi_donor_span_load_advertised nat string string int int int int int "piece list"
  | Semantic_span_boundary_missed nat string string int int int int int int int int int
      "raw_span list" "block_span list" int
  | Request_only_load_advertised nat string string int mat_kind int bool
  | Request_only_load_rejected nat string string int int
  | Exact_prefix_load_declined nat string string int int int
  | Exact_prefix_load_advertised nat string string int int mat_kind int int int
  | Rejected_no_safe_plan nat string string mat_kind no_plan_reason int
  | Segmented_prefill_segment_advertised string int int int
  | Semantic_span_multi_donor_declined nat string int int int int int

datatype fill_event =
    Ev_load_dropped_before_alloc string string int mat_kind int
  | Ev_alloc_without_pending_load int
  | Ev_load_declined_no_blocks string string int mat_kind
  | Ev_load_allocated string string int mat_kind int
  | Blocks_left_cached bool string string fill_phase int int int int "nat list" int int
  | Blocks_evicted string string fill_phase int int int int int int

datatype skip_detail =
    At_short_prompt int int
  | At_served_admitted int
  | At_policy int string rat
  | At_no_block_ids int
  | At_served_continuation int
  | At_below_one_block int int
  | At_store_without_blocks string int

datatype capture_event =
    Ev_capture_disabled "string option"
  | Ev_capture_skipped skip_reason string skip_detail
  | Ev_capture_closed_short int int
  | Ev_capture_unclamped_no_schedule_info

datatype reg_event =
    Request_first_seen int
  | Registration_skipped_incompatible string
  | Registration_skipped_disabled
  | Registration_skipped_no_provider string
  | Registration_skipped_short_prompt int int
  | Registration_skipped_no_captured_kv skip_reason int
  | Registration_skipped_not_durable int int string
  | Registration_deferred int int string
  | Registration_failed string
  | Donor_registered string int int "(string \<times> pyval) list" int int "slice_fallback option" int string

datatype job_kind = Layer_job | Metadata_job

datatype worker_event =
    Ev_slot_mapping_multi_group_refused int int int
  | Ev_slot_mapping_window_not_covered int int int int
  | Ev_capture_base_missing string int int
  | Ev_donor_capture_write_failed job_kind "string option" string string
  | Ev_capture_write_queue_full int string
  | Ev_capture_orphan_discarded int string
  | Ev_capture_metadata_unexpected_type string
  | Ev_donor_capture_cost int int int int int int nat string

datatype span_decline = Mla_layout | No_rope_params | Short_donor

datatype load_event =
    Ev_load_metadata_unexpected_type string
  | Ev_materialized_without_forward bool
  | Ev_kv_caches_registered int
  | Ev_materialization_started string string int mat_kind
  | Ev_span_layers_declined string string int int "(span_decline \<times> int) list"
  | Ev_materialization_declined_donor_gone string string int mat_kind int int
  | Ev_materialization_failed_loud string bool
  | Ev_load_error_blocks_reported string int
  | Ev_materialization_declined_no_layers string string int mat_kind int
  | Ev_materialized string string int mat_kind int int
  | Ev_packed_content_dim_check_skipped
  | Ev_packed_asymmetric_kv_content_refused "nat list" int
  | Ev_packed_head_slot_layout_refused "nat list" int content_source

text \<open>\<open>connector_initialized\<close>: role, provider, block size, whether the hybrid manager is off, whether filled
blocks are evicted, why reuse is declined, and the startup checks that could not run.\<close>

datatype startup_event = Ev_connector_initialized string string int bool bool "string option" "string option"

datatype audit_event =
    EM match_event
  | EI startup_event
  | EW worker_event
  | EL load_event
  | EP plan_event
  | EF fill_event
  | EC capture_event
  | ER reg_event
  | Prompt_text_unavailable_event text_unavailable

record audit_row =
  ar_event :: audit_event
  ar_connector_id :: string
  ar_mode :: reuse_mode
  ar_join :: "join_key option"

subsection \<open>The environment\<close>

text \<open>
  \<open>SemanticKvProvider\<close>: the three methods of the protocol and the two optional ones the connector
  probes for, over a provider state \<open>'p\<close>. An exception is \<open>Inl\<close> with its type's name. A diagnostics
  probe that raises or returns no dictionary is \<open>None\<close>.
\<close>

record 'p provider_ops =
  po_lookup :: "'p \<Rightarrow> lookup_request \<Rightarrow> (string + lookup_result option) \<times> 'p"
  po_register_donor :: "'p \<Rightarrow> donor_registration \<Rightarrow> (string + unit) \<times> 'p"
  po_clear_donors :: "'p \<Rightarrow> 'p"
  po_span_run_possible :: "('p \<Rightarrow> int list \<Rightarrow> string \<Rightarrow> int \<Rightarrow> int \<Rightarrow> string + bool option) option"
  po_last_lookup_diagnostics :: "('p \<Rightarrow> (string \<times> pyval) list option) option"

text \<open>
  What is fixed for the life of one connector: its configuration and vLLM's, the block size, the
  startup verdict, and the code outside the repository it calls (SHA-256, the tokenizer, the
  audit file, the provider).
\<close>

record 'p env =
  e_config :: config
  e_vllm_config :: pyval
  e_connector_id :: string
  e_block_size :: int
  e_compat_decline :: "string option"
  e_sha256_hex :: "string \<Rightarrow> string"
  e_sha256_int64 :: "string \<Rightarrow> int"
  e_tokenizer_loads :: "string \<Rightarrow> bool"
  e_tokenizer_decode :: "string \<Rightarrow> int list \<Rightarrow> string option"
  e_audit_write_ok :: "audit_row \<Rightarrow> bool"
  e_provider :: "'p provider_ops"

subsection \<open>State and operations\<close>

record audit_st =
  stats :: "stat \<Rightarrow> int"
  audit_log :: "audit_row list"
  request_seq :: "string \<rightharpoonup> nat"
  request_event_seq :: "string \<rightharpoonup> nat"
  next_request_seq :: nat

definition bump_by :: "stat \<Rightarrow> int \<Rightarrow> 'z audit_st_scheme \<Rightarrow> 'z audit_st_scheme" where
  "bump_by k n s = s\<lparr>stats := (stats s)(k := stats s k + n)\<rparr>"

definition bump :: "stat \<Rightarrow> 'z audit_st_scheme \<Rightarrow> 'z audit_st_scheme" where
  "bump k s = bump_by k 1 s"

definition stamp_request_seq :: "string \<Rightarrow> 'z audit_st_scheme \<Rightarrow> nat \<times> 'z audit_st_scheme" where
  "stamp_request_seq r s =
     (case request_seq s r of
        Some existing \<Rightarrow> (existing, s)
      | None \<Rightarrow>
          (let n = next_request_seq s + 1
           in (n, s\<lparr>next_request_seq := n, request_seq := (request_seq s)(r \<mapsto> n)\<rparr>)))"

definition take_event_seq :: "string \<Rightarrow> 'z audit_st_scheme \<Rightarrow> nat \<times> 'z audit_st_scheme" where
  "take_event_seq r s =
     (let n = (case request_event_seq s r of None \<Rightarrow> 0 | Some n \<Rightarrow> n)
      in (n, s\<lparr>request_event_seq := (request_event_seq s)(r \<mapsto> n + 1)\<rparr>))"

definition take_join_key ::
  "'p env \<Rightarrow> string \<Rightarrow> 'z audit_st_scheme \<Rightarrow> join_key \<times> 'z audit_st_scheme" where
  "take_join_key e r s =
     (let (seq, s1) = stamp_request_seq r s; (ev, s2) = take_event_seq r s1
      in (\<lparr>jk_connector_id = e_connector_id e, jk_request_id = r, jk_request_seq = seq,
           jk_event_seq = ev\<rparr>, s2))"

definition forget_request_join_key :: "string \<Rightarrow> 'z audit_st_scheme \<Rightarrow> 'z audit_st_scheme" where
  "forget_request_join_key r s =
     s\<lparr>request_seq := (request_seq s)(r := None),
       request_event_seq := (request_event_seq s)(r := None)\<rparr>"

definition audit ::
  "'p env \<Rightarrow> string option \<Rightarrow> audit_event \<Rightarrow> 'z audit_st_scheme \<Rightarrow> 'z audit_st_scheme" where
  "audit e rid ev s =
     (if \<not> opt_truthy (c_audit_path (e_config e)) then s
      else
        let (join, s1) = (case rid of None \<Rightarrow> (None, s)
                          | Some r \<Rightarrow> (let (k, s') = take_join_key e r s in (Some k, s')));
            row = \<lparr>ar_event = ev, ar_connector_id = e_connector_id e,
                   ar_mode = c_mode (e_config e), ar_join = join\<rparr>
        in if e_audit_write_ok e row then s1\<lparr>audit_log := audit_log s1 @ [row]\<rparr>
           else bump Audit_errors_total s1)"


subsection \<open>Frames\<close>

lemma bump_fields [simp]:
  "audit_log (bump k s) = audit_log s" "request_seq (bump k s) = request_seq s"
  "request_event_seq (bump k s) = request_event_seq s" "next_request_seq (bump k s) = next_request_seq s"
  "audit_log (bump_by k n s) = audit_log s" "request_seq (bump_by k n s) = request_seq s"
  "request_event_seq (bump_by k n s) = request_event_seq s"
  "next_request_seq (bump_by k n s) = next_request_seq s"
  by (simp_all add: bump_def bump_by_def)

lemma stats_bump [simp]:
  "stats (bump k s) j = stats s j + (if j = k then 1 else 0)"
  "stats (bump_by k n s) j = stats s j + (if j = k then n else 0)"
  by (simp_all add: bump_def bump_by_def)

lemma more_bump [simp]:
  "audit_st.more (bump k s) = audit_st.more s" "audit_st.more (bump_by k n s) = audit_st.more s"
  by (simp_all add: bump_def bump_by_def)

lemma more_audit [simp]: "audit_st.more (audit e rid ev s) = audit_st.more s"
  by (auto simp: audit_def take_join_key_def take_event_seq_def stamp_request_seq_def Let_def
      split: option.splits)

lemma stats_audit:
  "j \<noteq> Audit_errors_total \<Longrightarrow> stats (audit e rid ev s) j = stats s j"
  by (auto simp: audit_def take_join_key_def take_event_seq_def stamp_request_seq_def Let_def
      split: option.splits)

lemma stats_audit_SM [simp]: "stats (audit e rid ev s) (SM j) = stats s (SM j)"
  and stats_audit_SP [simp]: "stats (audit e rid ev s) (SP k) = stats s (SP k)"
  and stats_audit_ST [simp]: "stats (audit e rid ev s) (ST l) = stats s (ST l)"
  and stats_audit_SF [simp]: "stats (audit e rid ev s) (SF m) = stats s (SF m)"
  and stats_audit_SC [simp]: "stats (audit e rid ev s) (SC n) = stats s (SC n)"
  and stats_audit_SR [simp]: "stats (audit e rid ev s) (SR i) = stats s (SR i)"
  and stats_audit_SW [simp]: "stats (audit e rid ev s) (SW w) = stats s (SW w)"
  and stats_audit_SL [simp]: "stats (audit e rid ev s) (SL o') = stats s (SL o')"
  by (simp_all add: stats_audit)

subsection \<open>The audit trail's identities\<close>

fun joins :: "audit_row list \<Rightarrow> (nat \<times> nat) list" where
  "joins [] = []"
| "joins (row # rows) =
     (case ar_join row of None \<Rightarrow> joins rows
      | Some k \<Rightarrow> (jk_request_seq k, jk_event_seq k) # joins rows)"

lemma joins_append [simp]: "joins (xs @ ys) = joins xs @ joins ys"
  by (induction xs) (auto split: option.splits)

definition event_slot :: "'z audit_st_scheme \<Rightarrow> string \<Rightarrow> nat" where
  "event_slot s r = (case request_event_seq s r of None \<Rightarrow> 0 | Some n \<Rightarrow> n)"

text \<open>
  Live sequence numbers are distinct and were handed out; a row written under a number that is
  still live used an event slot below the request's next one; no two rows share an identity.
\<close>

definition audit_inv :: "'z audit_st_scheme \<Rightarrow> bool" where
  "audit_inv s \<longleftrightarrow>
     (\<forall>r n. request_seq s r = Some n \<longrightarrow> n \<le> next_request_seq s)
     \<and> (\<forall>r q n. request_seq s r = Some n \<longrightarrow> request_seq s q = Some n \<longrightarrow> r = q)
     \<and> (\<forall>n i. (n, i) \<in> set (joins (audit_log s)) \<longrightarrow> n \<le> next_request_seq s)
     \<and> (\<forall>r n i. request_seq s r = Some n \<longrightarrow> (n, i) \<in> set (joins (audit_log s)) \<longrightarrow> i < event_slot s r)
     \<and> distinct (joins (audit_log s))"

text \<open>What the next event of a request is numbered, and the state the numbering leaves.\<close>

lemma take_join_key_result:
  assumes "take_join_key e r s = (k, s')"
  shows "jk_request_id k = r" and "jk_event_seq k = event_slot s r"
    and "request_seq s' = (request_seq s)(r \<mapsto> jk_request_seq k)"
    and "request_event_seq s' = (request_event_seq s)(r \<mapsto> event_slot s r + 1)"
    and "audit_log s' = audit_log s"
    and "jk_request_seq k =
           (case request_seq s r of Some n \<Rightarrow> n | None \<Rightarrow> next_request_seq s + 1)"
    and "next_request_seq s' =
           (case request_seq s r of Some n \<Rightarrow> next_request_seq s | None \<Rightarrow> next_request_seq s + 1)"
  using assms
  by (auto simp: take_join_key_def stamp_request_seq_def take_event_seq_def Let_def event_slot_def
      fun_upd_idem split: option.splits)

lemma audit_inv_row:
  assumes inv: "audit_inv s" and k: "take_join_key e r s = (k, s')"
  shows "audit_inv s'" and "(jk_request_seq k, jk_event_seq k) \<notin> set (joins (audit_log s))"
    and "audit_inv (s'\<lparr>audit_log := audit_log s @ [row\<lparr>ar_join := Some k\<rparr>]\<rparr>)"
proof -
  note res = take_join_key_result [OF k]
  have live: "request_seq s q = Some n \<Longrightarrow> n \<le> next_request_seq s" for q n
    using inv unfolding audit_inv_def by blast
  have inj: "request_seq s q = Some n \<Longrightarrow> request_seq s q' = Some n \<Longrightarrow> q = q'" for q q' n
    using inv unfolding audit_inv_def by blast
  have used: "(n, i) \<in> set (joins (audit_log s)) \<Longrightarrow> n \<le> next_request_seq s" for n i
    using inv unfolding audit_inv_def by blast
  have slot: "request_seq s q = Some n \<Longrightarrow> (n, i) \<in> set (joins (audit_log s)) \<Longrightarrow> i < event_slot s q"
    for q n i using inv unfolding audit_inv_def by blast
  have dist: "distinct (joins (audit_log s))" using inv unfolding audit_inv_def by blast
  have fresh: "(jk_request_seq k, i) \<in> set (joins (audit_log s)) \<Longrightarrow> i < event_slot s r" for i
    using res(6) slot [of r] used [of "next_request_seq s + 1" i] by (auto split: option.splits)
  show new: "(jk_request_seq k, jk_event_seq k) \<notin> set (joins (audit_log s))"
    using fresh res(2) by auto
  have slot': "event_slot s' q = (if q = r then event_slot s r + 1 else event_slot s q)" for q
    by (simp add: event_slot_def res(4))
  have seq': "request_seq s' q = Some n \<longleftrightarrow>
      (if q = r then n = jk_request_seq k else request_seq s q = Some n)" for q n
    by (auto simp: res(3))
  have le': "next_request_seq s \<le> next_request_seq s'" "jk_request_seq k \<le> next_request_seq s'"
    using res(6,7) live [of r] by (auto split: option.splits)
  have other: "request_seq s q = Some (jk_request_seq k) \<Longrightarrow> q = r" for q
    using res(6) inj [of q _ r] live [of q "next_request_seq s + 1"] by (auto split: option.splits)
  have p1: "request_seq s' q = Some n \<Longrightarrow> n \<le> next_request_seq s'" for q n
    using le' live [of q n] by (auto simp: seq' split: if_splits)
  have p2: "request_seq s' q = Some n \<Longrightarrow> request_seq s' q' = Some n \<Longrightarrow> q = q'" for q q' n
    by (metis seq' inj other)
  have p3: "(n, i) \<in> set (joins (audit_log s)) \<Longrightarrow> n \<le> next_request_seq s'" for n i
    using used [of n i] le'(1) by linarith
  have p4: "request_seq s' q = Some n \<Longrightarrow> (n, i) \<in> set (joins (audit_log s)) \<Longrightarrow> i < event_slot s' q"
    for q n i
    using fresh [of i] slot [of q n i] by (auto simp: seq' slot' split: if_splits)
  show "audit_inv s'"
    unfolding audit_inv_def res(5) using p1 p2 p3 p4 dist by blast
  have p5: "event_slot (s'\<lparr>audit_log := l\<rparr>) q = event_slot s' q" for l q
    by (simp add: event_slot_def)
  have p6: "request_seq s' q = Some (jk_request_seq k) \<Longrightarrow> jk_event_seq k < event_slot s' q" for q
    using other [of q] by (auto simp: seq' slot' res(2) split: if_splits)
  show "audit_inv (s'\<lparr>audit_log := audit_log s @ [row\<lparr>ar_join := Some k\<rparr>]\<rparr>)"
    unfolding audit_inv_def p5 using p1 p2 p3 p4 p6 dist new le'(2) by auto
qed


lemma audit_inv_cong:
  assumes "audit_log s = audit_log s'" and "request_seq s = request_seq s'"
    and "request_event_seq s = request_event_seq s'" and "next_request_seq s = next_request_seq s'"
  shows "audit_inv s = audit_inv s'"
  using assms by (simp add: audit_inv_def event_slot_def)

lemma audit_inv_bump [simp]: "audit_inv (bump_by k n s) = audit_inv s" "audit_inv (bump k s) = audit_inv s"
  by (rule audit_inv_cong; simp)+

lemma audit_inv_unjoined:
  "ar_join row = None \<Longrightarrow> audit_inv (s\<lparr>audit_log := audit_log s @ [row]\<rparr>) = audit_inv s"
  by (simp add: audit_inv_def event_slot_def)

lemma audit_inv_audit: "audit_inv s \<Longrightarrow> audit_inv (audit e rid ev s)"
proof -
  assume inv: "audit_inv s"
  show ?thesis
  proof (cases rid)
    case None
    then show ?thesis using inv by (simp add: audit_def audit_inv_unjoined Let_def)
  next
    case (Some r)
    obtain k s' where k: "take_join_key e r s = (k, s')" by fastforce
    note row = audit_inv_row [OF inv k]
    have log: "audit_log s' = audit_log s" by (rule take_join_key_result(5) [OF k])
    show ?thesis
      using inv row(1) row(3) [of "\<lparr>ar_event = ev, ar_connector_id = e_connector_id e,
          ar_mode = c_mode (e_config e), ar_join = None\<rparr>"]
      by (simp add: audit_def Some k log Let_def)
  qed
qed

lemma audit_inv_forget: "audit_inv s \<Longrightarrow> audit_inv (forget_request_join_key r s)"
  by (auto simp: audit_inv_def forget_request_join_key_def event_slot_def)

text \<open>A request keeps its number from its first event until it is forgotten.\<close>

lemma request_seq_audit_stable:
  "request_seq s r = Some n \<Longrightarrow> request_seq (audit e rid ev s) r = Some n"
  by (auto simp: audit_def take_join_key_def take_event_seq_def stamp_request_seq_def Let_def
      split: option.splits)

text \<open>
  Everything the connector does to this part of its state is a sequence of these: it counts, it
  writes an event, it retires a request's join key.
\<close>

datatype audit_op =
    Count stat int
  | Emit "string option" audit_event
  | Retire string

fun audit_step :: "'p env \<Rightarrow> audit_op \<Rightarrow> audit_st \<Rightarrow> audit_st" where
  "audit_step e (Count k n) s = bump_by k n s"
| "audit_step e (Emit rid ev) s = audit e rid ev s"
| "audit_step e (Retire r) s = forget_request_join_key r s"

definition audit_run :: "'p env \<Rightarrow> audit_op list \<Rightarrow> audit_st \<Rightarrow> audit_st" where
  "audit_run e ops s = fold (audit_step e) ops s"

definition init_audit :: audit_st where
  "init_audit = \<lparr>stats = (\<lambda>_. 0), audit_log = [], request_seq = Map.empty,
                 request_event_seq = Map.empty, next_request_seq = 0\<rparr>"

lemma audit_inv_init: "audit_inv init_audit"
  by (simp add: init_audit_def audit_inv_def)

lemma audit_inv_step: "audit_inv s \<Longrightarrow> audit_inv (audit_step e op s)"
  by (cases op) (simp_all add: audit_inv_audit audit_inv_forget)

lemma audit_inv_run: "audit_inv s \<Longrightarrow> audit_inv (audit_run e ops s)"
  unfolding audit_run_def by (induction ops arbitrary: s) (simp_all add: audit_inv_step)

text \<open>
  C13. No two audit rows of one connector carry the same \<open>(request_seq, event_seq)\<close>, over any
  sequence of counts, events and retirements: a reused request id gets a fresh sequence number,
  so its events cannot be joined to its predecessor's.
\<close>

theorem audit_rows_joinable: "distinct (joins (audit_log (audit_run e ops init_audit)))"
  using audit_inv_run [OF audit_inv_init] unfolding audit_inv_def by blast

text \<open>
  The join identity is stable: once a request is numbered, every later event that names it
  carries that number, until the request is retired, and consecutive events of the request take
  consecutive slots.
\<close>

theorem join_key_stable:
  assumes "request_seq s r = Some n" and "opt_truthy (c_audit_path (e_config e))"
    and "\<And>row. e_audit_write_ok e row"
  shows "\<exists>row. audit_log (audit e (Some r) ev s) = audit_log s @ [row] \<and> ar_event row = ev
     \<and> ar_join row = Some \<lparr>jk_connector_id = e_connector_id e, jk_request_id = r,
                             jk_request_seq = n, jk_event_seq = event_slot s r\<rparr>
     \<and> request_seq (audit e (Some r) ev s) r = Some n
     \<and> event_slot (audit e (Some r) ev s) r = event_slot s r + 1"
  using assms
  by (auto simp: audit_def take_join_key_def stamp_request_seq_def take_event_seq_def event_slot_def
      split: option.splits)


subsection \<open>A concrete environment\<close>

text \<open>
  For the witnesses: a provider that finds nothing and accepts every donor, a tokenizer that
  prints one character per token, and a digest that is the identity.
\<close>

definition silent_provider :: "unit provider_ops" where
  "silent_provider = \<lparr>
     po_lookup = (\<lambda>p q. (Inr None, p)), po_register_donor = (\<lambda>p d. (Inr (), p)),
     po_clear_donors = (\<lambda>p. p), po_span_run_possible = None, po_last_lookup_diagnostics = None\<rparr>"

definition sample_env :: "'p provider_ops \<Rightarrow> config \<Rightarrow> 'p env" where
  "sample_env ops c = \<lparr>
     e_config = c, e_vllm_config = PNone, e_connector_id = ''SCHEDULER-1-1'', e_block_size = 16,
     e_compat_decline = None, e_sha256_hex = (\<lambda>s. s), e_sha256_int64 = (\<lambda>s. int (length s)),
     e_tokenizer_loads = (\<lambda>s. True), e_tokenizer_decode = (\<lambda>s ts. Some (map (\<lambda>_. CHR ''x'') ts)),
     e_audit_write_ok = (\<lambda>_. True), e_provider = ops\<rparr>"

theorem join_key_stable_witness:
  "\<exists>row. audit_log (audit (sample_env silent_provider (default_config\<lparr>c_audit_path := Some ''a''\<rparr>))
        (Some ''r'') (ER (Request_first_seen 3)) (init_audit\<lparr>request_seq := [''r'' \<mapsto> 1]\<rparr>)) = [row]"
proof -
  let ?e = "sample_env silent_provider (default_config\<lparr>c_audit_path := Some ''a''\<rparr>)"
  let ?s = "init_audit\<lparr>request_seq := [''r'' \<mapsto> 1]\<rparr>"
  have "request_seq ?s ''r'' = Some 1" by simp
  moreover have "opt_truthy (c_audit_path (e_config ?e))" by (simp add: sample_env_def)
  moreover have "\<And>row. e_audit_write_ok ?e row" by (simp add: sample_env_def)
  ultimately show ?thesis
    using join_key_stable [of ?s "''r''" 1 ?e "ER (Request_first_seen 3)"]
    by (auto simp: init_audit_def)
qed

end
