(* ===== verification/Request.thy ===== *)
theory Request
  imports AuditTrail
begin

text \<open>
  What the connector reads off a vLLM request: its id, tokens and block table, the metadata and
  header mappings, the hints (\<open>_hinted\<close>, \<open>_hint_is_set\<close>), the routing keys
  (\<open>_routing_metadata\<close>) and, from \<open>namespace.py\<close>, the model id, the raw cache salt and the
  per-request namespace. A \<open>request\<close> stands for vLLM's \<open>Request\<close> and for the scheduler's
  \<open>NewRequestData\<close>, which the code reads through the same duck-typed helpers: the attributes
  holding token ids, block ids and counts have fields of their own, with \<open>None\<close> for an attribute
  that is missing or \<open>None\<close>, and \<open>rq_attrs\<close> is the object with all the others.
\<close>

datatype block_ids_arg = No_block_ids_arg | Flat_blocks "nat list" | Block_groups "nat list list"

record request =
  rq_prompt_token_ids :: "int list option"
  rq_all_token_ids :: "int list option"
  rq_token_ids :: "int list option"
  rq_block_ids :: block_ids_arg
  rq_num_computed_tokens :: "int option"
  rq_attrs :: pyval

subsection \<open>Ids, tokens and blocks\<close>

definition request_id_of :: "request \<Rightarrow> string" where
  "request_id_of r =
     (if hasattr (rq_attrs r) ''request_id'' then py_str (getattr (rq_attrs r) ''request_id'')
      else ''unknown-request'')"

definition token_ids_of :: "request \<Rightarrow> int list" where
  "token_ids_of r =
     (if opt_truthy (rq_prompt_token_ids r) then opt_list (rq_prompt_token_ids r)
      else if opt_truthy (rq_all_token_ids r) then opt_list (rq_all_token_ids r)
      else opt_list (rq_token_ids r))"

text \<open>The id \<open>_capture_admitted\<close> reads off a scheduled new request.\<close>

definition new_request_id :: "request \<Rightarrow> string" where
  "new_request_id r =
     py_str (py_or (py_or (getattr (rq_attrs r) ''req_id'') (getattr (rq_attrs r) ''request_id''))
                   (PStr ''unknown-request''))"

definition normalize_block_ids :: "block_ids_arg \<Rightarrow> block_table option" where
  "normalize_block_ids b =
     (case b of
        No_block_ids_arg \<Rightarrow> None
      | Flat_blocks xs \<Rightarrow> (if xs = [] then None else Some [xs])
      | Block_groups gs \<Rightarrow> (if gs = [] then None else Some gs))"

definition cacheable_prefix_tokens :: "int \<Rightarrow> int \<Rightarrow> int" where
  "cacheable_prefix_tokens num_tokens block_size =
     (let eligible = max (num_tokens - 1) 0
      in if eligible \<le> 0 then 0 else ((eligible - 1) div block_size) * block_size)"

fun common_prefix_len :: "int list \<Rightarrow> int list \<Rightarrow> int" where
  "common_prefix_len (a # as) (b # bs) = (if a \<noteq> b then 0 else 1 + common_prefix_len as bs)"
| "common_prefix_len _ _ = 0"

subsection \<open>Metadata, hints and routing keys\<close>

text \<open>\<open>_request_metadata\<close>: later mappings overwrite earlier ones key by key.\<close>

definition normalize_key :: "string \<Rightarrow> string" where
  "normalize_key k = replace_char (CHR ''-'') (CHR ''_'') (py_lower k)"

definition merge_mapping :: "(string, pyval) odict \<Rightarrow> pyval \<Rightarrow> (string, pyval) odict" where
  "merge_mapping d v =
     (case v of PMap _ items \<Rightarrow> fold (\<lambda>(k, item) d. od_set d (normalize_key k) item) items d
      | _ \<Rightarrow> d)"

definition request_metadata :: "request \<Rightarrow> (string, pyval) odict" where
  "request_metadata r =
     fold (\<lambda>attr d. merge_mapping d (getattr (rq_attrs r) attr))
       [''metadata'', ''request_metadata'', ''extra_metadata'', ''extra_headers'', ''trace_headers''] []"

fun first_non_empty :: "pyval list \<Rightarrow> string option" where
  "first_non_empty [] = None"
| "first_non_empty (v # vs) =
     (if v = PNone then first_non_empty vs
      else let text = py_strip (py_str v) in if text \<noteq> [] then Some text else first_non_empty vs)"

definition routing_metadata :: "request \<Rightarrow> (string \<times> pyval) list" where
  "routing_metadata r =
     (let md = request_metadata r;
          attr = getattr (rq_attrs r);
          item = get_item md;
          tenant = first_non_empty
            [attr ''tenant_id'', attr ''tenant'', item ''tenant_id'', item ''tenant'',
             item ''x_synapse_tenant'', item ''x_worldflow_tenant''];
          template = first_non_empty
            [attr ''template_id'', attr ''template'', attr ''chat_template'', item ''template_id'',
             item ''template'', item ''chat_template'', item ''x_synapse_template'',
             item ''x_worldflow_template'']
      in (case tenant of Some t \<Rightarrow> [(''tenant'', PStr t)] | None \<Rightarrow> [])
         @ (case template of Some t \<Rightarrow> [(''template'', PStr t)] | None \<Rightarrow> []))"

fun hint_is_set :: "pyval \<Rightarrow> bool" where
  "hint_is_set PNone = False"
| "hint_is_set (PBool b) = b"
| "hint_is_set (PInt i) = (i \<noteq> 0)"
| "hint_is_set (PFloat x _) = (x \<noteq> 0)"
| "hint_is_set v = (py_lower (py_strip (py_str v)) \<in> {''1'', ''true'', ''yes'', ''on''})"

definition hinted :: "request \<Rightarrow> string \<Rightarrow> bool" where
  "hinted r key =
     (let extra_args = getattr (getattr (rq_attrs r) ''sampling_params'') ''extra_args'';
          md = request_metadata r
      in hint_is_set (getattr (rq_attrs r) key)
         \<or> (case extra_args of PMap _ d \<Rightarrow> hint_is_set (get_item d key) | _ \<Rightarrow> False)
         \<or> hint_is_set (get_item md key)
         \<or> hint_is_set (get_item md (''x_'' @ key)))"

subsection \<open>Model id, cache salt and namespace\<close>

fun safe_attr :: "pyval \<Rightarrow> string list \<Rightarrow> pyval" where
  "safe_attr obj [] = PNone"
| "safe_attr obj (name # names) =
     (let value = getattr obj name in if value \<noteq> PNone then value else safe_attr obj names)"

definition model_id_from_config :: "'p env \<Rightarrow> string" where
  "model_id_from_config e =
     (case c_model_id (e_config e) of
        Some (c # cs) \<Rightarrow> c # cs
      | _ \<Rightarrow> py_str (py_or (safe_attr (getattr (e_vllm_config e) ''model_config'')
                                [''model'', ''served_model_name'', ''model_name''])
                      (PStr ''unknown-model'')))"

text \<open>The once-per-process warning for a request type without the field is a log line only.\<close>

definition cache_salt_for_request :: "request \<Rightarrow> string option" where
  "cache_salt_for_request r =
     (if \<not> hasattr (rq_attrs r) ''cache_salt'' then None
      else let salt = safe_attr (rq_attrs r) [''cache_salt'']
           in if salt = PNone then None
              else if py_str salt = [] then None else Some (py_str salt))"

text \<open>The six parts in the order of their sorted keys, joined by bars.\<close>

definition namespace_raw :: "'p env \<Rightarrow> request \<Rightarrow> string" where
  "namespace_raw e r =
     (let cache_config = getattr (e_vllm_config e) ''cache_config'';
          model_config = getattr (e_vllm_config e) ''model_config''
      in ''block='' @ py_str (py_or (safe_attr cache_config [''block_size'']) (PStr ''unknown-block''))
         @ ''|dtype='' @ py_str (py_or (safe_attr model_config [''dtype'']) (PStr ''unknown-dtype''))
         @ ''|lora='' @ py_str (py_or (safe_attr (rq_attrs r) [''lora_request'']) (PStr ''no-lora''))
         @ ''|model='' @ model_id_from_config e
         @ ''|salt='' @ py_str (py_or (safe_attr (rq_attrs r) [''cache_salt'']) (PStr ''no-salt''))
         @ ''|tokenizer='' @ py_str (py_or (safe_attr model_config [''tokenizer'', ''tokenizer_name''])
                                       (PStr ''unknown-tokenizer'')))"

text \<open>The text the namespace digests for the salt.\<close>

definition namespace_salt :: "request \<Rightarrow> string" where
  "namespace_salt r = py_str (py_or (safe_attr (rq_attrs r) [''cache_salt'']) (PStr ''no-salt''))"

definition namespace_for_request :: "'p env \<Rightarrow> request \<Rightarrow> string" where
  "namespace_for_request e r = ''vllm:'' @ take 16 (e_sha256_hex e (namespace_raw e r))"

subsection \<open>Lemmas\<close>

lemma cacheable_prefix_eq:
  "cacheable_prefix_tokens n b = (if n \<le> 1 then 0 else align_down (n - 2) b)"
  by (auto simp: cacheable_prefix_tokens_def align_down_def Let_def max_def)

lemma cacheable_prefix_bounds:
  assumes "0 < b"
  shows "0 \<le> cacheable_prefix_tokens n b" and "b dvd cacheable_prefix_tokens n b"
    and "0 < cacheable_prefix_tokens n b \<Longrightarrow> cacheable_prefix_tokens n b \<le> n - 2"
    and "0 \<le> n \<Longrightarrow> cacheable_prefix_tokens n b \<le> n"
proof -
  have le: "align_down (n - 2) b \<le> n - 2" using assms by (rule align_down_le)
  show "0 \<le> cacheable_prefix_tokens n b" and "b dvd cacheable_prefix_tokens n b"
    using assms by (auto simp: cacheable_prefix_eq align_down_nonneg)
  show "0 < cacheable_prefix_tokens n b \<Longrightarrow> cacheable_prefix_tokens n b \<le> n - 2"
    using le by (simp add: cacheable_prefix_eq split: if_splits)
  show "0 \<le> n \<Longrightarrow> cacheable_prefix_tokens n b \<le> n"
    unfolding cacheable_prefix_eq using le by (simp del: align_down_le)
qed

lemma common_prefix_len_bounds:
  "0 \<le> common_prefix_len xs ys \<and> common_prefix_len xs ys \<le> len xs \<and> common_prefix_len xs ys \<le> len ys"
  by (induction xs ys rule: common_prefix_len.induct) auto

lemma common_prefix_len_take:
  "nat (common_prefix_len xs ys) = k \<Longrightarrow> take k xs = take k ys"
proof (induction xs ys arbitrary: k rule: common_prefix_len.induct)
  case (1 a as b bs)
  show ?case
  proof (cases "a = b")
    case True
    then have "k = Suc (nat (common_prefix_len as bs))"
      using "1.prems" common_prefix_len_bounds [of as bs] by (simp add: nat_add_distrib)
    with True "1.IH" show ?thesis by simp
  qed (use "1.prems" in simp)
qed simp_all

lemma normalize_block_ids_nonempty: "normalize_block_ids b = Some t \<Longrightarrow> t \<noteq> []"
  by (auto simp: normalize_block_ids_def split: block_ids_arg.splits if_splits)

subsection \<open>Properties\<close>

text \<open>
  The prefix the connector lets itself claim is a whole number of blocks and always leaves
  the engine tokens to compute; it is the largest block-aligned prefix that leaves one token,
  except when the prompt is one token past a block edge, where it is a whole block shorter.
\<close>

theorem cacheable_prefix_exact:
  assumes "0 < b" and "2 \<le> n"
  shows "b dvd cacheable_prefix_tokens n b \<and> cacheable_prefix_tokens n b < n - 1
    \<and> cacheable_prefix_tokens n b =
        (if b dvd n - 1 then align_down (n - 1) b - b else align_down (n - 1) b)"
proof -
  have eq: "cacheable_prefix_tokens n b = align_down (n - 2) b"
    using assms by (simp add: cacheable_prefix_eq)
  have "align_down (n - 2) b = (if b dvd n - 1 then align_down (n - 1) b - b else align_down (n - 1) b)"
  proof (cases "b dvd n - 1")
    case True
    then obtain k where k: "n - 1 = k * b" by (metis dvdE mult.commute)
    have eq: "k * b - 1 = b - 1 + (k - 1) * b" by (simp add: left_diff_distrib)
    have "(k * b - 1) div b = k - 1 + (b - 1) div b"
      unfolding eq using assms(1) by (intro div_mult_self1) simp
    with assms(1) have "(k * b - 1) div b = k - 1" by simp
    then have "align_down (n - 2) b = (k - 1) * b"
      using k by (metis align_down_def diff_diff_eq one_add_one)
    with True k assms(1) show ?thesis by (simp add: align_down_id algebra_simps)
  next
    case False
    have "align_down (n - 1) b \<le> n - 2"
    proof -
      have "align_down (n - 1) b \<noteq> n - 1" using False by (metis dvd_align_down)
      with align_down_le [OF assms(1), of "n - 1"] show ?thesis by linarith
    qed
    then have "align_down (n - 1) b \<le> align_down (n - 2) b"
      by (rule align_down_greatest [OF assms(1) dvd_align_down])
    with False show ?thesis using align_down_mono [OF assms(1), of "n - 2" "n - 1"] by simp
  qed
  then show ?thesis using eq align_down_le [OF assms(1), of "n - 2"] by simp
qed

theorem cacheable_prefix_exact_witness:
  "cacheable_prefix_tokens 17 16 = 0 \<and> cacheable_prefix_tokens 18 16 = 16"
  using cacheable_prefix_exact [of 16 17] cacheable_prefix_exact [of 16 18]
  by (simp add: align_down_def)

lemma namespace_raw_digest: "namespace_raw (e\<lparr>e_sha256_hex := h\<rparr>) r = namespace_raw e r"
proof -
  have "e_vllm_config (e\<lparr>e_sha256_hex := h\<rparr>) = e_vllm_config e"
    and "e_config (e\<lparr>e_sha256_hex := h\<rparr>) = e_config e" by simp_all
  then show ?thesis by (simp only: namespace_raw_def model_id_from_config_def)
qed

lemma namespace_raw_eq_iff:
  assumes "safe_attr (rq_attrs r) [''lora_request''] = safe_attr (rq_attrs q) [''lora_request'']"
  shows "namespace_raw e r = namespace_raw e q \<longleftrightarrow> namespace_salt r = namespace_salt q"
  unfolding namespace_raw_def Let_def assms
  by (simp only: append_assoc same_append_eq append_same_eq namespace_salt_def)


definition sample_request :: "int list \<Rightarrow> (string \<times> pyval) list \<Rightarrow> request" where
  "sample_request tokens attrs = \<lparr>rq_prompt_token_ids = Some tokens, rq_all_token_ids = None,
     rq_token_ids = None, rq_block_ids = No_block_ids_arg, rq_num_computed_tokens = None,
     rq_attrs = PObj ''Request'' attrs\<rparr>"


text \<open>
  The salt \<open>no-salt\<close> is not isolated: a request that carries it shares the namespace of the
  requests that carry no salt, whatever the engine, although the raw salt the connector reports
  for the two requests differs.
\<close>

theorem no_salt_text_collides:
  assumes "rq_attrs r = PObj t ((''cache_salt'', PStr ''no-salt'') # rest)"
    and "rq_attrs q = PObj t ((''cache_salt'', PNone) # rest)"
  shows "namespace_for_request e r = namespace_for_request e q
    \<and> cache_salt_for_request r = Some ''no-salt'' \<and> cache_salt_for_request q = None"
proof -
  have "safe_attr (rq_attrs r) [''lora_request''] = safe_attr (rq_attrs q) [''lora_request'']"
    by (simp add: assms getattr_def Let_def)
  moreover have "namespace_salt r = namespace_salt q"
    by (simp add: assms namespace_salt_def getattr_def py_or_def)
  ultimately have "namespace_raw e r = namespace_raw e q" by (simp add: namespace_raw_eq_iff)
  then show ?thesis
    by (simp add: namespace_for_request_def cache_salt_for_request_def assms hasattr_def getattr_def)
qed

theorem no_salt_text_collides_witness:
  "namespace_for_request (sample_env silent_provider default_config)
       (sample_request [1] [(''cache_salt'', PStr ''no-salt'')])
   = namespace_for_request (sample_env silent_provider default_config)
       (sample_request [1] [(''cache_salt'', PNone)])"
  using no_salt_text_collides [of "sample_request [1] [(''cache_salt'', PStr ''no-salt'')]"
      "''Request''" "[]" "sample_request [1] [(''cache_salt'', PNone)]"
      "sample_env silent_provider default_config"]
  by (simp add: sample_request_def)

end
