(* ===== verification/QueryText.thy ===== *)
theory QueryText
  imports Request
begin

text \<open>
  The prompt text handed to a provider: \<open>_prompt_text\<close>, \<open>_boundary_sliced_text\<close>,
  \<open>_prefix_char_offset\<close>, \<open>_note_text_slice_fallback\<close>, \<open>_note_prompt_text_unavailable\<close>,
  \<open>_decode_prompt_tokens\<close> and \<open>_get_prompt_tokenizer\<close> of \<open>connector.py\<close>. The tokenizer is outside
  code: \<open>e_tokenizer_loads\<close> says whether an id can be loaded and \<open>e_tokenizer_decode\<close> what it
  decodes, \<open>None\<close> for a decode that raises. The loaded tokenizer is named by its id.
\<close>

record text_st = audit_st +
  prompt_tokenizer :: "string option"
  prompt_tokenizer_failed :: bool

definition note_prompt_text_unavailable ::
  "'p env \<Rightarrow> text_unavailable \<Rightarrow> 'z audit_st_scheme \<Rightarrow> 'z audit_st_scheme" where
  "note_prompt_text_unavailable e reason s =
     (let k = ST (Prompt_text_unavailable reason);
          first = (stats s k = 0);
          s1 = bump k s
      in if first then audit e None (Prompt_text_unavailable_event reason) s1 else s1)"

definition note_text_slice_fallback ::
  "text_kind \<Rightarrow> slice_fallback \<Rightarrow> 'z audit_st_scheme \<Rightarrow> slice_fallback \<times> 'z audit_st_scheme" where
  "note_text_slice_fallback kind reason s = (reason, bump (ST (Text_fallback kind reason)) s)"

definition get_prompt_tokenizer ::
  "'p env \<Rightarrow> 'z text_st_scheme \<Rightarrow> string option \<times> 'z text_st_scheme" where
  "get_prompt_tokenizer e s =
     (case prompt_tokenizer s of
        Some t \<Rightarrow> (Some t, s)
      | None \<Rightarrow>
          if prompt_tokenizer_failed s then (None, s)
          else
            let model_config = getattr (e_vllm_config e) ''model_config'';
                configured = (case c_model_id (e_config e) of Some m \<Rightarrow> PStr m | None \<Rightarrow> PNone);
                tokenizer_id = py_or (py_or (getattr model_config ''tokenizer'') configured)
                                 (getattr model_config ''model'')
            in if \<not> truthy tokenizer_id then (None, s\<lparr>prompt_tokenizer_failed := True\<rparr>)
               else if e_tokenizer_loads e (py_str tokenizer_id)
                 then (Some (py_str tokenizer_id), s\<lparr>prompt_tokenizer := Some (py_str tokenizer_id)\<rparr>)
               else (None, s\<lparr>prompt_tokenizer_failed := True\<rparr>))"

definition decode_prompt_tokens ::
  "'p env \<Rightarrow> int list \<Rightarrow> 'z text_st_scheme \<Rightarrow> string option \<times> 'z text_st_scheme" where
  "decode_prompt_tokens e token_ids s =
     (if token_ids = [] \<or> prompt_tokenizer_failed s then (None, s)
      else
        let (tokenizer, s1) = get_prompt_tokenizer e s
        in case tokenizer of
             None \<Rightarrow> (None, s1)
           | Some t \<Rightarrow>
               (case e_tokenizer_decode e t token_ids of
                  None \<Rightarrow> (None, s1\<lparr>prompt_tokenizer_failed := True\<rparr>)
                | Some text \<Rightarrow> (if py_strip text = [] then None else Some (py_strip text), s1)))"

fun first_str_attr :: "request \<Rightarrow> string list \<Rightarrow> string option" where
  "first_str_attr r [] = None"
| "first_str_attr r (a # as) =
     (case getattr (rq_attrs r) a of PStr t \<Rightarrow> Some t | _ \<Rightarrow> first_str_attr r as)"

definition prompt_text ::
  "'p env \<Rightarrow> request \<Rightarrow> 'z text_st_scheme \<Rightarrow> string option \<times> 'z text_st_scheme" where
  "prompt_text e r s =
     (if \<not> c_enable_prompt_text (e_config e)
      then (None, note_prompt_text_unavailable e Text_disabled_by_config s)
      else case first_str_attr r [''prompt'', ''prompt_text'', ''text''] of
             Some t \<Rightarrow> (Some t, s)
           | None \<Rightarrow>
               let ids = (if opt_truthy (rq_prompt_token_ids r) then opt_list (rq_prompt_token_ids r)
                          else token_ids_of r);
                   (text, s1) = decode_prompt_tokens e ids s
               in (text, if text = None then note_prompt_text_unavailable e Decode_unavailable s1
                         else s1))"

definition prefix_char_offset ::
  "'p env \<Rightarrow> int list \<Rightarrow> int \<Rightarrow> 'z text_st_scheme \<Rightarrow> int option \<times> 'z text_st_scheme" where
  "prefix_char_offset e token_ids boundary s =
     (let (prefix, s1) = decode_prompt_tokens e (take (nat boundary) token_ids) s
      in (map_option (\<lambda>p. len p) prefix, s1))"

text \<open>\<open>(text, offset_tokens, chars, fallback_reason)\<close>.\<close>

type_synonym sliced_text = "string option \<times> int \<times> int \<times> slice_fallback option"

definition boundary_sliced_text ::
  "'p env \<Rightarrow> request \<Rightarrow> int list \<Rightarrow> int \<Rightarrow> text_kind \<Rightarrow> 'z text_st_scheme
     \<Rightarrow> sliced_text \<times> 'z text_st_scheme" where
  "boundary_sliced_text e r token_ids boundary kind s =
     (let (full_opt, s1) = prompt_text e r s
      in case full_opt of
           None \<Rightarrow> ((None, 0, 0, Some No_prompt_text), s1)
         | Some full \<Rightarrow>
             if \<not> c_boundary_sliced_query_text (e_config e)
             then ((Some full, 0, len full, Some Disabled_by_config), s1)
             else if boundary \<le> 0 \<or> len token_ids \<le> boundary
             then ((Some full, 0, len full, None), s1)
             else
               let (offset_opt, s2) = prefix_char_offset e token_ids boundary s1;
                   fall_back = (\<lambda>reason. let (why, s3) = note_text_slice_fallback kind reason s2
                                         in ((Some full, 0, len full, Some why), s3))
               in case offset_opt of
                    None \<Rightarrow> fall_back Offset_unavailable
                  | Some offset \<Rightarrow>
                      if len full \<le> offset then fall_back Offset_past_prompt_text
                      else
                        let sliced = drop (nat offset) full
                        in if len sliced < c_min_query_text_chars (e_config e)
                           then fall_back Below_min_chars
                           else ((Some sliced, boundary, len sliced, None),
                                 bump (ST (Text_sliced_total kind)) s2))"

subsection \<open>Properties\<close>

text \<open>
  What is embedded is what the audit says: the text handed to the provider is always a suffix
  of the prompt text with its own length reported; it is a proper boundary slice, reported at that
  boundary with no fallback and no shorter than the configured floor, or it is the whole prompt
  text reported at offset 0; and without prompt text nothing is embedded.
\<close>

theorem boundary_sliced_text_sound:
  assumes "boundary_sliced_text e r token_ids boundary kind s = ((text, offset, chars, why), s')"
  shows "(text = None \<longrightarrow> fst (prompt_text e r s) = None \<and> why = Some No_prompt_text \<and> chars = 0)
    \<and> (\<forall>t. text = Some t \<longrightarrow> chars = len t \<and>
         (\<exists>full. fst (prompt_text e r s) = Some full \<and>
            (t = full \<and> offset = 0
             \<or> (\<exists>k. t = drop k full) \<and> offset = boundary \<and> 0 < boundary \<and> boundary < len token_ids
                \<and> why = None \<and> c_min_query_text_chars (e_config e) \<le> len t
                \<and> c_boundary_sliced_query_text (e_config e))))"
proof -
  obtain f s1 where f: "prompt_text e r s = (f, s1)" by fastforce
  obtain o' s2 where o': "prefix_char_offset e token_ids boundary s1 = (o', s2)" by fastforce
  show ?thesis
    using assms
    by (cases f; cases o')
       (auto simp: boundary_sliced_text_def f o' note_text_slice_fallback_def Let_def not_less
         split: if_splits intro: exI [of _ 0])
qed

definition init_text :: text_st where
  "init_text = \<lparr>stats = (\<lambda>_. 0), audit_log = [], request_seq = Map.empty,
                 request_event_seq = Map.empty, next_request_seq = 0,
                 prompt_tokenizer = None, prompt_tokenizer_failed = False\<rparr>"

definition sliced_env :: "unit env" where
  "sliced_env = sample_env silent_provider (default_config\<lparr>c_enable_prompt_text := True,
        c_min_query_text_chars := 2, c_model_id := Some ''m''\<rparr>)"

definition sliced_request :: request where
  "sliced_request = sample_request [1, 2, 3] [(''prompt'', PStr ''abcd'')]"

lemma sliced_run:
  "fst (boundary_sliced_text sliced_env sliced_request [1, 2, 3] 2 Query_text init_text)
     = (Some ''cd'', 2, 2, None)"
  by code_simp

theorem boundary_sliced_text_sound_witness:
  "fst (boundary_sliced_text sliced_env sliced_request [1, 2, 3] 2 Query_text init_text)
     = (Some ''cd'', 2, 2, None)
   \<and> (\<exists>full. fst (prompt_text sliced_env sliced_request init_text) = Some full)"
proof -
  note run = boundary_sliced_text_sound [OF fst_run [OF sliced_run], THEN conjunct2, rule_format,
      OF refl, THEN conjunct2]
  from run show ?thesis by (elim exE conjE) (intro conjI exI sliced_run)
qed

end
