(* ===== verification/Storage.thy ===== *)
theory Storage
  imports QueryText
begin

text \<open>
  The donor store as both roles read it: \<open>_storage_key\<close>, \<open>_has_stored_donor\<close>,
  \<open>_stored_donor_token_count\<close> and \<open>_materialization_enabled\<close> of \<open>connector.py\<close>. The volume under
  \<open>kv_storage_path\<close> is shared with the other role's process, so it is an argument of an operation
  and not part of the connector's state: a map from a directory's name to its contents. The
  in-process memory store is an ordered dictionary, least recently used donor first.

  A layer's tensor is its list of token rows; a row is an opaque integer. A layer's file holds such a
  tensor, or is one a failed write truncated: it is there, and safetensors refuses to parse it. A
  directory holds its layer files, and the temporary file of a metadata write that did not complete
  (\<open>dd_temp\<close>).
  \<open>dd_record\<close> is the donor's \<open>metadata.json\<close>: absent, or its \<open>token_count\<close> when that is an integer. (The file is
  replaced atomically, so a reader never meets half a JSON object.)
\<close>

type_synonym kv_rows = "int list"

datatype layer_file = Rows kv_rows | Truncated

record donor_dir =
  dd_record :: "int option option"
  dd_layers :: "(string, layer_file) odict"
  dd_temp :: bool

type_synonym volume = "string \<rightharpoonup> donor_dir"

record mem_entry =
  me_request_id :: string
  me_token_count :: int
  me_layers :: "string \<rightharpoonup> kv_rows"

record storage_st = text_st +
  memory_store :: "(string, mem_entry) odict"

definition storage_key :: "'p env \<Rightarrow> string \<Rightarrow> string \<Rightarrow> string" where
  "storage_key e donor_id ns = e_sha256_hex e (ns @ '':'' @ donor_id)"

definition has_stored_donor :: "'p env \<Rightarrow> volume \<Rightarrow> string \<Rightarrow> string \<Rightarrow> bool" where
  "has_stored_donor e vol donor_id ns =
     (case vol (storage_key e donor_id ns) of None \<Rightarrow> False | Some d \<Rightarrow> dd_record d \<noteq> None)"

definition stored_donor_token_count ::
  "'p env \<Rightarrow> volume \<Rightarrow> string \<Rightarrow> string \<Rightarrow> 'z storage_st_scheme \<Rightarrow> int \<times> 'z storage_st_scheme" where
  "stored_donor_token_count e vol donor_id ns s =
     (let k = storage_key e donor_id ns
      in case od_get (memory_store s) k of
           Some entry \<Rightarrow> (me_token_count entry, s\<lparr>memory_store := od_move_to_end (memory_store s) k\<rparr>)
         | None \<Rightarrow>
             (case vol k of
                None \<Rightarrow> (0, s)
              | Some d \<Rightarrow> (case dd_record d of Some (Some n) \<Rightarrow> (n, s) | _ \<Rightarrow> (0, s))))"

definition materialization_enabled :: "'p env \<Rightarrow> bool" where
  "materialization_enabled e =
     (if e_compat_decline e \<noteq> None then False
      else c_mode (e_config e) \<in> {EXACT_PREFIX, REQUEST_ONLY_EXPERIMENTAL, SEGMENTED_EXPERIMENTAL,
                                  SEMANTIC_SPAN_EXPERIMENTAL})"

subsection \<open>Reading a length\<close>

text \<open>What the length of a donor is, apart from the use it records.\<close>

definition donor_length :: "'p env \<Rightarrow> volume \<Rightarrow> 'z storage_st_scheme \<Rightarrow> string \<Rightarrow> string \<Rightarrow> int" where
  "donor_length e vol s donor_id ns = fst (stored_donor_token_count e vol donor_id ns s)"

lemma stored_count_state:
  assumes "stored_donor_token_count e vol d ns s = (n, s')"
  shows "s' = s\<lparr>memory_store := memory_store s'\<rparr>"
    and "od_get (memory_store s') = od_get (memory_store s)"
    and "set (od_keys (memory_store s')) = set (od_keys (memory_store s))"
    and "od_wf (memory_store s) \<Longrightarrow> od_wf (memory_store s')"
  using assms
  by (auto simp: stored_donor_token_count_def Let_def od_keys_move split: option.splits)

text \<open>
  Reading a donor's length never changes what any donor's length is, and a donor read twice in
  a row reads the same: the touch only reorders the store for eviction.
\<close>

theorem length_read_is_stable:
  "donor_length e vol (snd (stored_donor_token_count e vol d ns s)) d' ns' = donor_length e vol s d' ns'"
proof -
  obtain n s' where r: "stored_donor_token_count e vol d ns s = (n, s')" by fastforce
  show ?thesis
    using stored_count_state(2) [OF r]
    by (simp add: r donor_length_def stored_donor_token_count_def Let_def split: option.splits)
qed

text \<open>
  A read is a use: after it, every other donor in the memory store is evicted before the one
  that was read.
\<close>

theorem read_donor_is_evicted_last:
  assumes "od_wf (memory_store s)" and "od_get (memory_store s) (storage_key e d ns) \<noteq> None"
  shows "\<exists>older. od_keys (memory_store (snd (stored_donor_token_count e vol d ns s)))
                  = older @ [storage_key e d ns]
      \<and> set older = set (od_keys (memory_store s)) - {storage_key e d ns}"
  using assms od_keys_pop [of "memory_store s" "storage_key e d ns"]
  by (auto simp: stored_donor_token_count_def Let_def od_move_to_end_def od_get_def od_keys_def)

definition init_storage :: "(string, mem_entry) odict \<Rightarrow> storage_st" where
  "init_storage m = \<lparr>stats = (\<lambda>_. 0), audit_log = [], request_seq = Map.empty,
     request_event_seq = Map.empty, next_request_seq = 0, prompt_tokenizer = None,
     prompt_tokenizer_failed = False, memory_store = m\<rparr>"

definition two_entries :: "(string, mem_entry) odict" where
  "two_entries =
     [(''n:a'', \<lparr>me_request_id = ''a'', me_token_count = 3, me_layers = Map.empty\<rparr>),
      (''n:b'', \<lparr>me_request_id = ''b'', me_token_count = 5, me_layers = Map.empty\<rparr>)]"

theorem read_donor_is_evicted_last_witness:
  "\<exists>older. od_keys (memory_store (snd (stored_donor_token_count
       (sample_env silent_provider default_config) Map.empty ''a'' ''n'' (init_storage two_entries))))
     = older @ [''n:a'']"
proof -
  have k: "storage_key (sample_env silent_provider default_config) ''a'' ''n'' = ''n:a''"
    by (simp add: storage_key_def sample_env_def)
  have wf: "od_wf (memory_store (init_storage two_entries))"
    by (simp add: init_storage_def two_entries_def od_wf_def od_keys_def)
  have here: "od_get (memory_store (init_storage two_entries))
      (storage_key (sample_env silent_provider default_config) ''a'' ''n'') \<noteq> None"
    unfolding k by (simp add: init_storage_def two_entries_def od_get_def)
  show ?thesis
    using read_donor_is_evicted_last [OF wf here, where vol = Map.empty] unfolding k
    by (elim exE conjE) (rule exI)
qed

end
