(* ===== verification/Provider.thy ===== *)
theory Provider
  imports Storage
begin

text \<open>
  \<open>provider.py\<close>: the ranking of scored donors, the deterministic \<open>LocalSemanticProvider\<close>, and the
  contract the connector relies on a provider for, stated as a locale and interpreted on the local
  provider. A similarity is the exact quotient; \<open>repr\<close> is the text of a float.
\<close>

subsection \<open>Ranking\<close>

text \<open>Python's sort is stable also with \<open>reverse=True\<close>: equal scores keep their order.\<close>

definition rank_candidates ::
  "(rat \<times> donor_registration) list \<Rightarrow> int \<Rightarrow> (rat \<times> donor_registration) list" where
  "rank_candidates scored top_k =
     (let usable = sort_key (\<lambda>c. - fst c) (filter (\<lambda>c. dr_has_captured_kv (snd c)) scored)
      in if 0 < top_k then take (nat top_k) usable else usable)"

subsection \<open>The local provider\<close>

record local_provider =
  lpv_min_similarity :: rat
  lpv_max_donors :: int
  lpv_lookup_top_k :: int
  lpv_donors :: "(string, donor_registration) odict"

definition new_local_provider :: "config \<Rightarrow> local_provider" where
  "new_local_provider c =
     \<lparr>lpv_min_similarity = c_min_similarity c, lpv_max_donors = c_max_donors c,
      lpv_lookup_top_k = c_lookup_top_k c, lpv_donors = []\<rparr>"

definition jaccard :: "int list \<Rightarrow> int list \<Rightarrow> rat" where
  "jaccard xs ys =
     of_nat (card (set xs \<inter> set ys)) / of_nat (card (set xs \<union> set ys))"

definition scored_donors ::
  "local_provider \<Rightarrow> lookup_request \<Rightarrow> (rat \<times> donor_registration) list" where
  "scored_donors p q =
     (if lq_token_ids q = [] then []
      else filter (\<lambda>c. lpv_min_similarity p \<le> fst c)
        (map (\<lambda>d. (jaccard (lq_token_ids q) (dr_token_ids d), d))
          (filter (\<lambda>d. dr_namespace d = lq_namespace q \<and> dr_model_id d = lq_model_id q
                        \<and> dr_token_ids d \<noteq> [])
            (map snd (lpv_donors p)))))"

definition local_lookup ::
  "(rat \<Rightarrow> string) \<Rightarrow> local_provider \<Rightarrow> lookup_request \<Rightarrow> lookup_result option" where
  "local_lookup repr p q =
     (case rank_candidates (scored_donors p q) (lpv_lookup_top_k p) of
        [] \<Rightarrow> None
      | (similarity, donor) # _ \<Rightarrow>
          (let exact = (dr_token_ids donor = lq_token_ids q)
           in Some \<lparr>lr_donor_id = dr_donor_id donor, lr_similarity = similarity,
                lr_reusable_token_count = (if exact then len (lq_token_ids q) else 0),
                lr_kind = (if exact then K_EXACT_PREFIX else K_DISCOVERY_ONLY),
                lr_donor_token_ids = Some (dr_token_ids donor),
                lr_block_refs = None, lr_segments = None,
                lr_quality_signals = [(''token_jaccard'', PFloat similarity (repr similarity)),
                                      (''exact_tokens'', PBool exact)],
                lr_metadata = [],
                lr_reason = Some (if exact then ''local_exact'' else ''local_semantic_discovery'')\<rparr>))"

text \<open>\<open>while len(self._donors) >= self._max_donors: self._donors.popitem(last=False)\<close>.\<close>

function evict_donors :: "int \<Rightarrow> ('k, 'v) odict \<Rightarrow> py_error + ('k, 'v) odict" where
  "evict_donors m d =
     (if m \<le> len d then
        (case od_popitem_first d of Inl err \<Rightarrow> Inl err | Inr (_, d') \<Rightarrow> evict_donors m d')
      else Inr d)"
  by pat_completeness auto
termination
  by (relation "measure (\<lambda>(m, d). length d)") (auto elim: od_popitem_first.elims)

declare evict_donors.simps [simp del]

definition local_register ::
  "local_provider \<Rightarrow> donor_registration \<Rightarrow> py_error + local_provider" where
  "local_register p d =
     (let ds = lpv_donors p; k = dr_donor_id d
      in if od_get ds k \<noteq> None
         then Inr (p\<lparr>lpv_donors := od_set (od_move_to_end ds k) k d\<rparr>)
         else case evict_donors (lpv_max_donors p) ds of
                Inl err \<Rightarrow> Inl err
              | Inr ds' \<Rightarrow> Inr (p\<lparr>lpv_donors := od_set ds' k d\<rparr>))"

definition local_clear :: "local_provider \<Rightarrow> local_provider" where
  "local_clear p = p\<lparr>lpv_donors := []\<rparr>"

text \<open>The loop that evicts raises only after it has emptied the dictionary.\<close>

definition local_ops :: "(rat \<Rightarrow> string) \<Rightarrow> local_provider provider_ops" where
  "local_ops repr =
     \<lparr>po_lookup = (\<lambda>p q. (Inr (local_lookup repr p q), p)),
      po_register_donor = (\<lambda>p d. case local_register p d of
          Inl _ \<Rightarrow> (Inl ''KeyError'', local_clear p) | Inr p' \<Rightarrow> (Inr (), p')),
      po_clear_donors = local_clear,
      po_span_run_possible = None, po_last_lookup_diagnostics = None\<rparr>"

subsection \<open>Ranking: lemmas\<close>

lemma rank_candidates_mem:
  "c \<in> set (rank_candidates scored k) \<Longrightarrow> c \<in> set scored \<and> dr_has_captured_kv (snd c)"
  by (auto simp: rank_candidates_def Let_def split: if_splits dest: in_set_takeD)

lemma sort_key_hd_min:
  "x \<in> set xs \<Longrightarrow> f (hd (sort_key f xs)) \<le> f x"
proof -
  assume x: "x \<in> set xs"
  obtain y ys where s: "sort_key f xs = y # ys"
    using x by (cases "sort_key f xs") (auto dest: arg_cong [where f = set])
  have "sorted (map f (y # ys))" using sorted_sort_key [of f xs] by (simp add: s)
  moreover have "x = y \<or> x \<in> set ys" using x by (metis s set_ConsD set_sort)
  ultimately show ?thesis using s by (auto)
qed

lemma rank_candidates_hd:
  assumes "c \<in> set scored" and "dr_has_captured_kv (snd c)"
  shows "\<exists>x y rest. rank_candidates scored k = (x, y) # rest \<and> fst c \<le> x"
proof -
  let ?u = "filter (\<lambda>c. dr_has_captured_kv (snd c)) scored"
  let ?s = "sort_key (\<lambda>c. - fst c) ?u"
  have c: "c \<in> set ?u" using assms by simp
  then have ne: "?s \<noteq> []" by (metis empty_iff list.set(1) set_sort)
  have hd: "fst c \<le> fst (hd ?s)" using sort_key_hd_min [OF c, of "\<lambda>c. - fst c"] by simp
  obtain x y rest where s: "?s = (x, y) # rest" using ne by (metis list.exhaust surj_pair)
  have "fst c \<le> x" using hd by (simp add: s)
  moreover have "\<exists>rest'. rank_candidates scored k = (x, y) # rest'"
    by (cases "nat k") (auto simp: rank_candidates_def Let_def s)
  ultimately show ?thesis by blast
qed

subsection \<open>Eviction: lemmas\<close>

lemma evict_donors_ok:
  "0 < m \<Longrightarrow> \<exists>n. evict_donors m d = Inr (drop n d) \<and> len (drop n d) < m"
proof (induction d)
  case Nil
  then show ?case by (subst evict_donors.simps) (auto intro: exI [of _ 0])
next
  case (Cons e d)
  then obtain n where n: "evict_donors m d = Inr (drop n d)" "len (drop n d) < m" by blast
  show ?case
  proof (cases "m \<le> len (e # d)")
    case True
    then have "evict_donors m (e # d) = evict_donors m d" by (subst evict_donors.simps) simp
    then show ?thesis using n by (intro exI [of _ "Suc n"]) simp
  next
    case False
    then show ?thesis by (subst evict_donors.simps) (auto intro: exI [of _ 0])
  qed
qed

lemma evict_donors_error: "m \<le> 0 \<Longrightarrow> evict_donors m d = Inl KeyError"
  by (induction d) (subst evict_donors.simps, simp)+

lemma od_wf_drop: "od_wf d \<Longrightarrow> od_wf (drop n d)"
  by (simp add: od_wf_def od_keys_def drop_map [symmetric] distinct_drop)

subsection \<open>The provider contract\<close>

datatype provider_call =
    Call_lookup lookup_request
  | Call_register donor_registration
  | Call_clear

fun provider_step :: "'p provider_ops \<Rightarrow> provider_call \<Rightarrow> 'p \<Rightarrow> 'p" where
  "provider_step ops (Call_lookup q) p = snd (po_lookup ops p q)"
| "provider_step ops (Call_register d) p = snd (po_register_donor ops p d)"
| "provider_step ops Call_clear p = po_clear_donors ops p"

definition provider_run :: "'p provider_ops \<Rightarrow> provider_call list \<Rightarrow> 'p \<Rightarrow> 'p" where
  "provider_run ops calls p = fold (provider_step ops) calls p"

text \<open>The donors a history registered and has not cleared since.\<close>

fun live_donors :: "donor_registration set \<Rightarrow> provider_call list \<Rightarrow> donor_registration set" where
  "live_donors ds [] = ds"
| "live_donors ds (Call_lookup q # cs) = live_donors ds cs"
| "live_donors ds (Call_register d # cs) = live_donors (insert d ds) cs"
| "live_donors ds (Call_clear # cs) = live_donors {} cs"

text \<open>
  What the connector relies on: a lookup names a donor the provider was given, in the namespace and
  for the model of the request, that holds captured KV, and promises no more tokens than the
  prompt has; the provider invents no donor.
\<close>

locale kv_provider =
  fixes ops :: "'p provider_ops" and donors :: "'p \<Rightarrow> donor_registration set"
    and answers :: "lookup_request \<Rightarrow> donor_registration \<Rightarrow> lookup_result \<Rightarrow> bool"
  assumes lookup_names: "fst (po_lookup ops p q) = Inr (Some r) \<Longrightarrow> \<exists>d\<in>donors p. answers q d r"
    and lookup_keeps: "donors (snd (po_lookup ops p q)) \<subseteq> donors p"
    and register_adds: "donors (snd (po_register_donor ops p d)) \<subseteq> insert d (donors p)"
    and clear_empties: "donors (po_clear_donors ops p) = {}"
    and answers_scope: "answers q d r \<Longrightarrow> dr_namespace d = lq_namespace q \<and> dr_model_id d = lq_model_id q
        \<and> dr_has_captured_kv d \<and> lr_donor_id r = dr_donor_id d"
begin

lemma run_donors: "donors p \<subseteq> ds \<Longrightarrow> donors (provider_run ops calls p) \<subseteq> live_donors ds calls"
proof (induction calls arbitrary: p ds)
  case Nil
  then show ?case by (simp add: provider_run_def)
next
  case (Cons c calls)
  have "donors (provider_step ops c p) \<subseteq> live_donors ds [c]"
  proof (cases c)
    case (Call_lookup q)
    then show ?thesis using Cons.prems lookup_keeps by force
  next
    case (Call_register d)
    then show ?thesis using Cons.prems register_adds by fastforce
  next
    case Call_clear
    then show ?thesis by (simp add: clear_empties)
  qed
  moreover have "live_donors ds (c # calls) = live_donors (live_donors ds [c]) calls"
    by (cases c) simp_all
  ultimately show ?case
    using Cons.IH [of "provider_step ops c p" "live_donors ds [c]"] by (simp add: provider_run_def)
qed

lemma lookup_from_history:
  assumes "donors p = {}" and "fst (po_lookup ops (provider_run ops calls p) q) = Inr (Some r)"
  shows "\<exists>d\<in>live_donors {} calls. answers q d r \<and> dr_namespace d = lq_namespace q
           \<and> dr_model_id d = lq_model_id q \<and> dr_has_captured_kv d \<and> lr_donor_id r = dr_donor_id d"
proof -
  obtain d where d: "d \<in> donors (provider_run ops calls p)" "answers q d r"
    using lookup_names [OF assms(2)] by blast
  have "d \<in> live_donors {} calls" using run_donors [of p "{}" calls] d(1) assms(1) by auto
  then show ?thesis using d(2) answers_scope [OF d(2)] by blast
qed

end

subsection \<open>The local provider keeps the contract\<close>

definition local_donors :: "local_provider \<Rightarrow> donor_registration set" where
  "local_donors p = snd ` set (lpv_donors p)"

definition local_answers :: "lookup_request \<Rightarrow> donor_registration \<Rightarrow> lookup_result \<Rightarrow> bool" where
  "local_answers q d r \<longleftrightarrow>
     dr_namespace d = lq_namespace q \<and> dr_model_id d = lq_model_id q \<and> dr_has_captured_kv d
     \<and> lr_donor_id r = dr_donor_id d
     \<and> lr_similarity r = jaccard (lq_token_ids q) (dr_token_ids d)
     \<and> (lr_kind r = K_EXACT_PREFIX \<longleftrightarrow> dr_token_ids d = lq_token_ids q)
     \<and> lr_reusable_token_count r = (if dr_token_ids d = lq_token_ids q then len (lq_token_ids q) else 0)"

lemma scored_donors_mem:
  "c \<in> set (scored_donors p q) \<longleftrightarrow>
     lq_token_ids q \<noteq> [] \<and> snd c \<in> local_donors p \<and> dr_namespace (snd c) = lq_namespace q
     \<and> dr_model_id (snd c) = lq_model_id q \<and> dr_token_ids (snd c) \<noteq> []
     \<and> fst c = jaccard (lq_token_ids q) (dr_token_ids (snd c)) \<and> lpv_min_similarity p \<le> fst c"
  by (cases c) (auto simp: scored_donors_def local_donors_def image_iff)

lemma local_lookup_answers:
  assumes "local_lookup repr p q = Some r"
  shows "\<exists>d\<in>local_donors p. local_answers q d r \<and> lpv_min_similarity p \<le> lr_similarity r"
proof -
  obtain x d rest where top: "rank_candidates (scored_donors p q) (lpv_lookup_top_k p) = (x, d) # rest"
    using assms by (auto simp: local_lookup_def split: list.splits)
  then have "(x, d) \<in> set (rank_candidates (scored_donors p q) (lpv_lookup_top_k p))" by simp
  from rank_candidates_mem [OF this] show ?thesis
    using assms top by (auto simp: local_lookup_def Let_def local_answers_def scored_donors_mem)
qed

lemma od_set_values: "snd ` set (od_set d k v) \<subseteq> insert v (snd ` set d)"
  by (induction d k v rule: od_set.induct) auto

lemma od_move_values: "snd ` set (od_move_to_end d k) \<subseteq> snd ` set d"
  using map_of_SomeD [of d k]
  by (force simp: od_move_to_end_def od_pop_def split: option.splits)

lemma evict_donors_suffix: "evict_donors m d = Inr d' \<Longrightarrow> \<exists>n. d' = drop n d \<and> len d' < m"
  using evict_donors_ok [of m d] evict_donors_error [of m d] by (cases "0 < m") auto

lemma local_register_donors:
  "local_register p d = Inr p' \<Longrightarrow> local_donors p' \<subseteq> insert d (local_donors p)"
proof -
  assume r: "local_register p d = Inr p'"
  obtain ds' where p': "p' = p\<lparr>lpv_donors := od_set ds' (dr_donor_id d) d\<rparr>"
    and ds': "snd ` set ds' \<subseteq> snd ` set (lpv_donors p)"
  proof (cases "od_get (lpv_donors p) (dr_donor_id d) \<noteq> None")
    case True
    then show thesis
      using r by (intro that [OF _ od_move_values]) (auto simp: local_register_def Let_def)
  next
    case False
    then obtain ds' where e: "evict_donors (lpv_max_donors p) (lpv_donors p) = Inr ds'"
      and p': "p' = p\<lparr>lpv_donors := od_set ds' (dr_donor_id d) d\<rparr>"
      using r by (auto simp: local_register_def Let_def split: sum.splits)
    obtain n where "ds' = drop n (lpv_donors p)" using evict_donors_suffix [OF e] by blast
    then have "snd ` set ds' \<subseteq> snd ` set (lpv_donors p)" by (metis image_mono set_drop_subset)
    then show thesis using that p' by blast
  qed
  show ?thesis
    using od_set_values [of ds' "dr_donor_id d" d] ds' by (auto simp: p' local_donors_def)
qed

interpretation lp: kv_provider "local_ops repr" local_donors local_answers for repr
proof
  show "\<exists>d\<in>local_donors p. local_answers q d r"
    if "fst (po_lookup (local_ops repr) p q) = Inr (Some r)" for p q r
    using that local_lookup_answers [of repr p q r] by (auto simp: local_ops_def)
  show "local_donors (snd (po_register_donor (local_ops repr) p d)) \<subseteq> insert d (local_donors p)" for p d
    using local_register_donors [of p d]
    by (auto simp: local_ops_def local_clear_def local_donors_def split: sum.splits)
qed (auto simp: local_ops_def local_clear_def local_donors_def local_answers_def)

subsection \<open>Properties\<close>

text \<open>
  C19. The local provider answers from its contract: over any history of lookups, registrations and
  clears from an empty provider, a match names a donor that was registered and not cleared since,
  in the request's own namespace and for its model, that holds captured KV; it is an exact-prefix
  match with the whole prompt reusable exactly when the donor's tokens are the prompt's, and
  otherwise supplies nothing.
\<close>

theorem local_lookup_sound:
  assumes "lpv_donors p = []"
    and "local_lookup repr (provider_run (local_ops repr) calls p) q = Some r"
  shows "\<exists>d\<in>live_donors {} calls. dr_namespace d = lq_namespace q \<and> dr_model_id d = lq_model_id q
     \<and> dr_has_captured_kv d \<and> lr_donor_id r = dr_donor_id d
     \<and> (lr_kind r = K_EXACT_PREFIX \<longleftrightarrow> dr_token_ids d = lq_token_ids q)
     \<and> lr_reusable_token_count r = (if dr_token_ids d = lq_token_ids q then len (lq_token_ids q) else 0)"
proof -
  have "local_donors p = {}" using assms(1) by (simp add: local_donors_def)
  moreover have "fst (po_lookup (local_ops repr) (provider_run (local_ops repr) calls p) q) = Inr (Some r)"
    using assms(2) by (simp add: local_ops_def)
  ultimately show ?thesis
    using lp.lookup_from_history [of p repr calls q r] unfolding local_answers_def by blast
qed

text \<open>
  Ranking is best-first over usable donors: whenever some registered donor of the request's
  namespace and model holds captured KV and scores at least the floor, the lookup returns a match,
  and its similarity is at least that donor's, however many donors without KV score higher and
  however small the top-k cut is.
\<close>

theorem local_lookup_best:
  assumes "d \<in> local_donors p" and "dr_namespace d = lq_namespace q" and "dr_model_id d = lq_model_id q"
    and "dr_has_captured_kv d" and "dr_token_ids d \<noteq> []" and "lq_token_ids q \<noteq> []"
    and "lpv_min_similarity p \<le> jaccard (lq_token_ids q) (dr_token_ids d)"
  shows "\<exists>r. local_lookup repr p q = Some r \<and> jaccard (lq_token_ids q) (dr_token_ids d) \<le> lr_similarity r"
proof -
  have "(jaccard (lq_token_ids q) (dr_token_ids d), d) \<in> set (scored_donors p q)"
    using assms by (simp add: scored_donors_mem)
  from rank_candidates_hd [OF this] assms(4)
  obtain x y rest where "rank_candidates (scored_donors p q) (lpv_lookup_top_k p) = (x, y) # rest"
    and "jaccard (lq_token_ids q) (dr_token_ids d) \<le> x" by fastforce
  then show ?thesis by (simp add: local_lookup_def Let_def)
qed

text \<open>
  Registration under the cap: with a positive \<open>max_donors\<close> it never raises, the registered
  donor is in the store afterwards and is the last to be evicted, and the store stays within the
  cap with distinct keys; with \<open>max_donors <= 0\<close> registering a new donor raises KeyError.
\<close>

theorem local_register_bounded:
  assumes "od_wf (lpv_donors p)" and "len (lpv_donors p) \<le> lpv_max_donors p"
  shows "(0 < lpv_max_donors p \<longrightarrow>
      (\<exists>p' older. local_register p d = Inr p' \<and> lpv_donors p' = older @ [(dr_donor_id d, d)]
         \<and> od_wf (lpv_donors p') \<and> len (lpv_donors p') \<le> lpv_max_donors p
         \<and> lpv_max_donors p' = lpv_max_donors p))
    \<and> (lpv_max_donors p \<le> 0 \<longrightarrow> local_register p d = Inl KeyError)"
proof (intro conjI impI)
  let ?k = "dr_donor_id d" and ?ds = "lpv_donors p"
  have last: "od_set (xs @ [(?k, v)]) ?k d = xs @ [(?k, d)]" if "?k \<notin> fst ` set xs" for xs v
    using that by (induction xs) auto
  have new: "od_set xs ?k d = xs @ [(?k, d)]" if "?k \<notin> fst ` set xs" for xs
    using that by (induction xs) auto
  assume pos: "0 < lpv_max_donors p"
  show "\<exists>p' older. local_register p d = Inr p' \<and> lpv_donors p' = older @ [(dr_donor_id d, d)]
         \<and> od_wf (lpv_donors p') \<and> len (lpv_donors p') \<le> lpv_max_donors p
         \<and> lpv_max_donors p' = lpv_max_donors p"
  proof (cases "od_get ?ds ?k")
    case (Some v)
    have pop: "?k \<notin> fst ` set (od_pop ?ds ?k)" by (auto simp: od_pop_def)
    have step: "od_set (od_move_to_end ?ds ?k) ?k d = od_pop ?ds ?k @ [(?k, d)]"
      using Some last [OF pop] by (simp add: od_move_to_end_def od_get_def)
    have "(?k, v) \<in> set ?ds" using od_get_in [OF Some] .
    then have "length (od_pop ?ds ?k) < length ?ds"
      unfolding od_pop_def by (intro length_filter_less) auto
    moreover have "od_wf (od_pop ?ds ?k @ [(?k, d)])"
      using step od_wf_set [OF od_wf_move [OF assms(1)], of ?k ?k d] by simp
    ultimately show ?thesis
      using Some assms(2) by (auto simp: local_register_def Let_def step)
  next
    case None
    obtain n where e: "evict_donors (lpv_max_donors p) ?ds = Inr (drop n ?ds)"
      and l: "len (drop n ?ds) < lpv_max_donors p"
      using evict_donors_ok [OF pos] by blast
    have "?k \<notin> fst ` set ?ds" using None by (simp add: od_get_None_iff od_keys_def)
    then have fresh: "?k \<notin> fst ` set (drop n ?ds)" using set_drop_subset [of n ?ds] by blast
    have "od_wf (drop n ?ds @ [(?k, d)])"
      using od_wf_set [OF od_wf_drop [OF assms(1)], of n ?k d] new [OF fresh] by simp
    then show ?thesis
      using None l by (auto simp: local_register_def Let_def e new [OF fresh])
  qed
next
  assume "lpv_max_donors p \<le> 0"
  moreover from this have "lpv_donors p = []" using assms(2) by (cases "lpv_donors p") auto
  ultimately show "local_register p d = Inl KeyError"
    using evict_donors_error [of "lpv_max_donors p" "lpv_donors p"]
    by (simp add: local_register_def Let_def od_get_def)
qed

subsection \<open>Witnesses\<close>

definition sample_donor :: "string \<Rightarrow> int list \<Rightarrow> donor_registration" where
  "sample_donor i ts =
     \<lparr>dr_donor_id = i, dr_token_ids = ts, dr_prompt_text = None, dr_model_id = ''m'',
      dr_namespace = ''n'', dr_cache_salt = None, dr_has_captured_kv = True, dr_metadata = []\<rparr>"

definition sample_query :: "int list \<Rightarrow> lookup_request" where
  "sample_query ts =
     \<lparr>lq_request_id = ''q'', lq_token_ids = ts, lq_prompt_text = None, lq_model_id = ''m'',
      lq_namespace = ''n'', lq_cache_salt = None, lq_already_computed_tokens = 0, lq_metadata = []\<rparr>"

definition sample_provider :: "int \<Rightarrow> (string, donor_registration) odict \<Rightarrow> local_provider" where
  "sample_provider m ds =
     \<lparr>lpv_min_similarity = 1 / 2, lpv_max_donors = m, lpv_lookup_top_k = 1, lpv_donors = ds\<rparr>"

theorem local_lookup_best_witness:
  "\<exists>r. local_lookup (\<lambda>_. []) (sample_provider 2 [(''a'', sample_donor ''a'' [1, 2, 3])])
         (sample_query [1, 2, 3]) = Some r \<and> jaccard [1, 2, 3] [1, 2, 3] \<le> lr_similarity r"
proof -
  let ?p = "sample_provider 2 [(''a'', sample_donor ''a'' [1, 2, 3])]"
  have "sample_donor ''a'' [1, 2, 3] \<in> local_donors ?p"
    by (simp add: local_donors_def sample_provider_def)
  from local_lookup_best [OF this, of "sample_query [1, 2, 3]"] show ?thesis
    by (simp add: sample_donor_def sample_query_def sample_provider_def jaccard_def)
qed

theorem local_lookup_sound_witness:
  "\<exists>r. local_lookup (\<lambda>_. []) (provider_run (local_ops (\<lambda>_. []))
         [Call_register (sample_donor ''a'' [1, 2])] (sample_provider 2 [])) (sample_query [1, 2]) = Some r
     \<and> lr_donor_id r = ''a'' \<and> lr_reusable_token_count r = 2"
proof -
  let ?p = "provider_run (local_ops (\<lambda>_. [])) [Call_register (sample_donor ''a'' [1, 2])]
              (sample_provider 2 [])"
  have "local_lookup (\<lambda>_. []) ?p (sample_query [1, 2]) \<noteq> None" by code_simp
  then obtain r where r: "local_lookup (\<lambda>_. []) ?p (sample_query [1, 2]) = Some r" by blast
  have "lpv_donors (sample_provider 2 []) = []" by (simp add: sample_provider_def)
  from local_lookup_sound [OF this r] show ?thesis
    using r by (auto simp: sample_donor_def sample_query_def)
qed

theorem local_register_bounded_witness:
  "\<exists>p'. local_register (sample_provider 1 [(''a'', sample_donor ''a'' [1])]) (sample_donor ''b'' [2]) = Inr p'
     \<and> len (lpv_donors p') \<le> 1"
  using local_register_bounded [of "sample_provider 1 [(''a'', sample_donor ''a'' [1])]" "sample_donor ''b'' [2]"]
  by (auto simp: sample_provider_def od_wf_def od_keys_def)

end
