(* ===== verification/MatchState.thy ===== *)
theory MatchState
  imports Provider
begin

text \<open>
  What the match hook remembers about a request, and the operations on it: the attempt counter
  (\<open>_record_attempt\<close>), the memoized load plan (\<open>_record_load_plan\<close>), the memoized lookup, the
  donor lengths of one result, and the reading of the provider's diagnostics.
\<close>

record load_plan =
  pn_donor_id :: string
  pn_token_count :: int
  pn_kind :: mat_kind
  pn_namespace :: string
  pn_boundary :: int
  pn_donor_start :: "int option"
  pn_target_start :: "int option"
  pn_pieces :: "load_piece list"

record 'p match_st = storage_st +
  load_plans :: "string \<rightharpoonup> load_plan"
  lookup_cache :: "string \<rightharpoonup> lookup_result option"
  attempts :: "string \<rightharpoonup> nat"
  no_safe_plan_reasons :: "string \<rightharpoonup> no_plan_reason set"
  stage_requests :: "string set"
  segment_namespaces :: "string \<rightharpoonup> string"
  provider :: "'p option"

definition record_attempt :: "string \<Rightarrow> ('p, 'z) match_st_scheme \<Rightarrow> nat \<times> ('p, 'z) match_st_scheme" where
  "record_attempt rid s =
     (let attempt = (case attempts s rid of None \<Rightarrow> 0 | Some n \<Rightarrow> n)
      in (attempt, s\<lparr>attempts := (attempts s)(rid \<mapsto> attempt + 1)\<rparr>))"

definition record_load_plan ::
  "string \<Rightarrow> load_plan \<Rightarrow> ('p, 'z) match_st_scheme \<Rightarrow> bool \<times> ('p, 'z) match_st_scheme" where
  "record_load_plan rid plan s =
     (let previous = load_plans s rid;
          s1 = s\<lparr>load_plans := (load_plans s)(rid \<mapsto> plan)\<rparr>
      in case previous of
           None \<Rightarrow> (True, bump (SP (Loads_advertised_total (pn_kind plan))) s1)
         | Some old \<Rightarrow> if old \<noteq> plan then (True, bump (SP Load_plan_revised_per_attempt) s1)
                       else (False, s1))"

text \<open>
  \<open>_json_scalar\<close> on values that are neither numpy scalars nor enum members, and the miss payload.
  A probe that raises or answers no dictionary adds nothing.
\<close>

definition json_scalar :: "pyval \<Rightarrow> pyval" where
  "json_scalar v =
     (case v of PSeq t _ \<Rightarrow> PStr t | PMap t _ \<Rightarrow> PStr t | PObj t _ \<Rightarrow> PStr t | _ \<Rightarrow> v)"

definition provider_miss_diagnostics ::
  "'p env \<Rightarrow> ('p, 'z) match_st_scheme \<Rightarrow> (string \<times> pyval) list" where
  "provider_miss_diagnostics e s =
     (case (po_last_lookup_diagnostics (e_provider e), provider s) of
        (Some probe, Some p) \<Rightarrow>
          (case probe p of None \<Rightarrow> []
           | Some d \<Rightarrow> map (\<lambda>(k, v). (''miss_'' @ k, json_scalar v)) d)
      | _ \<Rightarrow> [])"

text \<open>
  The donor lengths a multi-donor result is trimmed to, read once per donor. The source builds the
  dictionary from a set, or lazily in segment order; both read each donor once, and the order only
  decides in which order the memory store is touched. It is the order of first appearance here.
\<close>

fun stored_counts ::
  "'p env \<Rightarrow> volume \<Rightarrow> string \<Rightarrow> string list \<Rightarrow> 'z storage_st_scheme
     \<Rightarrow> (string \<Rightarrow> int) \<times> 'z storage_st_scheme" where
  "stored_counts e vol ns [] s = ((\<lambda>_. 0), s)"
| "stored_counts e vol ns (d # ds) s =
     (let (n, s1) = stored_donor_token_count e vol d ns s;
          (f, s2) = stored_counts e vol ns ds s1
      in (f(d := n), s2))"

definition result_donors :: "lookup_result \<Rightarrow> string list" where
  "result_donors r = remdups (map sg_donor_id (opt_list (lr_segments r)))"

text \<open>The segments of a result as runs, each cut to what its donor has captured.\<close>

fun captured_runs :: "(string \<Rightarrow> int) \<Rightarrow> segment list \<Rightarrow> run list" where
  "captured_runs stored [] = []"
| "captured_runs stored (g # gs) =
     (let n = min (sg_token_count g) (stored (sg_donor_id g) - sg_donor_start g)
      in if 0 < n
         then \<lparr>run_donor_id = sg_donor_id g, run_donor_start = sg_donor_start g,
               run_target_start = sg_target_start g, run_length = n\<rparr> # captured_runs stored gs
         else captured_runs stored gs)"

definition load_piece_of :: "piece \<Rightarrow> load_piece" where
  "load_piece_of p =
     \<lparr>lp_donor_id = pc_donor_id p, lp_donor_start = pc_donor_start p,
      lp_target_start = pc_target_start p, lp_token_count = pc_token_count p\<rparr>"

definition donors_used :: "piece list \<Rightarrow> int" where
  "donors_used ps = int (card (pc_donor_id ` set ps))"

subsection \<open>Frames\<close>

lemma match_part_eq:
  assumes "storage_st.more s = storage_st.more t"
  shows "load_plans s = load_plans t" and "lookup_cache s = lookup_cache t"
    and "attempts s = attempts t" and "no_safe_plan_reasons s = no_safe_plan_reasons t"
    and "stage_requests s = stage_requests t" and "segment_namespaces s = segment_namespaces t"
    and "provider s = provider t" and "match_st.more s = match_st.more t"
  using assms by (cases s; cases t; simp)+

lemma text_more_eq:
  assumes "audit_st.more s = audit_st.more t"
  shows "prompt_tokenizer s = prompt_tokenizer t"
    and "prompt_tokenizer_failed s = prompt_tokenizer_failed t" and "text_st.more s = text_st.more t"
  using assms by (cases s; cases t; simp)+

lemma storage_more_eq:
  assumes "text_st.more s = text_st.more t"
  shows "memory_store s = memory_store t" and "storage_st.more s = storage_st.more t"
  using assms by (cases s; cases t; simp)+

lemmas audit_frame = text_more_eq [OF more_audit] storage_more_eq [OF text_more_eq(3) [OF more_audit]]
  match_part_eq [OF storage_more_eq(2) [OF text_more_eq(3) [OF more_audit]]]

lemmas bump_frame =
  text_more_eq [OF more_bump(1)] storage_more_eq [OF text_more_eq(3) [OF more_bump(1)]]
  match_part_eq [OF storage_more_eq(2) [OF text_more_eq(3) [OF more_bump(1)]]]
  text_more_eq [OF more_bump(2)] storage_more_eq [OF text_more_eq(3) [OF more_bump(2)]]
  match_part_eq [OF storage_more_eq(2) [OF text_more_eq(3) [OF more_bump(2)]]]

declare audit_frame [simp] bump_frame [simp]

end
