(* ===== verification/Gates.thy ===== *)
theory Gates
  imports MatchState
begin

text \<open>
  The first half of \<open>get_num_new_matched_tokens\<close>, up to and including the memoized lookup. Each
  early exit is one definition: \<open>Some s'\<close> when the exit is taken, with the state it leaves, and
  \<open>None\<close> when the hook goes on. \<open>early_exits\<close> runs them in the order of the code.
\<close>

subsection \<open>Early exits\<close>

definition exit_incompatible ::
  "'p env \<Rightarrow> string \<Rightarrow> nat \<Rightarrow> int list \<Rightarrow> ('p, 'z) match_st_scheme \<Rightarrow> ('p, 'z) match_st_scheme option" where
  "exit_incompatible e rid attempt token_ids s =
     (case e_compat_decline e of
        None \<Rightarrow> None
      | Some reason \<Rightarrow>
          Some (if attempt = 0
                then audit e (Some rid)
                       (EM (Lookup_skipped_incompatible_engine attempt (len token_ids) reason))
                       (bump (SM Skipped_incompatible_engine_config) s)
                else s))"

definition exit_short_prompt ::
  "'p env \<Rightarrow> string \<Rightarrow> nat \<Rightarrow> int list \<Rightarrow> ('p, 'z) match_st_scheme \<Rightarrow> ('p, 'z) match_st_scheme option" where
  "exit_short_prompt e rid attempt token_ids s =
     (if token_ids = [] \<or> len token_ids < c_min_prompt_tokens (e_config e)
      then Some (if attempt = 0
                 then audit e (Some rid)
                        (EM (Lookup_skipped_short_prompt attempt (len token_ids)
                               (c_min_prompt_tokens (e_config e))))
                        (bump (SM Skipped_short_prompt) s)
                 else s)
      else None)"

definition exit_exact_ratio ::
  "'p env \<Rightarrow> string \<Rightarrow> nat \<Rightarrow> int list \<Rightarrow> int \<Rightarrow> ('p, 'z) match_st_scheme
     \<Rightarrow> ('p, 'z) match_st_scheme option" where
  "exit_exact_ratio e rid attempt token_ids n s =
     (let exact_ratio = rat_of_int n / rat_of_int (max (len token_ids) 1);
          threshold = c_skip_when_exact_prefix_ratio_at_least (e_config e)
      in if threshold \<le> exact_ratio
         then Some (audit e (Some rid)
                 (EM (Lookup_skipped_exact_ratio attempt n (len token_ids) (round6 exact_ratio) threshold))
                 (bump (SM Skipped_exact_prefix_sufficient_per_attempt) s))
         else None)"

definition exit_below_min_boundary ::
  "'p env \<Rightarrow> string \<Rightarrow> nat \<Rightarrow> int list \<Rightarrow> int \<Rightarrow> ('p, 'z) match_st_scheme
     \<Rightarrow> ('p, 'z) match_st_scheme option" where
  "exit_below_min_boundary e rid attempt token_ids n s =
     (if n < c_min_boundary_tokens (e_config e)
      then Some (audit e (Some rid)
              (EM (Lookup_skipped_below_min_boundary attempt n (c_min_boundary_tokens (e_config e))
                     (e_block_size e) (len token_ids)))
              (bump (SM Skipped_below_min_boundary_per_attempt) s))
      else None)"

definition exit_remaining_below_min_span ::
  "'p env \<Rightarrow> string \<Rightarrow> nat \<Rightarrow> int list \<Rightarrow> int \<Rightarrow> ('p, 'z) match_st_scheme
     \<Rightarrow> ('p, 'z) match_st_scheme option" where
  "exit_remaining_below_min_span e rid attempt token_ids n s =
     (let remaining = max 0 (len token_ids - n)
      in if c_mode (e_config e) = SEMANTIC_SPAN_EXPERIMENTAL
            \<and> remaining < c_min_semantic_span (e_config e)
         then Some (audit e (Some rid)
                 (EM (Lookup_skipped_remaining_below_min_span attempt n (e_block_size e)
                        (len token_ids) remaining (c_min_semantic_span (e_config e))))
                 (bump (SM Skipped_remaining_below_min_span_per_attempt) s))
         else None)"

definition exit_no_provider ::
  "'p env \<Rightarrow> string \<Rightarrow> nat \<Rightarrow> ('p, 'z) match_st_scheme \<Rightarrow> ('p, 'z) match_st_scheme option" where
  "exit_no_provider e rid attempt s =
     (if provider s = None
      then Some (if attempt = 0
                 then audit e (Some rid)
                        (EM (Lookup_error_no_provider attempt (c_provider (e_config e))))
                        (bump (SM Skipped_no_provider) s)
                 else s)
      else None)"

definition note_stage ::
  "'p env \<Rightarrow> request \<Rightarrow> string \<Rightarrow> ('p, 'z) match_st_scheme \<Rightarrow> ('p, 'z) match_st_scheme" where
  "note_stage e r rid s =
     (if rid \<notin> stage_requests s \<and> hinted r (c_stage_hint_key (e_config e))
      then s\<lparr>stage_requests := insert rid (stage_requests s)\<rparr> else s)"

text \<open>\<open>_span_run_ruled_out\<close>: whether the hook stops here, and the state either way.\<close>

definition span_run_ruled_out ::
  "'p env \<Rightarrow> string \<Rightarrow> nat \<Rightarrow> int list \<Rightarrow> string \<Rightarrow> int \<Rightarrow> ('p, 'z) match_st_scheme
     \<Rightarrow> bool \<times> ('p, 'z) match_st_scheme" where
  "span_run_ruled_out e rid attempt token_ids ns n s =
     (if c_mode (e_config e) \<noteq> SEMANTIC_SPAN_EXPERIMENTAL \<or> \<not> c_lookup_precheck (e_config e)
      then (False, s)
      else case (po_span_run_possible (e_provider e), provider s) of
        (Some check, Some p) \<Rightarrow>
          (let block = max 1 (e_block_size e);
               usable_from = ((n + block - 1) div block) * block;
               length = c_min_semantic_span (e_config e)
           in case check p token_ids ns usable_from length of
                Inl _ \<Rightarrow> (False, bump (SM Lookup_precheck_errors_total) s)
              | Inr possible \<Rightarrow>
                  if possible \<noteq> Some False then (False, s)
                  else (True,
                    audit e (Some rid)
                      (EM (Lookup_skipped_no_shared_run attempt ns n usable_from length (len token_ids)))
                      (bump (SM Skipped_no_shared_run_per_attempt) s)))
      | _ \<Rightarrow> (False, s))"

subsection \<open>The memoized lookup\<close>

text \<open>
  \<open>Inl s'\<close> when the provider raised; otherwise the result, whether this was the first lookup, and
  the text the query was made from.
\<close>

record query_text =
  qt_offset_tokens :: int
  qt_chars :: int
  qt_fallback :: "slice_fallback option"

definition memoized_lookup ::
  "'p env \<Rightarrow> request \<Rightarrow> string \<Rightarrow> nat \<Rightarrow> int list \<Rightarrow> string \<Rightarrow> int \<Rightarrow> ('p, 'z) match_st_scheme
     \<Rightarrow> ('p, 'z) match_st_scheme
        + (lookup_result option \<times> bool \<times> query_text \<times> ('p, 'z) match_st_scheme)" where
  "memoized_lookup e r rid attempt token_ids ns n s =
     (case lookup_cache s rid of
        Some result \<Rightarrow>
          Inr (result, False, \<lparr>qt_offset_tokens = 0, qt_chars = 0, qt_fallback = None\<rparr>, s)
      | None \<Rightarrow>
          (let ((text, offset, chars, fallback), s1) =
                 boundary_sliced_text e r token_ids n Query_text s;
               query = \<lparr>lq_request_id = rid, lq_token_ids = token_ids, lq_prompt_text = text,
                        lq_model_id = model_id_from_config e, lq_namespace = ns,
                        lq_cache_salt = cache_salt_for_request r,
                        lq_already_computed_tokens = n, lq_metadata = []\<rparr>;
               failed = (\<lambda>error_type s2.
                 Inl (audit e (Some rid)
                        (EM (Lookup_error_provider_exception attempt ns
                               (c_provider (e_config e)) error_type))
                        (bump (SM Provider_errors_total) s2)))
           in case provider s1 of
                None \<Rightarrow> failed ''AttributeError'' s1
              | Some p \<Rightarrow>
                  (case po_lookup (e_provider e) p query of
                     (Inl error_type, p') \<Rightarrow> failed error_type (s1\<lparr>provider := Some p'\<rparr>)
                   | (Inr result, p') \<Rightarrow>
                       Inr (result, True,
                            \<lparr>qt_offset_tokens = offset, qt_chars = chars, qt_fallback = fallback\<rparr>,
                            s1\<lparr>provider := Some p',
                               lookup_cache := (lookup_cache s1)(rid \<mapsto> result),
                               segment_namespaces := (segment_namespaces s1)(rid \<mapsto> ns)\<rparr>))))"

definition note_miss ::
  "'p env \<Rightarrow> string \<Rightarrow> nat \<Rightarrow> string \<Rightarrow> int \<Rightarrow> bool \<Rightarrow> query_text \<Rightarrow> ('p, 'z) match_st_scheme
     \<Rightarrow> ('p, 'z) match_st_scheme" where
  "note_miss e rid attempt ns n first_lookup qt s =
     (if first_lookup
      then audit e (Some rid)
             (EM (Semantic_lookup_miss attempt ns n (qt_offset_tokens qt) (qt_chars qt) (qt_fallback qt)
                    (provider_miss_diagnostics e s)))
             (bump (SM Semantic_misses_total) s)
      else s)"

definition confidence_tier :: "lookup_result \<Rightarrow> string" where
  "confidence_tier r =
     (case map_of (lr_quality_signals r) ''confidence_tier'' of
        None \<Rightarrow> ''unknown'' | Some v \<Rightarrow> py_str v)"

definition note_hit ::
  "'p env \<Rightarrow> string \<Rightarrow> nat \<Rightarrow> string \<Rightarrow> int \<Rightarrow> bool \<Rightarrow> query_text \<Rightarrow> lookup_result
     \<Rightarrow> ('p, 'z) match_st_scheme \<Rightarrow> ('p, 'z) match_st_scheme" where
  "note_hit e rid attempt ns n first_lookup qt result s =
     (if first_lookup
      then audit e (Some rid)
             (EM (Semantic_lookup_hit attempt (lr_donor_id result) ns (lr_similarity result)
                    (lr_kind result) (lr_reusable_token_count result) (lr_reason result) n
                    (confidence_tier result) (qt_offset_tokens qt) (qt_chars qt) (qt_fallback qt)))
             (bump (SM Semantic_hits_total) s)
      else s)"

subsection \<open>The exits in order\<close>

fun first_exit :: "('s \<Rightarrow> 's option) list \<Rightarrow> 's \<Rightarrow> 's option" where
  "first_exit [] s = None"
| "first_exit (g # gs) s = (case g s of Some s' \<Rightarrow> Some s' | None \<Rightarrow> first_exit gs s)"

definition early_exits ::
  "'p env \<Rightarrow> string \<Rightarrow> nat \<Rightarrow> int list \<Rightarrow> int \<Rightarrow> ('p, 'z) match_st_scheme
     \<Rightarrow> ('p, 'z) match_st_scheme option" where
  "early_exits e rid attempt token_ids n s =
     first_exit
       [exit_incompatible e rid attempt token_ids,
        exit_short_prompt e rid attempt token_ids,
        exit_exact_ratio e rid attempt token_ids n,
        exit_below_min_boundary e rid attempt token_ids n,
        exit_remaining_below_min_span e rid attempt token_ids n,
        exit_no_provider e rid attempt] s"

lemma first_exit_None: "first_exit gs s = None \<longleftrightarrow> (\<forall>g\<in>set gs. g s = None)"
  by (induction gs) (auto split: option.splits)

lemma first_exit_inv:
  assumes "first_exit gs s = Some s'" and "\<And>g s'. g \<in> set gs \<Longrightarrow> g s = Some s' \<Longrightarrow> P s'"
  shows "P s'"
  using assms by (induction gs) (auto split: option.splits)

end
