(* ===== verification/Matching.thy ===== *)
theory Matching
  imports Gates
begin

text \<open>
  The second half of \<open>get_num_new_matched_tokens\<close>: what a hit becomes under each reuse mode, and
  the whole hook. Each branch returns the advertised token count, or the exception that escapes,
  with the state it leaves. The second component the source returns is \<open>False\<close> on every path and is
  left out.
\<close>

type_synonym ('p, 'z) outcome = "(py_error + int) \<times> ('p, 'z) match_st_scheme"

subsection \<open>Semantic span, one donor\<close>

text \<open>The donor's own segments, cut to the captured window; the two counts are the drops.\<close>

fun trim_segments :: "string \<Rightarrow> int \<Rightarrow> segment list \<Rightarrow> raw_span list \<times> int \<times> int" where
  "trim_segments donor stored [] = ([], 0, 0)"
| "trim_segments donor stored (g # gs) =
     (let (raw, wrong, beyond) = trim_segments donor stored gs
      in if sg_donor_id g \<noteq> donor then (raw, wrong + 1, beyond)
         else let n = min (sg_token_count g) (stored - sg_donor_start g)
              in if n \<le> 0 then (raw, wrong, beyond + 1)
                 else (\<lparr>rs_target_start = sg_target_start g, rs_length = n,
                         rs_donor_start = sg_donor_start g\<rparr> # raw, wrong, beyond))"

definition prompt_headroom :: "'p env \<Rightarrow> int list \<Rightarrow> int \<Rightarrow> int" where
  "prompt_headroom e token_ids n =
     max 0 (cacheable_prefix_tokens (len token_ids) (e_block_size e) - n)"

definition operator_cap :: "'p env \<Rightarrow> int" where
  "operator_cap e = (c_max_materialized_tokens (e_config e) div e_block_size e) * e_block_size e"

definition clamp_to_headroom ::
  "'p env \<Rightarrow> string \<Rightarrow> nat \<Rightarrow> int list \<Rightarrow> string \<Rightarrow> int \<Rightarrow> string \<Rightarrow> int \<Rightarrow> ('p, 'z) match_st_scheme
     \<Rightarrow> int \<times> ('p, 'z) match_st_scheme" where
  "clamp_to_headroom e rid attempt token_ids ns n donor count s =
     (let headroom = prompt_headroom e token_ids n
      in if headroom < count
         then (headroom,
           audit e (Some rid)
             (EP (Semantic_span_supply_clamped attempt donor ns n (len token_ids) count headroom))
             (bump (SP Semantic_span_clamped_to_prompt_headroom_per_attempt) s))
         else (count, s))"

definition advertise_span ::
  "'p env \<Rightarrow> string \<Rightarrow> nat \<Rightarrow> string \<Rightarrow> int \<Rightarrow> string \<Rightarrow> block_span list \<Rightarrow> int \<Rightarrow> int
     \<Rightarrow> ('p, 'z) match_st_scheme \<Rightarrow> ('p, 'z) outcome" where
  "advertise_span e rid attempt ns n donor spans count donor_start s =
     (let b = e_block_size e;
          target_start = ((n + b - 1) div b) * b;
          (plan_changed, s1) = record_load_plan rid
            \<lparr>pn_donor_id = donor, pn_token_count = count, pn_kind = K_SEMANTIC_SPAN,
             pn_namespace = ns, pn_boundary = n, pn_donor_start = Some donor_start,
             pn_target_start = Some target_start, pn_pieces = []\<rparr> s
      in (Inr count,
          if plan_changed
          then audit e (Some rid)
                 (EP (Semantic_span_load_advertised attempt donor ns count donor_start target_start n spans)) s1
          else s1))"

definition single_donor_span ::
  "'p env \<Rightarrow> volume \<Rightarrow> string \<Rightarrow> nat \<Rightarrow> int list \<Rightarrow> string \<Rightarrow> int \<Rightarrow> lookup_result
     \<Rightarrow> ('p, 'z) match_st_scheme \<Rightarrow> ('p, 'z) outcome" where
  "single_donor_span e vol rid attempt token_ids ns n result s =
     (let b = e_block_size e; c = e_config e; donor = lr_donor_id result;
          segs = opt_list (lr_segments result);
          (stored, s1) = stored_donor_token_count e vol donor ns s;
          (raw_spans, wrong, beyond) = trim_segments donor stored segs;
          spans = block_align_spans raw_spans b (c_min_semantic_span c);
          (supplied, donor_start) = supply_at_boundary spans n b;
          (count, s2) = clamp_to_headroom e rid attempt token_ids ns n donor
                          (min supplied (operator_cap e)) s1
      in if 0 < count \<and> count < c_min_semantic_span c
         then (Inr 0,
           audit e (Some rid)
             (EP (Semantic_span_declined_below_min_after_clamp attempt donor ns count
                    (c_min_semantic_span c) n))
             (bump (SP Semantic_span_declined_below_min_after_clamp_per_attempt) s2))
         else case (0 < count, donor_start) of
           (True, Some start) \<Rightarrow> advertise_span e rid attempt ns n donor spans count start s2
         | _ \<Rightarrow> (Inr 0,
             audit e (Some rid)
               (EP (Semantic_span_boundary_missed attempt donor ns n b (c_min_semantic_span c)
                      (c_max_materialized_tokens c) stored (len segs) (len raw_spans) wrong beyond
                      raw_spans spans (len token_ids)))
               (bump (SP Semantic_span_boundary_missed_per_attempt) s2)))"

subsection \<open>Semantic span, several donors\<close>

definition plan_multi_donor_span ::
  "'p env \<Rightarrow> volume \<Rightarrow> string \<Rightarrow> nat \<Rightarrow> lookup_result \<Rightarrow> string \<Rightarrow> int list \<Rightarrow> int
     \<Rightarrow> ('p, 'z) match_st_scheme \<Rightarrow> ('p, 'z) outcome" where
  "plan_multi_donor_span e vol rid attempt result ns token_ids boundary s =
     (let c = e_config e; segs = opt_list (lr_segments result); donors = result_donors result;
          (stored, s1) = stored_counts e vol ns donors s;
          runs = captured_runs stored segs;
          cap = min (operator_cap e) (prompt_headroom e token_ids boundary);
          pieces = trim_pieces (chain_at_boundary runs boundary (e_block_size e)) (boundary + cap);
          count = pieces_total pieces
      in if count < c_min_semantic_span c
         then (Inr 0,
           audit e (Some rid)
             (EP (Semantic_span_multi_donor_declined attempt ns boundary count (c_min_semantic_span c)
                    (len runs) (len donors)))
             (bump (SP Semantic_span_multi_donor_declined_per_attempt) s1))
         else case pieces of
           [] \<Rightarrow> (Inl IndexError, s1)
         | first # _ \<Rightarrow>
             (let (plan_changed, s2) = record_load_plan rid
                    \<lparr>pn_donor_id = pc_donor_id first, pn_token_count = count,
                     pn_kind = K_SEMANTIC_SPAN, pn_namespace = ns, pn_boundary = boundary,
                     pn_donor_start = Some (pc_donor_start first), pn_target_start = Some boundary,
                     pn_pieces = map load_piece_of pieces\<rparr> s1;
                  s3 = (if 1 < donors_used pieces
                        then bump (SP Semantic_span_multi_donor_loads_total) s2 else s2)
              in (Inr count,
                  if plan_changed
                  then audit e (Some rid)
                         (EP (Multi_donor_span_load_advertised attempt (pc_donor_id first) ns count
                                (pc_donor_start first) boundary boundary (donors_used pieces) pieces)) s3
                  else s2)))"

definition semantic_span_branch ::
  "'p env \<Rightarrow> volume \<Rightarrow> string \<Rightarrow> nat \<Rightarrow> int list \<Rightarrow> string \<Rightarrow> int \<Rightarrow> lookup_result
     \<Rightarrow> ('p, 'z) match_st_scheme \<Rightarrow> ('p, 'z) outcome" where
  "semantic_span_branch e vol rid attempt token_ids ns n result s =
     (if n mod e_block_size e \<noteq> 0
      then (Inr 0,
        audit e (Some rid)
          (EP (Semantic_span_declined_unaligned_boundary attempt (lr_donor_id result) ns n (e_block_size e)))
          (bump (SP Semantic_span_declined_unaligned_boundary_per_attempt) s))
      else if c_multi_donor_spans (e_config e) \<and> 1 < len (result_donors result)
      then plan_multi_donor_span e vol rid attempt result ns token_ids n s
      else single_donor_span e vol rid attempt token_ids ns n result s)"

subsection \<open>Request-only reuse\<close>

definition request_only_branch ::
  "'p env \<Rightarrow> volume \<Rightarrow> string \<Rightarrow> nat \<Rightarrow> int list \<Rightarrow> string \<Rightarrow> int \<Rightarrow> bool \<Rightarrow> lookup_result
     \<Rightarrow> ('p, 'z) match_st_scheme \<Rightarrow> ('p, 'z) outcome" where
  "request_only_branch e vol rid attempt token_ids ns n first_lookup result s =
     (let c = e_config e; donor = lr_donor_id result;
          donor_token_ids = opt_list (lr_donor_token_ids result);
          common = common_prefix_len donor_token_ids token_ids;
          (stored, s1) = stored_donor_token_count e vol donor ns s;
          bound = min (min (min (len token_ids) (len donor_token_ids)) stored)
                       (c_max_materialized_tokens c);
          candidates = (if c_allow_non_identical_request_only c then bound else min bound common);
          count = cacheable_prefix_tokens candidates (e_block_size e)
      in if 0 < count
         then let (plan_changed, s2) = record_load_plan rid
                    \<lparr>pn_donor_id = donor, pn_token_count = count, pn_kind = K_REQUEST_ONLY,
                     pn_namespace = ns, pn_boundary = n, pn_donor_start = None,
                     pn_target_start = None, pn_pieces = []\<rparr> s1
              in (Inr count,
                  if plan_changed
                  then audit e (Some rid)
                         (EP (Request_only_load_advertised attempt donor ns count K_REQUEST_ONLY common
                                (c_allow_non_identical_request_only c))) s2
                  else s2)
         else (Inr 0,
           if first_lookup
           then audit e (Some rid)
                  (EP (Request_only_load_rejected attempt donor ns common candidates))
                  (bump_by (SP Request_only_loads_rejected_non_identical_prefix)
                     (if \<not> c_allow_non_identical_request_only c \<and> common < len token_ids then 1 else 0) s1)
           else s1))"

subsection \<open>Exact prefix\<close>

definition exact_prefix_count :: "'p env \<Rightarrow> int list \<Rightarrow> int \<Rightarrow> lookup_result \<Rightarrow> int" where
  "exact_prefix_count e token_ids n result =
     (let b = e_block_size e;
          reusable_end = (min (lr_reusable_token_count result) (len token_ids) div b) * b;
          prompt_end = cacheable_prefix_tokens (len token_ids) b;
          window = max 0 (min reusable_end prompt_end - n)
      in (min window (c_max_materialized_tokens (e_config e)) div b) * b)"

definition exact_prefix_branch ::
  "'p env \<Rightarrow> string \<Rightarrow> nat \<Rightarrow> int list \<Rightarrow> string \<Rightarrow> int \<Rightarrow> lookup_result
     \<Rightarrow> ('p, 'z) match_st_scheme \<Rightarrow> ('p, 'z) outcome" where
  "exact_prefix_branch e rid attempt token_ids ns n result s =
     (let count = exact_prefix_count e token_ids n result; donor = lr_donor_id result
      in if count \<le> 0
         then (Inr 0,
           audit e (Some rid)
             (EP (Exact_prefix_load_declined attempt donor ns (lr_reusable_token_count result)
                    (len token_ids) n))
             (bump (SP Exact_prefix_declined_below_one_block_after_clamp_per_attempt) s))
         else let (plan_changed, s1) = record_load_plan rid
                    \<lparr>pn_donor_id = donor, pn_token_count = count, pn_kind = lr_kind result,
                     pn_namespace = ns, pn_boundary = n, pn_donor_start = Some n,
                     pn_target_start = Some n, pn_pieces = []\<rparr> s
              in (Inr count,
                  if plan_changed
                  then audit e (Some rid)
                         (EP (Exact_prefix_load_advertised attempt donor ns count
                                (lr_reusable_token_count result) (lr_kind result) n n n)) s1
                  else s1))"

subsection \<open>Hits that supply nothing\<close>

definition no_safe_plan_reason ::
  "'p env \<Rightarrow> volume \<Rightarrow> lookup_result \<Rightarrow> string \<Rightarrow> int \<Rightarrow> no_plan_reason" where
  "no_safe_plan_reason e vol result ns n =
     (let mode = c_mode (e_config e)
      in if mode = SEMANTIC_SPAN_EXPERIMENTAL then No_segments
         else if mode = REQUEST_ONLY_EXPERIMENTAL then
           (if \<not> opt_truthy (lr_donor_token_ids result) then No_donor_token_ids
            else if \<not> has_stored_donor e vol (lr_donor_id result) ns then Donor_not_stored
            else Boundary_not_zero)
         else if mode = EXACT_PREFIX then
           (if lr_kind result \<noteq> K_EXACT_PREFIX then Mode_kind_mismatch
            else if \<not> opt_truthy (lr_block_refs result) then No_block_refs
            else No_reusable_tokens)
         else Mode_kind_mismatch)"

definition reject_no_safe_plan ::
  "'p env \<Rightarrow> volume \<Rightarrow> string \<Rightarrow> nat \<Rightarrow> string \<Rightarrow> int \<Rightarrow> lookup_result
     \<Rightarrow> ('p, 'z) match_st_scheme \<Rightarrow> ('p, 'z) match_st_scheme" where
  "reject_no_safe_plan e vol rid attempt ns n result s =
     (let reason = no_safe_plan_reason e vol result ns n;
          recorded = (case no_safe_plan_reasons s rid of None \<Rightarrow> {} | Some rs \<Rightarrow> rs)
      in if reason \<in> recorded then s
         else let s1 = s\<lparr>no_safe_plan_reasons := (no_safe_plan_reasons s)(rid \<mapsto> insert reason recorded)\<rparr>;
                  s2 = (if recorded = {} then bump (SP Materialization_rejected_no_safe_plan) s1 else s1)
              in audit e (Some rid)
                   (EP (Rejected_no_safe_plan attempt (lr_donor_id result) ns (lr_kind result) reason n))
                   (bump (SP (Materialization_rejected_no_safe_plan_for reason)) s2))"

definition suppress_by_mode ::
  "'p env \<Rightarrow> string \<Rightarrow> nat \<Rightarrow> string \<Rightarrow> bool \<Rightarrow> lookup_result
     \<Rightarrow> ('p, 'z) match_st_scheme \<Rightarrow> ('p, 'z) match_st_scheme" where
  "suppress_by_mode e rid attempt ns first_lookup result s =
     (if first_lookup
      then let s1 = audit e (Some rid)
                      (EM (Materialization_suppressed attempt (lr_donor_id result) ns (lr_kind result)))
                      (bump (SM Materialization_suppressed_by_mode) s)
           in if lr_kind result = K_DISCOVERY_ONLY then bump (SM Discovery_only_hits_total) s1 else s1
      else s)"

definition note_discovery_kind ::
  "'p env \<Rightarrow> string \<Rightarrow> nat \<Rightarrow> string \<Rightarrow> bool \<Rightarrow> lookup_result
     \<Rightarrow> ('p, 'z) match_st_scheme \<Rightarrow> ('p, 'z) match_st_scheme" where
  "note_discovery_kind e rid attempt ns first_lookup result s =
     (if first_lookup
      then audit e (Some rid)
             (EM (Discovery_only_no_supply attempt (lr_donor_id result) ns (lr_similarity result)
                    (lr_reusable_token_count result) (lr_reason result)))
             (bump (SM Discovery_only_hits_total) s)
      else s)"

subsection \<open>The hook\<close>

definition materialize_hit ::
  "'p env \<Rightarrow> volume \<Rightarrow> string \<Rightarrow> nat \<Rightarrow> int list \<Rightarrow> string \<Rightarrow> int \<Rightarrow> bool \<Rightarrow> lookup_result
     \<Rightarrow> ('p, 'z) match_st_scheme \<Rightarrow> ('p, 'z) outcome" where
  "materialize_hit e vol rid attempt token_ids ns n first_lookup result s =
     (let mode = c_mode (e_config e)
      in if mode = DISCOVERY_ONLY
         then (Inr 0, suppress_by_mode e rid attempt ns first_lookup result s)
         else if mode = SEMANTIC_SPAN_EXPERIMENTAL \<and> opt_truthy (lr_segments result)
         then semantic_span_branch e vol rid attempt token_ids ns n result s
         else if mode = REQUEST_ONLY_EXPERIMENTAL \<and> opt_truthy (lr_donor_token_ids result)
                 \<and> has_stored_donor e vol (lr_donor_id result) ns \<and> n = 0
         then request_only_branch e vol rid attempt token_ids ns n first_lookup result s
         else if lr_kind result = K_DISCOVERY_ONLY
         then (Inr 0, note_discovery_kind e rid attempt ns first_lookup result s)
         else if mode = EXACT_PREFIX \<and> lr_kind result = K_EXACT_PREFIX
                 \<and> opt_truthy (lr_block_refs result) \<and> 0 < lr_reusable_token_count result
         then exact_prefix_branch e rid attempt token_ids ns n result s
         else (Inr 0, reject_no_safe_plan e vol rid attempt ns n result s))"

definition match_after_exits ::
  "'p env \<Rightarrow> volume \<Rightarrow> request \<Rightarrow> string \<Rightarrow> nat \<Rightarrow> int list \<Rightarrow> int \<Rightarrow> ('p, 'z) match_st_scheme
     \<Rightarrow> ('p, 'z) outcome" where
  "match_after_exits e vol r rid attempt token_ids n s =
     (let ns = namespace_for_request e r;
          (ruled_out, s1) = span_run_ruled_out e rid attempt token_ids ns n (note_stage e r rid s)
      in if ruled_out then (Inr 0, s1)
         else case memoized_lookup e r rid attempt token_ids ns n s1 of
           Inl s2 \<Rightarrow> (Inr 0, s2)
         | Inr (None, first_lookup, qt, s2) \<Rightarrow> (Inr 0, note_miss e rid attempt ns n first_lookup qt s2)
         | Inr (Some result, first_lookup, qt, s2) \<Rightarrow>
             materialize_hit e vol rid attempt token_ids ns n first_lookup result
               (note_hit e rid attempt ns n first_lookup qt result s2))"

definition get_num_new_matched_tokens ::
  "'p env \<Rightarrow> volume \<Rightarrow> request \<Rightarrow> int \<Rightarrow> ('p, 'z) match_st_scheme \<Rightarrow> ('p, 'z) outcome" where
  "get_num_new_matched_tokens e vol r n s =
     (let token_ids = token_ids_of r; rid = request_id_of r;
          (attempt, s1) = record_attempt rid s;
          s2 = (if attempt = 0 then bump (SM Lookups_total) s1 else s1)
      in case early_exits e rid attempt token_ids n s2 of
           Some s3 \<Rightarrow> (Inr 0, s3)
         | None \<Rightarrow> match_after_exits e vol r rid attempt token_ids n s2)"

end
