(* ===== verification/MatchFrames.thy ===== *)
theory MatchFrames
  imports Matching
begin

text \<open>
  What the match hook's operations leave alone. Everything that only counts, audits, decodes text
  or reads a donor's length leaves the hook's own fields as they were; the plan map changes only
  through \<open>record_load_plan\<close>, and only at the request's own id.
\<close>

subsection \<open>Text and storage\<close>

lemma more_note_unavailable [simp]:
  "text_st.more (note_prompt_text_unavailable e reason s) = text_st.more s"
  by (simp add: note_prompt_text_unavailable_def Let_def)

lemma more_note_fallback [simp]:
  "text_st.more (snd (note_text_slice_fallback kind reason s)) = text_st.more s"
  by (simp add: note_text_slice_fallback_def)

lemma more_get_tokenizer [simp]: "text_st.more (snd (get_prompt_tokenizer e s)) = text_st.more s"
  by (simp add: get_prompt_tokenizer_def Let_def split: option.splits)

lemma more_decode [simp]: "text_st.more (snd (decode_prompt_tokens e ts s)) = text_st.more s"
proof -
  obtain t s1 where t: "get_prompt_tokenizer e s = (t, s1)" by fastforce
  have "text_st.more s1 = text_st.more s" using more_get_tokenizer [of e s] by (simp add: t)
  then show ?thesis by (simp add: decode_prompt_tokens_def t Let_def split: option.splits)
qed

lemma more_prompt_text [simp]: "text_st.more (snd (prompt_text e r s)) = text_st.more s"
proof -
  have "text_st.more (snd (case decode_prompt_tokens e ids s of (text, s1) \<Rightarrow>
      (text, if text = None then note_prompt_text_unavailable e Decode_unavailable s1 else s1)))
      = text_st.more s" for ids
    using more_decode [of e ids s] by (cases "decode_prompt_tokens e ids s") simp
  then show ?thesis by (simp add: prompt_text_def Let_def del: first_str_attr.simps split: option.splits)
qed

lemma more_prefix_offset [simp]: "text_st.more (snd (prefix_char_offset e ts b s)) = text_st.more s"
  using more_decode [of e "take (nat b) ts" s]
  by (cases "decode_prompt_tokens e (take (nat b) ts) s") (simp add: prefix_char_offset_def)

lemma more_sliced [simp]:
  "text_st.more (snd (boundary_sliced_text e r ts b kind s)) = text_st.more s"
proof -
  obtain f s1 where f: "prompt_text e r s = (f, s1)" by fastforce
  obtain o' s2 where o': "prefix_char_offset e ts b s1 = (o', s2)" by fastforce
  have "text_st.more s1 = text_st.more s" "text_st.more s2 = text_st.more s1"
    using more_prompt_text [of e r s] more_prefix_offset [of e ts b s1] by (simp_all add: f o')
  then show ?thesis
    by (simp add: boundary_sliced_text_def f o' note_text_slice_fallback_def Let_def
        split: option.splits)
qed

lemma more_stored_count [simp]:
  "storage_st.more (snd (stored_donor_token_count e vol d ns s)) = storage_st.more s"
  by (simp add: stored_donor_token_count_def Let_def split: option.splits)

lemma more_stored_counts [simp]:
  "storage_st.more (snd (stored_counts e vol ns ds s)) = storage_st.more s"
proof (induction e vol ns ds s rule: stored_counts.induct)
  case (2 e vol ns d ds s)
  obtain n s1 where a: "stored_donor_token_count e vol d ns s = (n, s1)" by fastforce
  obtain f s2 where b: "stored_counts e vol ns ds s1 = (f, s2)" by fastforce
  show ?case
    using "2.IH" [OF a [symmetric] refl] more_stored_count [of e vol d ns s] by (simp add: a b)
qed simp

text \<open>The lengths a result is trimmed to are those of its donors, read in the given state.\<close>

lemma stored_counts_length:
  assumes "stored_counts e vol ns ds s = (f, s')" and "d \<in> set ds"
  shows "f d = donor_length e vol s d ns"
  using assms
proof (induction ds arbitrary: s f s')
  case (Cons c ds)
  obtain n s1 where a: "stored_donor_token_count e vol c ns s = (n, s1)" by fastforce
  obtain g s2 where b: "stored_counts e vol ns ds s1 = (g, s2)" by fastforce
  have same: "donor_length e vol s1 d ns = donor_length e vol s d ns"
    using stored_count_state(2) [OF a]
    by (simp add: donor_length_def stored_donor_token_count_def Let_def split: option.splits)
  have "donor_length e vol s c ns = n" by (simp add: donor_length_def a)
  then show ?case using Cons.IH [OF b] Cons.prems same by (auto simp: a b)
qed simp

subsection \<open>The hook's own operations\<close>

lemmas text_frame = storage_more_eq match_part_eq [OF storage_more_eq(2)]

lemma record_attempt_plans [simp]:
  "load_plans (snd (record_attempt rid s)) = load_plans s"
  "lookup_cache (snd (record_attempt rid s)) = lookup_cache s"
  "provider (snd (record_attempt rid s)) = provider s"
  by (simp_all add: record_attempt_def Let_def)

lemma record_load_plan_plans [simp]:
  "load_plans (snd (record_load_plan rid p s)) = (load_plans s)(rid \<mapsto> p)"
  by (simp add: record_load_plan_def Let_def split: option.splits)

lemma note_stage_plans [simp]:
  "load_plans (note_stage e r rid s) = load_plans s"
  "lookup_cache (note_stage e r rid s) = lookup_cache s"
  "provider (note_stage e r rid s) = provider s"
  by (simp_all add: note_stage_def)

lemma span_run_ruled_out_plans [simp]:
  "load_plans (snd (span_run_ruled_out e rid a ts ns n s)) = load_plans s"
  "lookup_cache (snd (span_run_ruled_out e rid a ts ns n s)) = lookup_cache s"
  "provider (snd (span_run_ruled_out e rid a ts ns n s)) = provider s"
  by (simp_all add: span_run_ruled_out_def Let_def split: option.splits sum.splits)

lemma note_miss_plans [simp]:
  "load_plans (note_miss e rid a ns n f qt s) = load_plans s"
  "lookup_cache (note_miss e rid a ns n f qt s) = lookup_cache s"
  "provider (note_miss e rid a ns n f qt s) = provider s"
  by (simp_all add: note_miss_def)

lemma note_hit_plans [simp]:
  "load_plans (note_hit e rid a ns n f qt r s) = load_plans s"
  "lookup_cache (note_hit e rid a ns n f qt r s) = lookup_cache s"
  "provider (note_hit e rid a ns n f qt r s) = provider s"
  by (simp_all add: note_hit_def)

lemma no_supply_plans [simp]:
  "load_plans (suppress_by_mode e rid a ns f r s) = load_plans s"
  "load_plans (note_discovery_kind e rid a ns f r s) = load_plans s"
  "load_plans (reject_no_safe_plan e vol rid a ns n r s) = load_plans s"
  by (simp_all add: suppress_by_mode_def note_discovery_kind_def reject_no_safe_plan_def Let_def)

lemma clamp_plans [simp]:
  "load_plans (snd (clamp_to_headroom e rid a ts ns n d c s)) = load_plans s"
  by (simp add: clamp_to_headroom_def Let_def)

lemma early_exit_plans:
  "early_exits e rid a ts n s = Some s' \<Longrightarrow> load_plans s' = load_plans s"
  unfolding early_exits_def
  by (erule first_exit_inv)
     (auto simp: exit_incompatible_def exit_short_prompt_def exit_exact_ratio_def
       exit_below_min_boundary_def exit_remaining_below_min_span_def exit_no_provider_def Let_def
       split: option.splits if_splits)

lemma early_exit_None:
  "early_exits e rid a ts n s = None \<longleftrightarrow>
     e_compat_decline e = None \<and> ts \<noteq> [] \<and> c_min_prompt_tokens (e_config e) \<le> len ts
     \<and> rat_of_int n / rat_of_int (max (len ts) 1) < c_skip_when_exact_prefix_ratio_at_least (e_config e)
     \<and> c_min_boundary_tokens (e_config e) \<le> n
     \<and> (c_mode (e_config e) = SEMANTIC_SPAN_EXPERIMENTAL \<longrightarrow>
          c_min_semantic_span (e_config e) \<le> max 0 (len ts - n))
     \<and> provider s \<noteq> None"
  unfolding early_exits_def first_exit_None
  by (auto simp: exit_incompatible_def exit_short_prompt_def exit_exact_ratio_def
       exit_below_min_boundary_def exit_remaining_below_min_span_def exit_no_provider_def Let_def
       not_le not_less split: option.splits)

end
