(* ===== verification/MatchProps.thy ===== *)
theory MatchProps
  imports MatchFrames
begin

text \<open>
  What the match hook promises the scheduler and the worker: a positive count is a whole number of
  blocks, leaves the engine a token to compute, and comes with exactly one recorded plan that
  describes it; nothing else touches the plans.
\<close>

subsection \<open>Safe plans\<close>

fun tiles :: "int \<Rightarrow> load_piece list \<Rightarrow> int \<Rightarrow> bool" where
  "tiles p [] q \<longleftrightarrow> p = q"
| "tiles p (x # xs) q \<longleftrightarrow>
     lp_target_start x = p \<and> 0 < lp_token_count x \<and> tiles (p + lp_token_count x) xs q"

text \<open>
  A plan at boundary \<open>n\<close> is safe: it is written from the boundary, block by block, and stops
  before the prompt does; its pieces, when it has several, tile exactly that window.
\<close>

definition plan_safe :: "int \<Rightarrow> int list \<Rightarrow> int \<Rightarrow> load_plan \<Rightarrow> bool" where
  "plan_safe b token_ids n p \<longleftrightarrow>
     0 < pn_token_count p \<and> b dvd pn_token_count p \<and> n + pn_token_count p < len token_ids
     \<and> pn_boundary p = n
     \<and> (case pn_target_start p of None \<Rightarrow> n = 0 \<and> pn_donor_start p = None
        | Some t \<Rightarrow> t = n \<and> pn_donor_start p \<noteq> None)
     \<and> (pn_pieces p = [] \<or> tiles n (pn_pieces p) (n + pn_token_count p))"

text \<open>What one call does to the plans, by its outcome.\<close>

definition outcome_safe ::
  "'p env \<Rightarrow> int list \<Rightarrow> int \<Rightarrow> string \<Rightarrow> ('p, 'z) match_st_scheme \<Rightarrow> ('p, 'z) outcome \<Rightarrow> bool" where
  "outcome_safe e token_ids n rid s out \<longleftrightarrow>
     (case fst out of
        Inl err \<Rightarrow> err = IndexError \<and> load_plans (snd out) = load_plans s
          \<and> c_mode (e_config e) = SEMANTIC_SPAN_EXPERIMENTAL
          \<and> c_multi_donor_spans (e_config e) \<and> c_min_semantic_span (e_config e) \<le> 0
      | Inr k \<Rightarrow>
          if k = 0 then load_plans (snd out) = load_plans s
          else \<exists>p. load_plans (snd out) = (load_plans s)(rid \<mapsto> p) \<and> pn_token_count p = k
                   \<and> plan_safe (e_block_size e) token_ids n p)"

lemma outcome_safe_zero: "load_plans s' = load_plans s \<Longrightarrow> outcome_safe e ts n rid s (Inr 0, s')"
  by (simp add: outcome_safe_def)

lemma outcome_safe_plan:
  assumes "load_plans s' = (load_plans s)(rid \<mapsto> p)" and "pn_token_count p = k"
    and "plan_safe (e_block_size e) ts n p"
  shows "outcome_safe e ts n rid s (Inr k, s')"
  using assms by (auto simp: outcome_safe_def plan_safe_def)

lemma outcome_safe_cong:
  "load_plans s = load_plans t \<Longrightarrow> outcome_safe e ts n rid s out = outcome_safe e ts n rid t out"
  by (simp add: outcome_safe_def split: sum.splits)

subsection \<open>Headroom and the operator's cap\<close>

lemma prompt_headroom_bounds:
  assumes "0 < e_block_size e"
  shows "0 \<le> prompt_headroom e ts n"
    and "0 < prompt_headroom e ts n \<Longrightarrow> 0 \<le> n \<Longrightarrow> n + prompt_headroom e ts n < len ts"
    and "e_block_size e dvd n \<Longrightarrow> e_block_size e dvd prompt_headroom e ts n"
  using cacheable_prefix_bounds [OF assms, of "len ts"]
  by (auto simp: prompt_headroom_def max_def split: if_splits)

lemma operator_cap_dvd: "e_block_size e dvd operator_cap e"
  by (simp add: operator_cap_def)

lemma clamp_result:
  assumes "clamp_to_headroom e rid a ts ns n d c s = (k, s')"
  shows "k = min c (prompt_headroom e ts n)" and "load_plans s' = load_plans s"
  using assms by (auto simp: clamp_to_headroom_def Let_def split: if_splits)

lemma supply_dvd:
  assumes "0 < b" and "b dvd n"
    and "supply_at_boundary (block_align_spans raws b m) n b = (c, Some d)"
  shows "0 < c \<and> b dvd c \<and> align_up n b = n
    \<and> (\<exists>raw\<in>set raws. rs_target_start raw \<le> n \<and> n + c \<le> rs_target_start raw + rs_length raw
          \<and> d - n = rs_donor_start raw - rs_target_start raw)"
proof -
  have u: "align_up n b = n" using assms(1,2) by (rule align_up_id)
  obtain sp where sp: "sp \<in> set (block_align_spans raws b m)" "bs_target_start sp \<le> n"
    "n < bs_target_end sp" "c = bs_target_end sp - n" "d = bs_donor_start sp + (n - bs_target_start sp)"
    using supply_loop_result [of "block_align_spans raws b m" "align_up n b" c d] assms(3) u
    unfolding supply_at_boundary_def align_up_def by auto
  from block_align_spans_span [OF assms(1) sp(1)]
  have "b dvd bs_target_end sp" and raw: "\<exists>raw\<in>set raws. snapped_from b raw sp" by blast+
  then have dc: "b dvd c" using assms(2) sp(4) by (simp add: dvd_diff)
  obtain raw where r: "raw \<in> set raws" "snapped_from b raw sp" using raw by blast
  then have "\<exists>raw\<in>set raws. rs_target_start raw \<le> n \<and> n + c \<le> rs_target_start raw + rs_length raw
      \<and> d - n = rs_donor_start raw - rs_target_start raw"
    using sp(2-5) unfolding snapped_from_def by (intro bexI [of _ raw]) auto
  then show ?thesis using dc u sp(3,4) by simp
qed

lemma dvd_min: "b dvd x \<Longrightarrow> b dvd y \<Longrightarrow> b dvd min x (y :: int)"
  by (simp add: min_def)

subsection \<open>The branches\<close>

lemma advertise_span_result:
  assumes "advertise_span e rid a ns n d spans c start s = out"
    and "0 < e_block_size e" and "e_block_size e dvd n"
  shows "fst out = Inr c" and "load_plans (snd out) = (load_plans s)(rid \<mapsto>
    \<lparr>pn_donor_id = d, pn_token_count = c, pn_kind = K_SEMANTIC_SPAN, pn_namespace = ns,
     pn_boundary = n, pn_donor_start = Some start, pn_target_start = Some n, pn_pieces = []\<rparr>)"
proof -
  have u: "((n + e_block_size e - 1) div e_block_size e) * e_block_size e = n"
    using align_up_id [OF assms(2,3)] by (simp add: align_up_def)
  let ?p = "\<lparr>pn_donor_id = d, pn_token_count = c, pn_kind = K_SEMANTIC_SPAN, pn_namespace = ns,
     pn_boundary = n, pn_donor_start = Some start, pn_target_start = Some n, pn_pieces = []\<rparr>"
  obtain ch s1 where r: "record_load_plan rid ?p s = (ch, s1)" by fastforce
  have "load_plans s1 = (load_plans s)(rid \<mapsto> ?p)" using record_load_plan_plans [of rid ?p s] by (simp add: r)
  then show "fst out = Inr c" "load_plans (snd out) = (load_plans s)(rid \<mapsto> ?p)"
    using assms(1) by (auto simp: advertise_span_def Let_def u r)
qed

text \<open>
  The single-donor branch in one rule: it supplies nothing and leaves the plans alone, or it
  records the plan of a window that lies in one of the donor's captured segments.
\<close>

lemma single_donor_span_cases:
  assumes b: "0 < e_block_size e" and dv: "e_block_size e dvd n" and n: "0 \<le> n"
    and out: "single_donor_span e vol rid a ts ns n result s = out"
  obtains (nothing) "fst out = Inr 0" "load_plans (snd out) = load_plans s"
  | (span) c d raw where "fst out = Inr c" "load_plans (snd out) = (load_plans s)(rid \<mapsto>
      \<lparr>pn_donor_id = lr_donor_id result, pn_token_count = c, pn_kind = K_SEMANTIC_SPAN,
       pn_namespace = ns, pn_boundary = n, pn_donor_start = Some d, pn_target_start = Some n,
       pn_pieces = []\<rparr>)"
      "0 < c" "e_block_size e dvd c" "n + c < len ts" "c_min_semantic_span (e_config e) \<le> c"
      "c \<le> operator_cap e"
      "raw \<in> set (fst (trim_segments (lr_donor_id result) (donor_length e vol s (lr_donor_id result) ns)
                  (opt_list (lr_segments result))))"
      "rs_target_start raw \<le> n" "n + c \<le> rs_target_start raw + rs_length raw"
      "d - n = rs_donor_start raw - rs_target_start raw"
proof -
  let ?c = "e_config e" and ?b = "e_block_size e" and ?d = "lr_donor_id result"
  obtain stored s1 where st: "stored_donor_token_count e vol ?d ns s = (stored, s1)" by fastforce
  obtain raws w by' where tr: "trim_segments ?d stored (opt_list (lr_segments result)) = (raws, w, by')"
    by (metis prod.exhaust)
  obtain sup start where su: "supply_at_boundary (block_align_spans raws ?b (c_min_semantic_span ?c)) n ?b
      = (sup, start)" by fastforce
  obtain c s2 where cl: "clamp_to_headroom e rid a ts ns n ?d (min sup (operator_cap e)) s1 = (c, s2)"
    by fastforce
  have p1: "load_plans s1 = load_plans s"
    using match_part_eq(1) [OF more_stored_count, of e vol ?d ns s] by (simp add: st)
  note c = clamp_result [OF cl]
  have len: "donor_length e vol s ?d ns = stored" by (simp add: donor_length_def st)
  show thesis
  proof (cases "(0 < c \<and> c < c_min_semantic_span ?c) \<or> \<not> 0 < c \<or> start = None")
    case True
    then have no: "fst out = Inr 0 \<and> load_plans (snd out) = load_plans s"
      using out c(2) p1
      by (auto simp: single_donor_span_def st tr su cl Let_def split: option.splits bool.splits)
    show thesis by (rule nothing) (use no in auto)
  next
    case False
    then obtain d where d: "start = Some d" and pos: "0 < c" "c_min_semantic_span ?c \<le> c" by auto
    have ad: "advertise_span e rid a ns n ?d (block_align_spans raws ?b (c_min_semantic_span ?c)) c d s2 = out"
      using out pos by (simp add: single_donor_span_def st tr su cl Let_def d)
    note plan = advertise_span_result [OF ad b dv]
    note win = supply_dvd [OF b dv su [unfolded d]]
    obtain raw where raw: "raw \<in> set raws" "rs_target_start raw \<le> n"
      "n + sup \<le> rs_target_start raw + rs_length raw" "d - n = rs_donor_start raw - rs_target_start raw"
      using win by blast
    have le: "c \<le> sup" "c \<le> prompt_headroom e ts n" "c \<le> operator_cap e" using c(1) by auto
    show thesis
    proof (rule span)
      show "fst out = Inr c" by (rule plan(1))
      show "load_plans (snd out) = (load_plans s)(rid \<mapsto>
          \<lparr>pn_donor_id = ?d, pn_token_count = c, pn_kind = K_SEMANTIC_SPAN, pn_namespace = ns,
           pn_boundary = n, pn_donor_start = Some d, pn_target_start = Some n, pn_pieces = []\<rparr>)"
        using plan(2) c(2) p1 by simp
      show "?b dvd c"
        unfolding c(1) using win operator_cap_dvd prompt_headroom_bounds(3) [OF b dv]
        by (intro dvd_min) auto
      show "n + c < len ts" using prompt_headroom_bounds(2) [OF b _ n, of ts] le(2) pos(1) by linarith
      show "raw \<in> set (fst (trim_segments ?d (donor_length e vol s ?d ns) (opt_list (lr_segments result))))"
        using raw(1) by (simp add: len tr)
      show "n + c \<le> rs_target_start raw + rs_length raw" using raw(3) le(1) by linarith
    qed (use pos le raw in auto)
  qed
qed

lemma trim_segments_mem:
  "raw \<in> set (fst (trim_segments d stored gs)) \<longleftrightarrow>
     (\<exists>g\<in>set gs. sg_donor_id g = d \<and> rs_target_start raw = sg_target_start g
        \<and> rs_donor_start raw = sg_donor_start g
        \<and> rs_length raw = min (sg_token_count g) (stored - sg_donor_start g) \<and> 0 < rs_length raw)"
proof (induction gs)
  case (Cons g gs)
  obtain r w b where t: "trim_segments d stored gs = (r, w, b)" by (metis prod.exhaust)
  show ?case
    using Cons by (cases raw) (auto simp: t Let_def not_le)
qed simp

lemma tiles_pieces: "contiguous p ps q \<Longrightarrow> tiles p (map load_piece_of ps) q"
  by (induction p ps q rule: contiguous.induct) (auto simp: load_piece_of_def)

text \<open>A non-empty chain cut at \<open>cap\<close> tokens: what it covers and where its pieces come from.\<close>

lemma trimmed_chain:
  assumes b: "0 < b" and dv: "b dvd n"
    and ps: "trim_pieces (chain_at_boundary runs n b) (n + cap) = x # xs"
  shows "contiguous n (x # xs) (n + pieces_total (x # xs))" and "0 < pieces_total (x # xs)"
    and "pieces_total (x # xs) \<le> cap" and "b dvd cap \<Longrightarrow> b dvd pieces_total (x # xs)"
    and "\<forall>y\<in>set (x # xs). \<exists>r\<in>set runs. piece_of r y"
proof -
  define ch where "ch = chain_at_boundary runs n b"
  obtain v where v: "contiguous n ch v" "b dvd v"
    using chain_at_boundary_shape [OF b, of n runs] align_up_id [OF b dv] unfolding ch_def by auto
  have cap0: "0 \<le> cap"
  proof (rule ccontr)
    assume "\<not> 0 \<le> cap"
    then have "trim_pieces ch (n + cap) = []" by (intro trim_pieces_past [OF v(1)]) simp
    then show False using ps by (simp add: ch_def)
  qed
  have con: "contiguous n (x # xs) (min v (n + cap))"
    unfolding ps [symmetric] ch_def [symmetric] using cap0 by (intro trim_pieces_contiguous [OF v(1)]) simp
  then have tot: "pieces_total (x # xs) = min v (n + cap) - n" by (rule contiguous_total)
  have "n + pieces_total (x # xs) = min v (n + cap)" unfolding tot by linarith
  then show "contiguous n (x # xs) (n + pieces_total (x # xs))" using con by (simp only:)
  have h: "pc_target_start x = n" "0 < pc_token_count x" "contiguous (piece_end x) xs (min v (n + cap))"
    using con unfolding contiguous.simps by blast+
  show "0 < pieces_total (x # xs)" unfolding tot using contiguous_le [OF h(3)] h(1,2) by linarith
  show "pieces_total (x # xs) \<le> cap" using tot by simp
  show "b dvd pieces_total (x # xs)" if "b dvd cap"
    unfolding tot using v(2) dv that by (intro dvd_diff dvd_min dvd_add) auto
  show "\<forall>y\<in>set (x # xs). \<exists>r\<in>set runs. piece_of r y"
  proof
    fix y assume "y \<in> set (x # xs)"
    then obtain z where z: "z \<in> set ch" "y = z\<lparr>pc_token_count := pc_token_count y\<rparr>"
      "pc_token_count y \<le> pc_token_count z"
      using trim_pieces_mem unfolding ps [symmetric] ch_def by blast
    obtain r where "r \<in> set runs" "piece_of r z"
      using chain_at_boundary_piece z(1) unfolding ch_def by blast
    then show "\<exists>r\<in>set runs. piece_of r y" using trim_piece_of z(2,3) by metis
  qed
qed

lemma multi_donor_cases:
  assumes b: "0 < e_block_size e" and dv: "e_block_size e dvd n" and n: "0 \<le> n"
    and out: "plan_multi_donor_span e vol rid a result ns ts n s = out"
  obtains (nothing) "fst out = Inr 0" "load_plans (snd out) = load_plans s"
  | (raised) "fst out = Inl IndexError" "load_plans (snd out) = load_plans s"
      "c_min_semantic_span (e_config e) \<le> 0"
  | (chain) x xs stored where
      "fst out = Inr (pieces_total (x # xs))" "load_plans (snd out) = (load_plans s)(rid \<mapsto>
      \<lparr>pn_donor_id = pc_donor_id x, pn_token_count = pieces_total (x # xs), pn_kind = K_SEMANTIC_SPAN,
       pn_namespace = ns, pn_boundary = n, pn_donor_start = Some (pc_donor_start x),
       pn_target_start = Some n, pn_pieces = map load_piece_of (x # xs)\<rparr>)"
      "contiguous n (x # xs) (n + pieces_total (x # xs))" "e_block_size e dvd pieces_total (x # xs)"
      "n + pieces_total (x # xs) < len ts" "c_min_semantic_span (e_config e) \<le> pieces_total (x # xs)"
      "pieces_total (x # xs) \<le> operator_cap e"
      "\<forall>y\<in>set (x # xs). \<exists>r\<in>set (captured_runs stored (opt_list (lr_segments result))). piece_of r y"
      "\<forall>g\<in>set (opt_list (lr_segments result)).
         stored (sg_donor_id g) = donor_length e vol s (sg_donor_id g) ns"
proof -
  let ?c = "e_config e" and ?b = "e_block_size e"
  obtain stored s1 where st: "stored_counts e vol ns (result_donors result) s = (stored, s1)" by fastforce
  define runs where "runs = captured_runs stored (opt_list (lr_segments result))"
  define cap where "cap = min (operator_cap e) (prompt_headroom e ts n)"
  define ch where "ch = chain_at_boundary runs n ?b"
  define ps where "ps = trim_pieces ch (n + cap)"
  have p1: "load_plans s1 = load_plans s"
    using match_part_eq(1) [OF more_stored_counts, of e vol ns "result_donors result" s] by (simp add: st)
  note defs = runs_def [symmetric] cap_def [symmetric] ch_def [symmetric] ps_def [symmetric]
  have stored: "\<forall>g\<in>set (opt_list (lr_segments result)).
      stored (sg_donor_id g) = donor_length e vol s (sg_donor_id g) ns"
    using stored_counts_length [OF st] by (simp add: result_donors_def)
  show thesis
  proof (cases "pieces_total ps < c_min_semantic_span ?c")
    case True
    then have no: "fst out = Inr 0 \<and> load_plans (snd out) = load_plans s"
      using out p1 by (auto simp: plan_multi_donor_span_def st Let_def defs)
    show thesis by (rule nothing) (use no in auto)
  next
    case floor: False
    show thesis
    proof (cases ps)
      case Nil
      then have no: "fst out = Inl IndexError \<and> load_plans (snd out) = load_plans s"
        using out p1 floor by (auto simp: plan_multi_donor_span_def st Let_def defs)
      have "c_min_semantic_span ?c \<le> 0" using floor Nil by (simp add: pieces_total_def)
      then show thesis by (intro raised) (use no in auto)
    next
      case (Cons x xs)
      note tc = trimmed_chain [OF b dv, of runs cap x xs, folded ch_def, folded ps_def, OF Cons]
      have dvt: "?b dvd pieces_total ps"
        unfolding Cons
        by (rule tc(4)) (simp only: cap_def operator_cap_dvd prompt_headroom_bounds(3) [OF b dv] dvd_min)
      let ?p = "\<lparr>pn_donor_id = pc_donor_id x, pn_token_count = pieces_total ps, pn_kind = K_SEMANTIC_SPAN,
         pn_namespace = ns, pn_boundary = n, pn_donor_start = Some (pc_donor_start x),
         pn_target_start = Some n, pn_pieces = map load_piece_of ps\<rparr>"
      obtain chg s2 where r: "record_load_plan rid ?p s1 = (chg, s2)" by fastforce
      have p2: "load_plans s2 = (load_plans s)(rid \<mapsto> ?p)"
        using record_load_plan_plans [of rid ?p s1] p1 by (simp add: r)
      have "fst out = Inr (pieces_total ps) \<and> load_plans (snd out) = load_plans s2"
        using out floor r [unfolded Cons]
        by (auto simp: plan_multi_donor_span_def st Let_def defs Cons)
      then have res: "fst out = Inr (pieces_total ps)" "load_plans (snd out) = (load_plans s)(rid \<mapsto> ?p)"
        using p2 by simp_all
      show thesis
      proof (rule chain [of x xs stored])
        show "contiguous n (x # xs) (n + pieces_total (x # xs))"
          by (rule tc(1))
        show "n + pieces_total (x # xs) < len ts"
          using prompt_headroom_bounds(2) [OF b _ n, of ts] tc(2,3) unfolding cap_def by linarith
        show "pieces_total (x # xs) \<le> operator_cap e" using tc(3) unfolding cap_def by linarith
      qed (use res dvt floor tc(5) stored in \<open>simp_all add: Cons runs_def\<close>)
    qed
  qed
qed

lemma request_only_safe:
  assumes b: "0 < e_block_size e" and n: "n = 0"
  shows "outcome_safe e ts n rid s (request_only_branch e vol rid a ts ns n f result s)"
proof -
  let ?c = "e_config e" and ?d = "lr_donor_id result"
  define dts where "dts = opt_list (lr_donor_token_ids result)"
  obtain stored s1 where st: "stored_donor_token_count e vol ?d ns s = (stored, s1)" by fastforce
  define bound where "bound = min (min (min (len ts) (len dts)) stored) (c_max_materialized_tokens ?c)"
  define cand where "cand = (if c_allow_non_identical_request_only ?c then bound
                             else min bound (common_prefix_len dts ts))"
  define k where "k = cacheable_prefix_tokens cand (e_block_size e)"
  have p1: "load_plans s1 = load_plans s"
    using match_part_eq(1) [OF more_stored_count, of e vol ?d ns s] by (simp add: st)
  have cand: "cand \<le> len ts" by (simp add: cand_def bound_def min_le_iff_disj)
  note kb = cacheable_prefix_bounds [OF b, of cand, folded k_def]
  note defs = dts_def [symmetric] bound_def [symmetric] cand_def [symmetric] k_def [symmetric]
  show ?thesis
  proof (cases "0 < k")
    case True
    let ?p = "\<lparr>pn_donor_id = ?d, pn_token_count = k, pn_kind = K_REQUEST_ONLY, pn_namespace = ns,
       pn_boundary = n, pn_donor_start = None, pn_target_start = None, pn_pieces = []\<rparr>"
    obtain ch s2 where r: "record_load_plan rid ?p s1 = (ch, s2)" by fastforce
    have p2: "load_plans s2 = (load_plans s)(rid \<mapsto> ?p)"
      using record_load_plan_plans [of rid ?p s1] p1 by (simp add: r)
    have "\<exists>s3. request_only_branch e vol rid a ts ns n f result s = (Inr k, s3) \<and> load_plans s3 = load_plans s2"
      unfolding request_only_branch_def Let_def st prod.case defs using True r by auto
    then obtain s3 where s3: "request_only_branch e vol rid a ts ns n f result s = (Inr k, s3)"
      "load_plans s3 = load_plans s2" by blast
    have "plan_safe (e_block_size e) ts n ?p"
      using True kb(2) kb(3) cand by (simp add: plan_safe_def n)
    then show ?thesis unfolding s3(1) using s3(2) p2 by (intro outcome_safe_plan) auto
  next
    case False
    then have "\<exists>s3. request_only_branch e vol rid a ts ns n f result s = (Inr 0, s3)
        \<and> load_plans s3 = load_plans s1"
      unfolding request_only_branch_def Let_def st prod.case defs by auto
    then show ?thesis using p1 by (auto intro: outcome_safe_zero)
  qed
qed

lemma exact_prefix_count_bounds:
  assumes "0 < e_block_size e" and "0 \<le> n" and "0 < exact_prefix_count e ts n result"
  shows "e_block_size e dvd exact_prefix_count e ts n result"
    and "n + exact_prefix_count e ts n result < len ts"
    and "n + exact_prefix_count e ts n result \<le> lr_reusable_token_count result"
proof -
  let ?b = "e_block_size e"
  define re where "re = align_down (min (lr_reusable_token_count result) (len ts)) ?b"
  define pe where "pe = cacheable_prefix_tokens (len ts) ?b"
  define w where "w = max 0 (min re pe - n)"
  have eq: "exact_prefix_count e ts n result = align_down (min w (c_max_materialized_tokens (e_config e))) ?b"
    by (simp add: exact_prefix_count_def w_def re_def pe_def align_down_def Let_def)
  have le: "exact_prefix_count e ts n result \<le> w"
    unfolding eq using align_down_le [OF assms(1), of "min w (c_max_materialized_tokens (e_config e))"]
    by linarith
  then have w: "0 < w" "w = min re pe - n" using assms(3) by (auto simp: w_def max_def split: if_splits)
  show "?b dvd exact_prefix_count e ts n result" unfolding eq by simp
  have "0 < pe" using w assms(2) by linarith
  then have "pe \<le> len ts - 2" using cacheable_prefix_bounds(3) [OF assms(1)] by (simp add: pe_def)
  then show "n + exact_prefix_count e ts n result < len ts" using le w by linarith
  have "re \<le> lr_reusable_token_count result"
    using align_down_le [OF assms(1), of "min (lr_reusable_token_count result) (len ts)"]
    unfolding re_def by linarith
  then show "n + exact_prefix_count e ts n result \<le> lr_reusable_token_count result" using le w by linarith
qed

lemma exact_prefix_safe:
  assumes b: "0 < e_block_size e" and n: "0 \<le> n"
  shows "outcome_safe e ts n rid s (exact_prefix_branch e rid a ts ns n result s)"
proof -
  define k where "k = exact_prefix_count e ts n result"
  show ?thesis
  proof (cases "0 < k")
    case True
    let ?p = "\<lparr>pn_donor_id = lr_donor_id result, pn_token_count = k, pn_kind = lr_kind result,
       pn_namespace = ns, pn_boundary = n, pn_donor_start = Some n, pn_target_start = Some n,
       pn_pieces = []\<rparr>"
    obtain ch s1 where r: "record_load_plan rid ?p s = (ch, s1)" by fastforce
    have p1: "load_plans s1 = (load_plans s)(rid \<mapsto> ?p)"
      using record_load_plan_plans [of rid ?p s] by (simp add: r)
    have "\<exists>s3. exact_prefix_branch e rid a ts ns n result s = (Inr k, s3) \<and> load_plans s3 = load_plans s1"
      using True r by (auto simp: exact_prefix_branch_def k_def [symmetric] Let_def)
    then obtain s3 where s3: "exact_prefix_branch e rid a ts ns n result s = (Inr k, s3)"
      "load_plans s3 = load_plans s1" by blast
    have "plan_safe (e_block_size e) ts n ?p"
      using True exact_prefix_count_bounds [OF b n, of ts result] by (simp add: plan_safe_def k_def)
    then show ?thesis unfolding s3(1) using s3(2) p1 by (intro outcome_safe_plan) auto
  next
    case False
    then show ?thesis
      by (auto simp: exact_prefix_branch_def k_def [symmetric] Let_def intro: outcome_safe_zero)
  qed
qed

lemma semantic_span_safe:
  assumes b: "0 < e_block_size e" and n: "0 \<le> n" and mode: "c_mode (e_config e) = SEMANTIC_SPAN_EXPERIMENTAL"
  shows "outcome_safe e ts n rid s (semantic_span_branch e vol rid a ts ns n result s)"
proof -
  let ?b = "e_block_size e"
  consider (unaligned) "n mod ?b \<noteq> 0"
    | (multi) "?b dvd n" "c_multi_donor_spans (e_config e)" "1 < len (result_donors result)"
    | (single) "?b dvd n" "\<not> (c_multi_donor_spans (e_config e) \<and> 1 < len (result_donors result))"
    unfolding dvd_eq_mod_eq_0 by (cases "n mod ?b = 0") (argo, argo)
  then show ?thesis
  proof cases
    case unaligned
    then show ?thesis by (simp add: semantic_span_branch_def outcome_safe_zero)
  next
    case multi
    define out where "out = plan_multi_donor_span e vol rid a result ns ts n s"
    have br: "semantic_span_branch e vol rid a ts ns n result s = out"
      using multi by (simp add: semantic_span_branch_def out_def dvd_eq_mod_eq_0)
    show ?thesis unfolding br
    proof (rule multi_donor_cases [OF b multi(1) n out_def [symmetric]], goal_cases)
      case 1
      then show ?case by (cases out) (simp add: outcome_safe_def)
    next
      case 2
      then show ?case using multi mode by (cases out) (simp add: outcome_safe_def)
    next
      case (3 x xs stored)
      have pos: "0 < pieces_total (x # xs)"
        using 3(3) contiguous_le [of "piece_end x" xs "n + pieces_total (x # xs)"] by auto
      obtain s3 where s3: "out = (Inr (pieces_total (x # xs)), s3)" using 3(1) by (cases out) auto
      show ?case unfolding s3
        using 3(2) unfolding s3 snd_conv
        by (rule outcome_safe_plan)
           (use pos 3(4,5) tiles_pieces [OF 3(3)] in \<open>simp_all add: plan_safe_def\<close>)
    qed
  next
    case single
    define out where "out = single_donor_span e vol rid a ts ns n result s"
    have br: "semantic_span_branch e vol rid a ts ns n result s = out"
      using single by (auto simp: semantic_span_branch_def out_def dvd_eq_mod_eq_0)
    show ?thesis unfolding br
    proof (rule single_donor_span_cases [OF b single(1) n out_def [symmetric]], goal_cases)
      case 1
      then show ?case by (cases out) (simp add: outcome_safe_def)
    next
      case (2 c d raw)
      obtain s3 where s3: "out = (Inr c, s3)" using 2(1) by (cases out) auto
      show ?case unfolding s3
        using 2(2) unfolding s3 snd_conv
        by (rule outcome_safe_plan) (use 2(3-5) in \<open>simp_all add: plan_safe_def\<close>)
    qed
  qed
qed

subsection \<open>The whole hook\<close>

lemma memoized_lookup_Inr:
  assumes "memoized_lookup e r rid a ts ns n s = Inr (res, f, qt, s')"
  shows "load_plans s' = load_plans s" and "f \<longleftrightarrow> lookup_cache s rid = None"
    and "lookup_cache s' = (lookup_cache s)(rid \<mapsto> res)" and "\<not> f \<Longrightarrow> provider s' = provider s"
proof -
  obtain t off chars fb s1 where t: "boundary_sliced_text e r ts n Query_text s = ((t, off, chars, fb), s1)"
    by (metis prod.exhaust)
  have m: "text_st.more s1 = text_st.more s"
    using more_sliced [of e r ts n Query_text s] by (simp add: t)
  note same = text_frame(3-) [OF m]
  show "load_plans s' = load_plans s" and "f \<longleftrightarrow> lookup_cache s rid = None"
    and "lookup_cache s' = (lookup_cache s)(rid \<mapsto> res)" and "\<not> f \<Longrightarrow> provider s' = provider s"
    using assms same
    by (auto simp: memoized_lookup_def t Let_def fun_upd_idem split: option.splits prod.splits sum.splits)
qed

lemma memoized_lookup_Inl:
  assumes "memoized_lookup e r rid a ts ns n s = Inl s'"
  shows "load_plans s' = load_plans s" and "lookup_cache s' = lookup_cache s" and "lookup_cache s rid = None"
proof -
  obtain t off chars fb s1 where t: "boundary_sliced_text e r ts n Query_text s = ((t, off, chars, fb), s1)"
    by (metis prod.exhaust)
  have m: "text_st.more s1 = text_st.more s"
    using more_sliced [of e r ts n Query_text s] by (simp add: t)
  note same = text_frame(3-) [OF m]
  show "load_plans s' = load_plans s" and "lookup_cache s' = lookup_cache s" and "lookup_cache s rid = None"
    using assms same
    by (auto simp: memoized_lookup_def t Let_def split: option.splits prod.splits sum.splits)
qed

lemma materialize_hit_safe:
  assumes b: "0 < e_block_size e" and n: "0 \<le> n"
  shows "outcome_safe e ts n rid s (materialize_hit e vol rid a ts ns n f result s)"
  by (auto simp: materialize_hit_def Let_def outcome_safe_zero semantic_span_safe [OF b n]
      request_only_safe [OF b] exact_prefix_safe [OF b n])

lemma match_after_exits_safe:
  assumes b: "0 < e_block_size e" and n: "0 \<le> n"
  shows "outcome_safe e ts n rid s (match_after_exits e vol r rid a ts n s)"
proof -
  let ?ns = "namespace_for_request e r"
  obtain ro s1 where ro: "span_run_ruled_out e rid a ts ?ns n (note_stage e r rid s) = (ro, s1)"
    by fastforce
  have p1: "load_plans s1 = load_plans s"
    using span_run_ruled_out_plans(1) [of e rid a ts ?ns n "note_stage e r rid s"] by (simp add: ro)
  show ?thesis
  proof (cases ro)
    case True
    then show ?thesis using p1 by (simp add: match_after_exits_def ro outcome_safe_zero Let_def)
  next
    case go: False
    show ?thesis
    proof (cases "memoized_lookup e r rid a ts ?ns n s1")
      case (Inl s2)
      then show ?thesis
        using go p1 memoized_lookup_Inl(1) [OF Inl]
        by (simp add: match_after_exits_def ro outcome_safe_zero Let_def)
    next
      case (Inr x)
      then obtain res f qt s2 where x: "memoized_lookup e r rid a ts ?ns n s1 = Inr (res, f, qt, s2)"
        by (metis prod.exhaust)
      have p2: "load_plans s2 = load_plans s" using memoized_lookup_Inr(1) [OF x] p1 by simp
      show ?thesis
      proof (cases res)
        case None
        then show ?thesis
          using go p2 x by (simp add: match_after_exits_def ro outcome_safe_zero Let_def)
      next
        case (Some result)
        have "outcome_safe e ts n rid (note_hit e rid a ?ns n f qt result s2)
            (materialize_hit e vol rid a ts ?ns n f result (note_hit e rid a ?ns n f qt result s2))"
          by (rule materialize_hit_safe [OF b n])
        then have "outcome_safe e ts n rid s
            (materialize_hit e vol rid a ts ?ns n f result (note_hit e rid a ?ns n f qt result s2))"
          by (subst outcome_safe_cong [of s]) (auto simp: p2)
        then show ?thesis
          using go x Some by (simp add: match_after_exits_def ro Let_def)
      qed
    qed
  qed
qed

lemma match_hook_safe:
  assumes b: "0 < e_block_size e" and n: "0 \<le> n"
  shows "outcome_safe e (token_ids_of r) n (request_id_of r) s (get_num_new_matched_tokens e vol r n s)"
proof -
  let ?rid = "request_id_of r" and ?ts = "token_ids_of r"
  obtain a s1 where a: "record_attempt ?rid s = (a, s1)" by fastforce
  define s2 where "s2 = (if a = 0 then bump (SM Lookups_total) s1 else s1)"
  have p: "load_plans s2 = load_plans s"
    using record_attempt_plans(1) [of ?rid s] by (simp add: a s2_def)
  show ?thesis
  proof (cases "early_exits e ?rid a ?ts n s2")
    case (Some s3)
    then show ?thesis
      using early_exit_plans [OF Some] p
      by (simp add: get_num_new_matched_tokens_def a s2_def [symmetric] outcome_safe_zero Let_def)
  next
    case None
    have "outcome_safe e ?ts n ?rid s (match_after_exits e vol r ?rid a ?ts n s2)"
      by (subst outcome_safe_cong [OF p [symmetric]]) (rule match_after_exits_safe [OF b n])
    then show ?thesis
      using None by (simp add: get_num_new_matched_tokens_def a s2_def [symmetric] Let_def)
  qed
qed

end
