(* ===== verification/MatchTheorems.thy ===== *)
theory MatchTheorems
  imports MatchProps
begin

text \<open>
  The properties of \<open>get_num_new_matched_tokens\<close>, with the lemmas that follow a hit from the lookup
  to the plan: which result a plan was made from, and that a call leaves the memoized lookup alone.
\<close>

subsection \<open>What a branch leaves alone\<close>

definition memo ::
  "('p, 'z) match_st_scheme \<Rightarrow>
     (string \<rightharpoonup> lookup_result option) \<times> 'p option \<times> (string \<rightharpoonup> string) \<times> string set \<times> (string \<rightharpoonup> nat) \<times> 'z" where
  "memo s = (lookup_cache s, provider s, segment_namespaces s, stage_requests s, attempts s, match_st.more s)"

lemma memo_audit [simp]: "memo (audit e rid ev s) = memo s" "memo (bump k s) = memo s"
  "memo (bump_by k n s) = memo s"
  by (simp_all add: memo_def)

lemma memo_stored [simp]:
  "memo (snd (stored_donor_token_count e vol d ns s)) = memo s"
  "memo (snd (stored_counts e vol ns ds s)) = memo s"
  using match_part_eq [OF more_stored_count, of e vol d ns s]
    match_part_eq [OF more_stored_counts, of e vol ns ds s]
  by (simp_all add: memo_def)

lemma memo_record [simp]: "memo (snd (record_load_plan rid p s)) = memo s"
  by (simp add: memo_def record_load_plan_def Let_def split: option.splits)

lemma memo_clamp [simp]: "memo (snd (clamp_to_headroom e rid a ts ns n d c s)) = memo s"
  by (simp add: clamp_to_headroom_def Let_def)

lemma memo_no_supply [simp]:
  "memo (suppress_by_mode e rid a ns f r s) = memo s"
  "memo (note_discovery_kind e rid a ns f r s) = memo s"
  "memo (reject_no_safe_plan e vol rid a ns n r s) = memo s"
  by (simp_all add: suppress_by_mode_def note_discovery_kind_def reject_no_safe_plan_def Let_def)
     (simp add: memo_def)

lemma memo_advertise [simp]: "memo (snd (advertise_span e rid a ns n d sp c st s)) = memo s"
proof -
  let ?b = "e_block_size e"
  let ?p = "\<lparr>pn_donor_id = d, pn_token_count = c, pn_kind = K_SEMANTIC_SPAN, pn_namespace = ns,
     pn_boundary = n, pn_donor_start = Some st, pn_target_start = Some (((n + ?b - 1) div ?b) * ?b),
     pn_pieces = []\<rparr>"
  obtain ch s1 where r: "record_load_plan rid ?p s = (ch, s1)" by fastforce
  show ?thesis
    unfolding advertise_span_def Let_def r prod.case using memo_record [of rid ?p s] by (simp add: r)
qed

lemma memo_single [simp]: "memo (snd (single_donor_span e vol rid a ts ns n result s)) = memo s"
proof -
  let ?d = "lr_donor_id result" and ?b = "e_block_size e" and ?c = "e_config e"
  obtain stored s1 where st: "stored_donor_token_count e vol ?d ns s = (stored, s1)" by fastforce
  obtain raws w by' where tr: "trim_segments ?d stored (opt_list (lr_segments result)) = (raws, w, by')"
    by (metis prod.exhaust)
  obtain sup start where su: "supply_at_boundary (block_align_spans raws ?b (c_min_semantic_span ?c)) n ?b
      = (sup, start)" by fastforce
  obtain c s2 where cl: "clamp_to_headroom e rid a ts ns n ?d (min sup (operator_cap e)) s1 = (c, s2)"
    by fastforce
  have "memo s1 = memo s" "memo s2 = memo s1"
    using memo_stored(1) [of e vol ?d ns s] memo_clamp [of e rid a ts ns n ?d "min sup (operator_cap e)" s1]
    by (simp_all add: st cl)
  then show ?thesis
    unfolding single_donor_span_def Let_def st tr su cl prod.case
    by (simp split: option.splits bool.splits)
qed

lemma memo_multi [simp]: "memo (snd (plan_multi_donor_span e vol rid a result ns ts n s)) = memo s"
proof -
  obtain stored s1 where st: "stored_counts e vol ns (result_donors result) s = (stored, s1)" by fastforce
  define ps where "ps = trim_pieces (chain_at_boundary (captured_runs stored (opt_list (lr_segments result)))
      n (e_block_size e)) (n + min (operator_cap e) (prompt_headroom e ts n))"
  have m: "memo s1 = memo s" using memo_stored(2) [of e vol ns "result_donors result" s] by (simp add: st)
  show ?thesis
  proof (cases ps)
    case Nil
    then show ?thesis
      unfolding plan_multi_donor_span_def Let_def st prod.case ps_def [symmetric] using m by simp
  next
    case (Cons x xs)
    let ?p = "\<lparr>pn_donor_id = pc_donor_id x, pn_token_count = pieces_total ps, pn_kind = K_SEMANTIC_SPAN,
         pn_namespace = ns, pn_boundary = n, pn_donor_start = Some (pc_donor_start x),
         pn_target_start = Some n, pn_pieces = map load_piece_of ps\<rparr>"
    obtain ch s2 where r: "record_load_plan rid ?p s1 = (ch, s2)" by fastforce
    have "memo s2 = memo s" using memo_record [of rid ?p s1] m by (simp add: r)
    then show ?thesis
      unfolding plan_multi_donor_span_def Let_def st prod.case ps_def [symmetric]
      using m r [unfolded Cons] by (simp add: Cons)
  qed
qed

lemma memo_request_only [simp]: "memo (snd (request_only_branch e vol rid a ts ns n f result s)) = memo s"
proof -
  obtain stored s1 where st: "stored_donor_token_count e vol (lr_donor_id result) ns s = (stored, s1)"
    by fastforce
  have m: "memo s1 = memo s" using memo_stored(1) [of e vol "lr_donor_id result" ns s] by (simp add: st)
  have "memo (snd (case record_load_plan rid p s1 of (ch, s2) \<Rightarrow>
      (Inr k :: py_error + int, if ch then audit e (Some rid) (ev ch) s2 else s2))) = memo s1" for p k ev
    using memo_record [of rid p s1] by (cases "record_load_plan rid p s1") simp
  then show ?thesis
    unfolding request_only_branch_def Let_def st prod.case using m by simp
qed

lemma memo_exact [simp]: "memo (snd (exact_prefix_branch e rid a ts ns n result s)) = memo s"
proof -
  have "memo (snd (case record_load_plan rid p s of (ch, s2) \<Rightarrow>
      (Inr k :: py_error + int, if ch then audit e (Some rid) (ev ch) s2 else s2))) = memo s" for p k ev
    using memo_record [of rid p s] by (cases "record_load_plan rid p s") simp
  then show ?thesis by (simp add: exact_prefix_branch_def Let_def)
qed

lemma memo_materialize [simp]: "memo (snd (materialize_hit e vol rid a ts ns n f result s)) = memo s"
  by (simp add: materialize_hit_def semantic_span_branch_def Let_def)

subsection \<open>From the hook to the hit\<close>

lemma memory_frames [simp]:
  "memory_store (note_stage e r rid s) = memory_store s"
  "memory_store (snd (record_attempt rid s)) = memory_store s"
  "memory_store (snd (span_run_ruled_out e rid a ts ns n s)) = memory_store s"
  "memory_store (note_hit e rid a ns n f qt r' s) = memory_store s"
  by (simp_all add: note_stage_def record_attempt_def span_run_ruled_out_def note_hit_def Let_def
      split: option.splits sum.splits)

lemma memoized_lookup_memory:
  assumes "memoized_lookup e r rid a ts ns n s = Inr (res, f, qt, s')"
  shows "memory_store s' = memory_store s"
proof -
  obtain t off chars fb s1 where t: "boundary_sliced_text e r ts n Query_text s = ((t, off, chars, fb), s1)"
    by (metis prod.exhaust)
  have m: "text_st.more s1 = text_st.more s"
    using more_sliced [of e r ts n Query_text s] by (simp add: t)
  show ?thesis
    using assms storage_more_eq(1) [OF m]
    by (auto simp: memoized_lookup_def t Let_def split: option.splits prod.splits sum.splits)
qed

lemma donor_length_cong:
  "memory_store s = memory_store t \<Longrightarrow> donor_length e vol s d ns = donor_length e vol t d ns"
  by (simp add: donor_length_def stored_donor_token_count_def Let_def split: option.splits)

text \<open>A call that returns something other than 0 went through every gate and acted on a hit.\<close>

lemma hook_hit:
  assumes out: "get_num_new_matched_tokens e vol r n s = (x, s')" and x: "x \<noteq> Inr 0"
  obtains a f result s2 where
    "materialize_hit e vol (request_id_of r) a (token_ids_of r) (namespace_for_request e r) n f result s2
       = (x, s')"
    "lookup_cache s2 (request_id_of r) = Some (Some result)" "load_plans s2 = load_plans s"
    "memory_store s2 = memory_store s" "e_compat_decline e = None"
    "c_min_prompt_tokens (e_config e) \<le> len (token_ids_of r)" "c_min_boundary_tokens (e_config e) \<le> n"
proof -
  let ?rid = "request_id_of r" and ?ts = "token_ids_of r" and ?ns = "namespace_for_request e r"
  obtain a s1 where a: "record_attempt ?rid s = (a, s1)" by fastforce
  define s2 where "s2 = (if a = 0 then bump (SM Lookups_total) s1 else s1)"
  have p2: "load_plans s2 = load_plans s" "memory_store s2 = memory_store s"
    using record_attempt_plans(1) [of ?rid s] memory_frames(2) [of ?rid s] by (simp_all add: a s2_def)
  have gate: "early_exits e ?rid a ?ts n s2 = None"
    using out x by (cases "early_exits e ?rid a ?ts n s2")
      (auto simp: get_num_new_matched_tokens_def a s2_def [symmetric] Let_def)
  then have after: "match_after_exits e vol r ?rid a ?ts n s2 = (x, s')"
    using out by (simp add: get_num_new_matched_tokens_def a s2_def [symmetric] Let_def)
  obtain ro s3 where ro: "span_run_ruled_out e ?rid a ?ts ?ns n (note_stage e r ?rid s2) = (ro, s3)"
    by fastforce
  have p3: "load_plans s3 = load_plans s2" "memory_store s3 = memory_store s2"
    using span_run_ruled_out_plans(1) [of e ?rid a ?ts ?ns n "note_stage e r ?rid s2"]
      memory_frames(3) [of e ?rid a ?ts ?ns n "note_stage e r ?rid s2"] by (simp_all add: ro)
  have ro': "\<not> ro" using after x by (auto simp: match_after_exits_def ro Let_def)
  obtain res f qt s4 where ml: "memoized_lookup e r ?rid a ?ts ?ns n s3 = Inr (res, f, qt, s4)"
  proof (cases "memoized_lookup e r ?rid a ?ts ?ns n s3")
    case (Inl s5)
    then show thesis using after x ro' by (simp add: match_after_exits_def ro Let_def)
  next
    case (Inr y)
    then show thesis using that by (metis prod.exhaust)
  qed
  obtain result where res: "res = Some result"
    using after x ro' by (cases res) (auto simp: match_after_exits_def ro ml Let_def)
  show thesis
  proof (rule that)
    show "materialize_hit e vol ?rid a ?ts ?ns n f result (note_hit e ?rid a ?ns n f qt result s4) = (x, s')"
      using after ro' by (simp add: match_after_exits_def ro ml res Let_def)
    show "lookup_cache (note_hit e ?rid a ?ns n f qt result s4) ?rid = Some (Some result)"
      using memoized_lookup_Inr(3) [OF ml] by (simp add: res)
    show "load_plans (note_hit e ?rid a ?ns n f qt result s4) = load_plans s"
      using memoized_lookup_Inr(1) [OF ml] p3 p2 by simp
    show "memory_store (note_hit e ?rid a ?ns n f qt result s4) = memory_store s"
      using memoized_lookup_memory [OF ml] p3 p2 by simp
  qed (use gate early_exit_None in blast)+
qed

subsection \<open>Properties\<close>

text \<open>
  C4. What the match hook advertises is safe: the returned count is never negative; a positive count
  is a whole number of blocks and leaves the engine at least one prompt token to compute past it,
  and exactly one plan is recorded, under this request, with this count, at this boundary, written
  from the boundary and tiled by its pieces; a zero count records nothing.
\<close>

theorem match_advertises_safe_plan:
  assumes "0 < e_block_size e" and "0 \<le> n"
    and "get_num_new_matched_tokens e vol r n s = (Inr k, s')"
  shows "0 \<le> k \<and> (k = 0 \<longrightarrow> load_plans s' = load_plans s)
    \<and> (0 < k \<longrightarrow> e_block_size e dvd k \<and> n + k < len (token_ids_of r)
         \<and> (\<exists>p. load_plans s' = (load_plans s)(request_id_of r \<mapsto> p) \<and> pn_token_count p = k
               \<and> plan_safe (e_block_size e) (token_ids_of r) n p))"
  using match_hook_safe [OF assms(1,2), of r s vol]
  unfolding outcome_safe_def assms(3)
  by (auto simp: plan_safe_def split: if_splits)


text \<open>
  Without materialization nothing is ever advertised: in discovery-only mode, and on an engine
  declined at startup, the hook returns 0 on every path and records no plan.
\<close>

theorem discovery_only_never_advertises:
  assumes "\<not> materialization_enabled e" and "0 < e_block_size e" and "0 \<le> n"
  shows "fst (get_num_new_matched_tokens e vol r n s) = Inr 0
    \<and> load_plans (snd (get_num_new_matched_tokens e vol r n s)) = load_plans s"
proof -
  obtain x s' where out: "get_num_new_matched_tokens e vol r n s = (x, s')" by fastforce
  have zero: "x = Inr 0"
  proof (rule ccontr)
    assume nz: "x \<noteq> Inr 0"
    obtain a f result s2 where
      h: "materialize_hit e vol (request_id_of r) a (token_ids_of r) (namespace_for_request e r) n f result s2
       = (x, s')" and c: "e_compat_decline e = None"
      by (rule hook_hit [OF out nz])
    have "c_mode (e_config e) = DISCOVERY_ONLY"
      using assms c by (cases "c_mode (e_config e)") (simp_all add: materialization_enabled_def)
    with h nz show False by (simp add: materialize_hit_def)
  qed
  have "load_plans s' = load_plans s"
    using match_hook_safe [OF assms(2,3), of r s vol] unfolding outcome_safe_def out zero by simp
  then show ?thesis using zero out by simp
qed

text \<open>
  What a plan loads is verbatim: at every position of its window, the tokens the named donor was
  captured from are the prompt's, and the donor's capture reaches that far.
\<close>

definition plan_verbatim ::
  "(string \<Rightarrow> int list) \<Rightarrow> (string \<Rightarrow> int) \<Rightarrow> int list \<Rightarrow> load_plan \<Rightarrow> bool" where
  "plan_verbatim tokens_of captured token_ids p \<longleftrightarrow>
     (if pn_pieces p = []
      then (case (pn_donor_start p, pn_target_start p) of
              (Some d, Some t) \<Rightarrow>
                verbatim (tokens_of (pn_donor_id p)) token_ids d t (pn_token_count p)
                \<and> d + pn_token_count p \<le> captured (pn_donor_id p)
            | _ \<Rightarrow> False)
      else (\<forall>q\<in>set (pn_pieces p).
              verbatim (tokens_of (lp_donor_id q)) token_ids (lp_donor_start q) (lp_target_start q) (lp_token_count q)
              \<and> lp_donor_start q + lp_token_count q \<le> captured (lp_donor_id q)))"

lemma captured_runs_mem:
  assumes "q \<in> set (captured_runs stored gs)"
  shows "\<exists>g\<in>set gs. run_donor_id q = sg_donor_id g \<and> run_donor_start q = sg_donor_start g
      \<and> run_target_start q = sg_target_start g \<and> run_length q \<le> sg_token_count g
      \<and> run_donor_start q + run_length q \<le> stored (sg_donor_id g)"
  using assms by (induction gs) (auto simp: Let_def split: if_splits)

lemma semantic_plan_verbatim:
  assumes b: "0 < e_block_size e" and n: "0 \<le> n"
    and out: "semantic_span_branch e vol rid a ts ns n result s = (Inr k, s')" and k: "0 < k"
    and seg: "\<And>g. g \<in> set (opt_list (lr_segments result)) \<Longrightarrow>
       verbatim (tokens_of (sg_donor_id g)) ts (sg_donor_start g) (sg_target_start g) (sg_token_count g)"
  shows "\<exists>p. load_plans s' rid = Some p \<and> plan_verbatim tokens_of (\<lambda>d. donor_length e vol s d ns) ts p
     \<and> c_min_semantic_span (e_config e) \<le> k \<and> k \<le> operator_cap e"
proof -
  have al: "e_block_size e dvd n"
    using out k by (auto simp: semantic_span_branch_def dvd_eq_mod_eq_0 split: if_splits)
  show ?thesis
  proof (cases "c_multi_donor_spans (e_config e) \<and> 1 < len (result_donors result)")
    case True
    then have m: "plan_multi_donor_span e vol rid a result ns ts n s = (Inr k, s')"
      using out al by (simp add: semantic_span_branch_def dvd_eq_mod_eq_0)
    show ?thesis
    proof (rule multi_donor_cases [OF b al n m], goal_cases)
      case (3 x xs stored)
      let ?P = "\<lambda>y. verbatim (tokens_of (pc_donor_id y)) ts (pc_donor_start y) (pc_target_start y) (pc_token_count y)
         \<and> pc_donor_start y + pc_token_count y \<le> donor_length e vol s (pc_donor_id y) ns"
      have "?P y" if y: "y \<in> set (x # xs)" for y
      proof -
        obtain q where q: "q \<in> set (captured_runs stored (opt_list (lr_segments result)))" "piece_of q y"
          using 3(8) y by blast
        obtain g where g: "g \<in> set (opt_list (lr_segments result))" "run_donor_id q = sg_donor_id g"
          "run_donor_start q = sg_donor_start g" "run_target_start q = sg_target_start g"
          "run_length q \<le> sg_token_count g" "run_donor_start q + run_length q \<le> stored (sg_donor_id g)"
          using captured_runs_mem [OF q(1)] by blast
        have st: "stored (sg_donor_id g) = donor_length e vol s (sg_donor_id g) ns" using 3(9) g(1) by blast
        have "verbatim (tokens_of (sg_donor_id g)) ts (pc_donor_start y) (pc_target_start y) (pc_token_count y)"
          by (rule verbatim_sub [OF seg [OF g(1)]]) (use q(2) g in \<open>auto simp: piece_of_def\<close>)
        then show ?thesis using q(2) g st by (auto simp: piece_of_def)
      qed
      then show ?case using 3(1,2,6,7) by (auto simp: plan_verbatim_def load_piece_of_def)
    qed (use k in auto)
  next
    case False
    then have m: "single_donor_span e vol rid a ts ns n result s = (Inr k, s')"
      using out al by (auto simp: semantic_span_branch_def dvd_eq_mod_eq_0)
    show ?thesis
    proof (rule single_donor_span_cases [OF b al n m], goal_cases)
      case (2 c d raw)
      from 2(8) obtain g where g: "g \<in> set (opt_list (lr_segments result))"
        "sg_donor_id g = lr_donor_id result" "rs_target_start raw = sg_target_start g"
        "rs_donor_start raw = sg_donor_start g"
        "rs_length raw = min (sg_token_count g)
            (donor_length e vol s (lr_donor_id result) ns - sg_donor_start g)"
        unfolding trim_segments_mem by blast
      have "verbatim (tokens_of (lr_donor_id result)) ts d n c"
        by (rule verbatim_sub [OF seg [OF g(1), unfolded g(2)]]) (use 2 g in auto)
      then show ?case using 2 g by (auto simp: plan_verbatim_def)
    qed (use k in auto)
  qed
qed


lemma early_exit_memo:
  "early_exits e rid a ts n s = Some s' \<Longrightarrow> lookup_cache s' = lookup_cache s \<and> provider s' = provider s"
  unfolding early_exits_def
  by (erule first_exit_inv)
     (auto simp: exit_incompatible_def exit_short_prompt_def exit_exact_ratio_def
       exit_below_min_boundary_def exit_remaining_below_min_span_def exit_no_provider_def Let_def
       split: option.splits if_splits)

lemma memoized_lookup_cached:
  "lookup_cache s rid \<noteq> None \<Longrightarrow> memoized_lookup e r rid a ts ns n s = Inr (res, f, qt, s') \<Longrightarrow> s' = s"
  by (auto simp: memoized_lookup_def)


subsection \<open>Witnesses\<close>

definition init_match :: "'p option \<Rightarrow> 'p match_st" where
  "init_match p = \<lparr>stats = (\<lambda>_. 0), audit_log = [], request_seq = Map.empty,
     request_event_seq = Map.empty, next_request_seq = 0, prompt_tokenizer = None,
     prompt_tokenizer_failed = False, memory_store = [], load_plans = Map.empty,
     lookup_cache = Map.empty, attempts = Map.empty, no_safe_plan_reasons = Map.empty,
     stage_requests = {}, segment_namespaces = Map.empty, provider = p\<rparr>"

definition span_env :: "unit env" where
  "span_env = (sample_env silent_provider (default_config\<lparr>c_mode := SEMANTIC_SPAN_EXPERIMENTAL,
      c_min_prompt_tokens := 4, c_min_semantic_span := 2\<rparr>))\<lparr>e_block_size := 2\<rparr>"

definition span_request :: request where
  "span_request = sample_request [1, 2, 3, 4, 5, 6, 7, 8] [(''request_id'', PStr ''q'')]"

definition span_result :: lookup_result where
  "span_result = \<lparr>lr_donor_id = ''d'', lr_similarity = 1, lr_reusable_token_count = 8,
     lr_kind = K_SEMANTIC_SPAN, lr_donor_token_ids = None, lr_block_refs = None,
     lr_segments = Some [\<lparr>sg_donor_id = ''d'', sg_donor_start = 0, sg_target_start = 0,
       sg_token_count = 8, sg_block_refs = None\<rparr>],
     lr_quality_signals = [], lr_metadata = [], lr_reason = None\<rparr>"

definition span_state :: "unit match_st" where
  "span_state = (init_match (Some ()))\<lparr>lookup_cache := [''q'' \<mapsto> Some span_result]\<rparr>"

definition full_volume :: volume where
  "full_volume = (\<lambda>_. Some \<lparr>dd_record = Some (Some 8), dd_layers = [], dd_temp = False\<rparr>)"

lemma span_run: "fst (get_num_new_matched_tokens span_env full_volume span_request 2 span_state) = Inr 4"
  by code_simp
lemma span_cache: "lookup_cache (snd (get_num_new_matched_tokens span_env full_volume span_request 2 span_state)) (request_id_of span_request) = Some (Some span_result)"
  by code_simp

lemma span_hook: "\<exists>s'. get_num_new_matched_tokens span_env full_volume span_request 2 span_state = (Inr 4, s')"
  using fst_run [OF span_run] by blast

lemma span_params: "e_block_size span_env = 2" "c_mode (e_config span_env) = SEMANTIC_SPAN_EXPERIMENTAL"
  "token_ids_of span_request = [1, 2, 3, 4, 5, 6, 7, 8]"
  by (simp_all add: span_env_def sample_env_def span_request_def sample_request_def token_ids_of_def)

theorem match_advertises_safe_plan_witness:
  "\<exists>p. load_plans (snd (get_num_new_matched_tokens span_env full_volume span_request 2 span_state))
         (request_id_of span_request) = Some p \<and> pn_token_count p = 4"
  using match_advertises_safe_plan [OF _ _ fst_run [OF span_run]] by (auto simp: span_params)


definition floorless_env :: "unit env" where
  "floorless_env = (sample_env silent_provider (default_config\<lparr>c_mode := SEMANTIC_SPAN_EXPERIMENTAL,
      c_min_prompt_tokens := 4, c_min_semantic_span := 0, c_multi_donor_spans := True\<rparr>))\<lparr>e_block_size := 2\<rparr>"

definition two_donor_state :: "unit match_st" where
  "two_donor_state = (init_match (Some ()))\<lparr>lookup_cache := [''q'' \<mapsto> Some (span_result\<lparr>lr_segments :=
     Some [\<lparr>sg_donor_id = ''d'', sg_donor_start = 0, sg_target_start = 0, sg_token_count = 8,
            sg_block_refs = None\<rparr>,
           \<lparr>sg_donor_id = ''e'', sg_donor_start = 0, sg_target_start = 0, sg_token_count = 8,
            sg_block_refs = None\<rparr>]\<rparr>)]\<rparr>"

lemma floorless_run:
  "fst (get_num_new_matched_tokens floorless_env Map.empty span_request 2 two_donor_state) = Inl IndexError"
  by code_simp


theorem discovery_only_never_advertises_witness:
  "fst (get_num_new_matched_tokens (span_env\<lparr>e_compat_decline := Some ''cp''\<rparr>) full_volume span_request 2 span_state)
     = Inr 0"
  using discovery_only_never_advertises [of "span_env\<lparr>e_compat_decline := Some ''cp''\<rparr>" 2 full_volume span_request span_state]
  by (simp add: materialization_enabled_def span_params)


end
