(* ===== verification/Segments.thy ===== *)
theory Segments
  imports MatchTheorems
begin

text \<open>
  Segmented prefill: \<open>_segment_runs\<close>, \<open>get_num_new_matched_tokens_mid_prefill\<close> and
  \<open>get_prefill_compute_limit\<close> of \<open>connector.py\<close>. A scheduler asks how far to compute before the next
  reusable segment, computes up to there, and then asks what can be loaded at that position.
\<close>

definition segment_runs ::
  "'p env \<Rightarrow> volume \<Rightarrow> string \<Rightarrow> ('p, 'z) match_st_scheme
     \<Rightarrow> (run list \<times> string) option \<times> ('p, 'z) match_st_scheme" where
  "segment_runs e vol rid s =
     (if c_mode (e_config e) \<noteq> SEMANTIC_SPAN_EXPERIMENTAL then (None, s)
      else case (lookup_cache s rid, segment_namespaces s rid) of
        (Some (Some result), Some ns) \<Rightarrow>
          (if \<not> opt_truthy (lr_segments result) then (None, s)
           else let (stored, s1) = stored_counts e vol ns (result_donors result) s
                in (Some (captured_runs stored (opt_list (lr_segments result)), ns), s1))
      | _ \<Rightarrow> (None, s))"

definition get_num_new_matched_tokens_mid_prefill ::
  "'p env \<Rightarrow> volume \<Rightarrow> request \<Rightarrow> int \<Rightarrow> ('p, 'z) match_st_scheme \<Rightarrow> ('p, 'z) outcome" where
  "get_num_new_matched_tokens_mid_prefill e vol r n s =
     (let rid = request_id_of r; b = e_block_size e
      in if n mod b \<noteq> 0 then (Inr 0, s)
         else let (found, s1) = segment_runs e vol rid s
              in case found of
                   None \<Rightarrow> (Inr 0, s1)
                 | Some (runs, ns) \<Rightarrow>
                     (let pieces = trim_pieces (chain_at_boundary runs n b)
                                     (n + prompt_headroom e (token_ids_of r) n);
                          count = pieces_total pieces
                      in if count < c_min_mid_prefill_segment (e_config e) then (Inr 0, s1)
                         else case pieces of
                           [] \<Rightarrow> (Inl IndexError, s1)
                         | first # _ \<Rightarrow>
                             (let (_, s2) = record_load_plan rid
                                    \<lparr>pn_donor_id = pc_donor_id first, pn_token_count = count,
                                     pn_kind = K_SEMANTIC_SPAN, pn_namespace = ns, pn_boundary = n,
                                     pn_donor_start = Some (pc_donor_start first), pn_target_start = Some n,
                                     pn_pieces = map load_piece_of pieces\<rparr> s1
                              in (Inr count,
                                  audit e (Some rid)
                                    (EP (Segmented_prefill_segment_advertised ns n count (donors_used pieces)))
                                    (bump (SP Segmented_prefill_segments_total) s2)))))"

text \<open>The loop of \<open>get_prefill_compute_limit\<close>: \<open>-(-start // block) * block\<close> is the next block edge.\<close>

fun next_segment_edge :: "int \<Rightarrow> int \<Rightarrow> int \<Rightarrow> run list \<Rightarrow> int option \<Rightarrow> int option" where
  "next_segment_edge b least from [] best = best"
| "next_segment_edge b least from (q # qs) best =
     (let edge = - ((- run_target_start q) div b) * b
      in if edge \<le> from \<or> run_end q < edge + least then next_segment_edge b least from qs best
         else if (case best of None \<Rightarrow> True | Some m \<Rightarrow> edge < m)
           then next_segment_edge b least from qs (Some edge)
         else next_segment_edge b least from qs best)"

definition get_prefill_compute_limit ::
  "'p env \<Rightarrow> volume \<Rightarrow> request \<Rightarrow> int \<Rightarrow> ('p, 'z) match_st_scheme
     \<Rightarrow> int option \<times> ('p, 'z) match_st_scheme" where
  "get_prefill_compute_limit e vol r from s =
     (let (found, s1) = segment_runs e vol (request_id_of r) s
      in case found of
           None \<Rightarrow> (None, s1)
         | Some (runs, _) \<Rightarrow>
             (map_option (\<lambda>m. m - from)
                (next_segment_edge (e_block_size e) (c_min_mid_prefill_segment (e_config e)) from runs None),
              s1))"

subsection \<open>Lemmas\<close>

lemma neg_div_align_up: "0 < b \<Longrightarrow> - ((- p) div b) * b = align_up p b"
proof -
  assume b: "0 < b"
  have "p + (b - 1) = - (- p) + (b - 1)" by simp
  have "(p + b - 1) div b = - ((- p) div b)"
  proof -
    let ?q = "- ((- p) div b)"
    have "(- p) div b * b \<le> - p" "- p < (- p) div b * b + b"
      using align_down_le [OF b, of "- p"] align_down_gt [OF b, of "- p"] by (simp_all add: align_down_def)
    then have "?q * b \<le> p + b - 1" "p + b - 1 < ?q * b + b" by (simp_all add: algebra_simps)
    then show ?thesis using b by (intro int_div_pos_eq [of _ _ _ "p + b - 1 - ?q * b"]) (auto simp: algebra_simps)
  qed
  then show ?thesis by (simp add: align_up_def)
qed

lemma next_segment_edge_Cons:
  assumes "0 < b"
  shows "next_segment_edge b least from (q # qs) best =
     (let edge = align_up (run_target_start q) b
      in if edge \<le> from \<or> run_end q < edge + least then next_segment_edge b least from qs best
         else if (case best of None \<Rightarrow> True | Some m \<Rightarrow> edge < m)
           then next_segment_edge b least from qs (Some edge)
         else next_segment_edge b least from qs best)"
  unfolding next_segment_edge.simps(2) neg_div_align_up [OF assms] ..

declare next_segment_edge.simps(2) [simp del]

lemma next_segment_edge_Some:
  assumes "0 < b" and "next_segment_edge b least from qs best = Some m"
  shows "(best = Some m \<or> (\<exists>q\<in>set qs. m = align_up (run_target_start q) b \<and> from < m \<and> m + least \<le> run_end q))
    \<and> (\<forall>q\<in>set qs. from < align_up (run_target_start q) b \<longrightarrow>
          align_up (run_target_start q) b + least \<le> run_end q \<longrightarrow> m \<le> align_up (run_target_start q) b)
    \<and> (\<forall>m'. best = Some m' \<longrightarrow> m \<le> m')"
  using assms(2)
proof (induction qs arbitrary: best)
  case (Cons q qs)
  note e = next_segment_edge_Cons [OF assms(1)]
  let ?e = "align_up (run_target_start q) b"
  show ?case
  proof (cases "?e \<le> from \<or> run_end q < ?e + least \<or> \<not> (case best of None \<Rightarrow> True | Some m \<Rightarrow> ?e < m)")
    case True
    then have "next_segment_edge b least from qs best = Some m"
      using Cons.prems by (auto simp: e Let_def split: if_splits)
    from Cons.IH [OF this] True show ?thesis by (auto split: option.splits)
  next
    case False
    then have "next_segment_edge b least from qs (Some ?e) = Some m"
      using Cons.prems by (auto simp: e Let_def split: if_splits)
    from Cons.IH [OF this] False show ?thesis by (auto split: option.splits)
  qed
qed simp

lemma segment_runs_plans:
  assumes "segment_runs e vol rid s = (found, s')"
  shows "load_plans s' = load_plans s" and "memo s' = memo s"
    and "\<And>d ns. donor_length e vol s' d ns = donor_length e vol s d ns"
proof -
  have len: "donor_length e vol (snd (stored_counts e vol ns ds s)) d ns' = donor_length e vol s d ns'"
    for ns ds d ns'
  proof (induction ds arbitrary: s)
    case (Cons c ds)
    obtain n s1 where a: "stored_donor_token_count e vol c ns s = (n, s1)" by fastforce
    have "donor_length e vol s1 d ns' = donor_length e vol s d ns'"
      using stored_count_state(2) [OF a]
      by (simp add: donor_length_def stored_donor_token_count_def Let_def split: option.splits)
    then show ?case using Cons.IH [of s1] by (cases "stored_counts e vol ns ds s1") (simp add: a)
  qed simp
  have "s' = s \<or> (\<exists>ns ds. s' = snd (stored_counts e vol ns ds s))"
    using assms by (auto simp: segment_runs_def Let_def split: if_splits option.splits prod.splits)
      (metis snd_conv)+
  then show "load_plans s' = load_plans s" "memo s' = memo s"
    "\<And>d ns. donor_length e vol s' d ns = donor_length e vol s d ns"
    using match_part_eq(1) [OF more_stored_counts] len by auto
qed

text \<open>
  One call at an aligned position in one rule: nothing, the empty chain under a non-positive floor,
  or a plan of chained pieces.
\<close>

lemma mid_prefill_cases:
  assumes b: "0 < e_block_size e" and n: "0 \<le> n"
    and out: "get_num_new_matched_tokens_mid_prefill e vol r n s = out"
  obtains (nothing) "fst out = Inr 0" "load_plans (snd out) = load_plans s"
  | (raised) "fst out = Inl IndexError" "load_plans (snd out) = load_plans s"
      "c_min_mid_prefill_segment (e_config e) \<le> 0"
  | (chain) x xs runs ns s1 where
      "segment_runs e vol (request_id_of r) s = (Some (runs, ns), s1)"
      "fst out = Inr (pieces_total (x # xs))" "load_plans (snd out) = (load_plans s)(request_id_of r \<mapsto>
      \<lparr>pn_donor_id = pc_donor_id x, pn_token_count = pieces_total (x # xs), pn_kind = K_SEMANTIC_SPAN,
       pn_namespace = ns, pn_boundary = n, pn_donor_start = Some (pc_donor_start x),
       pn_target_start = Some n, pn_pieces = map load_piece_of (x # xs)\<rparr>)"
      "e_block_size e dvd n" "contiguous n (x # xs) (n + pieces_total (x # xs))"
      "0 < pieces_total (x # xs)" "e_block_size e dvd pieces_total (x # xs)"
      "n + pieces_total (x # xs) < len (token_ids_of r)"
      "c_min_mid_prefill_segment (e_config e) \<le> pieces_total (x # xs)"
      "\<forall>y\<in>set (x # xs). \<exists>q\<in>set runs. piece_of q y"
proof -
  let ?b = "e_block_size e" and ?rid = "request_id_of r" and ?ts = "token_ids_of r"
  obtain found s1 where f: "segment_runs e vol ?rid s = (found, s1)" by fastforce
  note p1 = segment_runs_plans(1) [OF f]
  show thesis
  proof (cases "n mod ?b \<noteq> 0 \<or> found = None")
    case True
    then have no: "fst out = Inr 0 \<and> load_plans (snd out) = load_plans s"
      using out p1 by (auto simp: get_num_new_matched_tokens_mid_prefill_def f Let_def)
    show thesis by (rule nothing) (use no in auto)
  next
    case False
    then obtain runs ns where fr: "found = Some (runs, ns)" by (metis option.exhaust surj_pair)
    have dv: "?b dvd n" using False by (simp add: dvd_eq_mod_eq_0)
    define ps where "ps = trim_pieces (chain_at_boundary runs n ?b) (n + prompt_headroom e ?ts n)"
    note body = get_num_new_matched_tokens_mid_prefill_def f [unfolded fr] Let_def prod.case option.case
      ps_def [symmetric]
    show thesis
    proof (cases "pieces_total ps < c_min_mid_prefill_segment (e_config e)")
      case True
      then have no: "fst out = Inr 0 \<and> load_plans (snd out) = load_plans s"
        using out [symmetric] p1 False unfolding body by simp
      show thesis by (rule nothing) (use no in auto)
    next
      case fl: False
      show thesis
      proof (cases ps)
        case Nil
        then have no: "fst out = Inl IndexError \<and> load_plans (snd out) = load_plans s"
          using out [symmetric] p1 False fl unfolding body by simp
        have z: "c_min_mid_prefill_segment (e_config e) \<le> 0"
          using fl Nil by (simp add: pieces_total_def)
        show thesis by (rule raised) (use no z in auto)
      next
        case (Cons x xs)
        note tc = trimmed_chain [OF b dv, of runs "prompt_headroom e ?ts n" x xs, folded ps_def, OF Cons]
        let ?p = "\<lparr>pn_donor_id = pc_donor_id x, pn_token_count = pieces_total ps, pn_kind = K_SEMANTIC_SPAN,
           pn_namespace = ns, pn_boundary = n, pn_donor_start = Some (pc_donor_start x),
           pn_target_start = Some n, pn_pieces = map load_piece_of ps\<rparr>"
        obtain ch s2 where rl: "record_load_plan ?rid ?p s1 = (ch, s2)" by fastforce
        have "load_plans s2 = (load_plans s)(?rid \<mapsto> ?p)"
          using record_load_plan_plans [of ?rid ?p s1] p1 by (simp add: rl)
        moreover have "fst out = Inr (pieces_total ps) \<and> load_plans (snd out) = load_plans s2"
          using out [symmetric] False fl rl [unfolded Cons] unfolding body by (simp add: Cons)
        ultimately have res: "fst out = Inr (pieces_total ps)"
          "load_plans (snd out) = (load_plans s)(?rid \<mapsto> ?p)" by simp_all
        have hr: "n + pieces_total (x # xs) < len ?ts"
          using prompt_headroom_bounds(2) [OF b _ n, of ?ts] tc(2,3) by linarith
        have fl': "c_min_mid_prefill_segment (e_config e) \<le> pieces_total (x # xs)"
          using fl unfolding Cons by linarith
        show thesis
          by (rule chain [OF f [unfolded fr] res [unfolded Cons] dv tc(1,2)
                tc(4) [OF prompt_headroom_bounds(3) [OF b dv]] hr fl' tc(5)])
      qed
    qed
  qed
qed

subsection \<open>Properties\<close>

text \<open>
  C21. A segment advertised mid-prefill is as safe as an admission's: the count is never negative; a
  positive one is a whole number of blocks, at least the segment floor, leaves the engine a token to
  compute, and comes with one plan tiled from the position; otherwise no plan is touched. Only the
  empty chain under a non-positive floor raises.
\<close>

theorem mid_prefill_safe_plan:
  assumes "0 < e_block_size e" and "0 \<le> n"
    and "get_num_new_matched_tokens_mid_prefill e vol r n s = (res, s')"
  shows "(case res of
      Inl err \<Rightarrow> err = IndexError \<and> c_min_mid_prefill_segment (e_config e) \<le> 0 \<and> load_plans s' = load_plans s
    | Inr k \<Rightarrow> 0 \<le> k \<and> (k = 0 \<longrightarrow> load_plans s' = load_plans s)
        \<and> (0 < k \<longrightarrow> c_min_mid_prefill_segment (e_config e) \<le> k
             \<and> (\<exists>p. load_plans s' = (load_plans s)(request_id_of r \<mapsto> p) \<and> pn_token_count p = k
                   \<and> plan_safe (e_block_size e) (token_ids_of r) n p)))"
proof (rule mid_prefill_cases [OF assms], goal_cases)
  case (3 x xs runs ns s1)
  let ?k = "pieces_total (x # xs)"
  let ?p = "\<lparr>pn_donor_id = pc_donor_id x, pn_token_count = ?k, pn_kind = K_SEMANTIC_SPAN,
     pn_namespace = ns, pn_boundary = n, pn_donor_start = Some (pc_donor_start x),
     pn_target_start = Some n, pn_pieces = map load_piece_of (x # xs)\<rparr>"
  have "plan_safe (e_block_size e) (token_ids_of r) n ?p"
    unfolding plan_safe_def using 3(6-8) tiles_pieces [OF 3(5)] by simp
  moreover have "res = Inr ?k" "load_plans s' = (load_plans s)(request_id_of r \<mapsto> ?p)"
    using 3(2,3) by simp_all
  ultimately show ?case using 3(6,9) by (auto intro!: exI [of _ ?p])
qed simp_all

text \<open>
  The compute limit is the nearest usable edge: it is positive, the position it stops at is on a
  block edge inside a captured run of the memoized result with at least the segment floor of that
  run left, and no earlier edge past \<open>compute_from\<close> has that property.
\<close>

theorem compute_limit_nearest_edge:
  assumes "0 < e_block_size e"
    and "get_prefill_compute_limit e vol r from s = (Some d, s')"
  shows "0 < d \<and> e_block_size e dvd from + d
    \<and> (\<exists>runs ns. fst (segment_runs e vol (request_id_of r) s) = Some (runs, ns)
         \<and> (\<exists>q\<in>set runs. run_target_start q \<le> from + d
              \<and> from + d + c_min_mid_prefill_segment (e_config e) \<le> run_end q)
         \<and> (\<forall>q\<in>set runs. \<forall>p. e_block_size e dvd p \<longrightarrow> from < p \<longrightarrow> run_target_start q \<le> p
              \<longrightarrow> p < run_target_start q + e_block_size e
              \<longrightarrow> p + c_min_mid_prefill_segment (e_config e) \<le> run_end q \<longrightarrow> from + d \<le> p))"
proof -
  let ?b = "e_block_size e" and ?m = "c_min_mid_prefill_segment (e_config e)"
  obtain runs ns where f: "fst (segment_runs e vol (request_id_of r) s) = Some (runs, ns)"
    and e: "next_segment_edge ?b ?m from runs None = Some (from + d)"
    using assms(2)
    by (auto simp: get_prefill_compute_limit_def Let_def split: prod.splits option.splits)
  note n = next_segment_edge_Some [OF assms(1) e]
  have up: "p = align_up t ?b" if "?b dvd p" "t \<le> p" "p < t + ?b" for p t
  proof -
    have "?b dvd p - align_up t ?b" using that(1) by (simp add: dvd_diff)
    moreover have "\<bar>p - align_up t ?b\<bar> < ?b"
      using that(2,3) align_up_ge [OF assms(1), of t] align_up_lt [OF assms(1), of t] by linarith
    ultimately have "p - align_up t ?b = 0" by (metis dvd_imp_le_int not_less abs_of_pos assms(1))
    then show ?thesis by simp
  qed
  from n obtain q where q: "q \<in> set runs" "from + d = align_up (run_target_start q) ?b" "from < from + d"
    "from + d + ?m \<le> run_end q" by blast
  have "run_target_start q \<le> from + d" unfolding q(2) using assms(1) by simp
  moreover have "?b dvd from + d" unfolding q(2) by simp
  moreover have "from + d \<le> p"
    if "q' \<in> set runs" "?b dvd p" "from < p" "run_target_start q' \<le> p" "p < run_target_start q' + ?b"
      "p + ?m \<le> run_end q'" for q' p
    using n that up [OF that(2,4,5)] by simp
  ultimately show ?thesis using f q by auto
qed

lemma stored_counts_fst:
  "fst (stored_counts e vol ns ds s) = (\<lambda>d. if d \<in> set ds then donor_length e vol s d ns else 0)"
proof (induction ds arbitrary: s)
  case (Cons c ds)
  obtain n s1 where a: "stored_donor_token_count e vol c ns s = (n, s1)" by fastforce
  have len: "donor_length e vol s1 d ns = donor_length e vol s d ns" for d
    using stored_count_state(2) [OF a]
    by (simp add: donor_length_def stored_donor_token_count_def Let_def split: option.splits)
  have n: "donor_length e vol s c ns = n" by (simp add: donor_length_def a)
  have "fst (stored_counts e vol ns (c # ds) s) = (fst (stored_counts e vol ns ds s1))(c := n)"
    by (cases "stored_counts e vol ns ds s1") (simp add: a)
  then show ?case by (auto simp: Cons.IH len n fun_eq_iff)
qed simp

text \<open>What the runs are, apart from the state the reads leave.\<close>

lemma segment_runs_fst:
  "fst (segment_runs e vol rid s) =
     (if c_mode (e_config e) \<noteq> SEMANTIC_SPAN_EXPERIMENTAL then None
      else case (lookup_cache s rid, segment_namespaces s rid) of
        (Some (Some result), Some ns) \<Rightarrow>
          (if \<not> opt_truthy (lr_segments result) then None
           else Some (captured_runs (\<lambda>d. if d \<in> set (result_donors result) then donor_length e vol s d ns else 0)
                        (opt_list (lr_segments result)), ns))
      | _ \<Rightarrow> None)"
  unfolding stored_counts_fst [symmetric]
  by (auto simp: segment_runs_def Let_def split: option.splits prod.splits)

lemma segment_runs_again:
  assumes "segment_runs e vol rid s = (found, s')"
  shows "fst (segment_runs e vol rid s') = found"
proof -
  have "lookup_cache s' = lookup_cache s" "segment_namespaces s' = segment_namespaces s"
    using segment_runs_plans(2) [OF assms] by (simp_all add: memo_def)
  moreover have "found = fst (segment_runs e vol rid s)" by (simp add: assms)
  ultimately show ?thesis by (simp only: segment_runs_fst segment_runs_plans(3) [OF assms])
qed


subsection \<open>Witnesses\<close>

definition seg_env :: "int \<Rightarrow> unit env" where
  "seg_env least = (sample_env silent_provider (default_config\<lparr>c_mode := SEMANTIC_SPAN_EXPERIMENTAL,
      c_min_mid_prefill_segment := least\<rparr>))\<lparr>e_block_size := 2\<rparr>"

definition seg_request :: request where
  "seg_request = sample_request [1, 2, 3, 4, 5, 6, 7, 8, 9, 10, 11, 12] [(''request_id'', PStr ''q'')]"

definition seg_state :: "int \<Rightarrow> unit match_st" where
  "seg_state n = (init_match (Some ()))\<lparr>
     lookup_cache := [''q'' \<mapsto> Some (span_result\<lparr>lr_segments := Some [\<lparr>sg_donor_id = ''d'',
        sg_donor_start = 0, sg_target_start = 4, sg_token_count = n, sg_block_refs = None\<rparr>]\<rparr>)],
     segment_namespaces := [''q'' \<mapsto> ''n'']\<rparr>"

lemma seg_limit_run: "fst (get_prefill_compute_limit (seg_env 4) full_volume seg_request 1 (seg_state 8)) = Some 3"
  by code_simp

lemma seg_prefill_run:
  "fst (get_num_new_matched_tokens_mid_prefill (seg_env 4) full_volume seg_request 4 (seg_state 8)) = Inr 6"
  by code_simp

lemma seg_params: "e_block_size (seg_env m) = 2" "c_min_mid_prefill_segment (e_config (seg_env m)) = m"
  "token_ids_of seg_request = [1, 2, 3, 4, 5, 6, 7, 8, 9, 10, 11, 12]"
  by (simp_all add: seg_env_def sample_env_def seg_request_def sample_request_def token_ids_of_def)

theorem mid_prefill_safe_plan_witness:
  "\<exists>p. load_plans (snd (get_num_new_matched_tokens_mid_prefill (seg_env 4) full_volume seg_request 4 (seg_state 8)))
         (request_id_of seg_request) = Some p \<and> pn_token_count p = 6"
  using mid_prefill_safe_plan [OF _ _ fst_run [OF seg_prefill_run]] by (auto simp: seg_params)

theorem compute_limit_nearest_edge_witness:
  "0 < (3 :: int) \<and> e_block_size (seg_env 4) dvd 1 + 3"
  using compute_limit_nearest_edge [OF _ fst_run [OF seg_limit_run]] by (auto simp: seg_params)


text \<open>
  A segment floor that is no multiple of the block size breaks the agreement: with blocks of 2
  and a floor of 3, a run of 3 tokens past its edge makes the compute limit stop there, and the
  position it stops at is then advertised nothing, because the chain ends on a block edge.
\<close>

theorem compute_limit_unaligned_floor:
  "fst (get_prefill_compute_limit (seg_env 3) full_volume seg_request 1 (seg_state 3)) = Some 3
   \<and> fst (get_num_new_matched_tokens_mid_prefill (seg_env 3) full_volume seg_request (1 + 3) (seg_state 3)) = Inr 0"
  by code_simp

end
