(* ===== verification/Fills.thy ===== *)
theory Fills
  imports Segments
begin

text \<open>
  From an advertised plan to a committed load, and keeping its blocks out of vLLM's exact prefix
  cache: \<open>update_state_after_alloc\<close>, \<open>_track_running_fills\<close>, \<open>_track_filled_blocks\<close> and what they
  call. The block pool is vLLM's: \<open>gpu_pool\<close> holds what the code reads of it, and \<open>evict_blocks\<close> is
  the parameter \<open>evict\<close>, \<open>None\<close> when it raises. The environment may change the pool between hooks.
\<close>

subsection \<open>The scheduler's output\<close>

text \<open>
  The parallel lists of \<open>CachedRequestData\<close>, which the code zips with \<open>strict=True\<close>, are one list of
  rows. \<open>so_cached\<close> and \<open>so_num_scheduled\<close> are \<open>None\<close> when the attribute is missing.
\<close>

record cached_row =
  cr_req_id :: string
  cr_new_block_ids :: block_ids_arg
  cr_num_computed_tokens :: int
  cr_num_output_tokens :: int

record scheduler_output =
  so_finished_req_ids :: "string list"
  so_new_reqs :: "request list"
  so_cached :: "(cached_row list \<times> string set) option"
  so_num_scheduled :: "(string \<rightharpoonup> int) option"

subsection \<open>State\<close>

record gpu_pool =
  gp_block_count :: "nat option"
  gp_hashed :: "nat \<Rightarrow> bool"
  gp_cached_by_block :: "nat set"
  gp_null_block :: "nat option"
  gp_hash_block_size :: int

record filled_state =
  fb_block_ids :: block_table
  fb_first_approx_block :: int
  fb_donor_id :: string
  fb_namespace :: string
  fb_settled :: "nat set"
  fb_scan_from :: int

record 'p fill_st = "'p match_st" +
  pending_loads :: "(string, pending_load) odict"
  served_request_ids :: "string set"
  gpu_block_pool :: "gpu_pool option"
  filled_blocks :: "string \<rightharpoonup> filled_state"
  reported_fill_blocks :: "string \<rightharpoonup> nat set"

definition bind_gpu_block_pool :: "gpu_pool \<Rightarrow> ('p, 'z) fill_st_scheme \<Rightarrow> ('p, 'z) fill_st_scheme" where
  "bind_gpu_block_pool pool s = s\<lparr>gpu_block_pool := Some pool\<rparr>"

subsection \<open>Which blocks a pass acts on\<close>

definition block_is_cached :: "gpu_pool \<Rightarrow> nat \<Rightarrow> bool" where
  "block_is_cached pool b =
     (case gp_block_count pool of
        None \<Rightarrow> False
      | Some n \<Rightarrow> if n \<le> b then False
                  else if gp_hashed pool b then True
                  else b \<in> gp_cached_by_block pool)"

definition cached_fill_blocks :: "gpu_pool \<Rightarrow> filled_state \<Rightarrow> nat set" where
  "cached_fill_blocks pool st =
     (let start = max (fb_first_approx_block st) (fb_scan_from st)
      in set (filter (\<lambda>b. gp_null_block pool \<noteq> Some b \<and> b \<notin> fb_settled st \<and> block_is_cached pool b)
                (concat (map (drop (nat start)) (fb_block_ids st)))))"

text \<open>\<open>while cursor < len(head) and head[cursor] in settled\<close>, from the head's suffix at the cursor.\<close>

fun settled_prefix :: "nat set \<Rightarrow> nat list \<Rightarrow> int" where
  "settled_prefix settled [] = 0"
| "settled_prefix settled (b # bs) = (if b \<in> settled then 1 + settled_prefix settled bs else 0)"

definition settle :: "filled_state \<Rightarrow> nat set \<Rightarrow> filled_state" where
  "settle st handled =
     (let settled = fb_settled st \<union> handled;
          head = (case fb_block_ids st of [] \<Rightarrow> [] | g # _ \<Rightarrow> g);
          cursor = max (fb_first_approx_block st) (fb_scan_from st)
      in st\<lparr>fb_settled := settled,
            fb_scan_from := cursor + settled_prefix settled (drop (nat cursor) head)\<rparr>)"

definition reported_blocks :: "('p, 'z) fill_st_scheme \<Rightarrow> string \<Rightarrow> nat set" where
  "reported_blocks s rid = (case reported_fill_blocks s rid of None \<Rightarrow> {} | Some bs \<Rightarrow> bs)"

definition settle_and_count ::
  "string \<Rightarrow> filled_state \<Rightarrow> nat set \<Rightarrow> ('p, 'z) fill_st_scheme \<Rightarrow> filled_state \<times> ('p, 'z) fill_st_scheme" where
  "settle_and_count rid st handled s =
     (settle st handled,
      s\<lparr>reported_fill_blocks := (reported_fill_blocks s)(rid \<mapsto> reported_blocks s rid \<union> handled)\<rparr>)"

definition table_blocks :: "block_table \<Rightarrow> int" where
  "table_blocks t = sum_list (map (\<lambda>g. len g) t)"

subsection \<open>One pass\<close>

definition note_filled_blocks_left_cached ::
  "'p env \<Rightarrow> string \<Rightarrow> filled_state \<Rightarrow> fill_phase \<Rightarrow> ('p, 'z) fill_st_scheme
     \<Rightarrow> filled_state \<times> ('p, 'z) fill_st_scheme" where
  "note_filled_blocks_left_cached e rid st phase s =
     (case gpu_block_pool s of
        None \<Rightarrow> (st, bump (SF Prefix_cache_left_cached_passes_without_pool) s)
      | Some pool \<Rightarrow>
          (let scanned = cached_fill_blocks pool st;
               reported = reported_blocks s rid;
               first_seen = scanned - reported
           in if scanned = {} then (st, s)
              else settle_and_count rid st scanned
                (audit e (Some rid)
                  (EF (Blocks_left_cached (rid \<in> stage_requests s) (fb_donor_id st) (fb_namespace st) phase
                         (int (card scanned)) (int (card (fb_settled st)) + int (card scanned))
                         (int (card first_seen)) (int (card (reported \<union> scanned)))
                         (sorted_list_of_set scanned) (fb_first_approx_block st)
                         (table_blocks (fb_block_ids st))))
                  (bump_by (SF Prefix_cache_distinct_blocks_left_cached) (int (card first_seen))
                    (bump_by (SF Prefix_cache_blocks_left_cached) (int (card scanned)) s)))))"

definition evict_filled_blocks ::
  "'p env \<Rightarrow> (gpu_pool \<Rightarrow> nat set \<Rightarrow> gpu_pool option) \<Rightarrow> string \<Rightarrow> filled_state \<Rightarrow> fill_phase
     \<Rightarrow> ('p, 'z) fill_st_scheme \<Rightarrow> (py_error + filled_state) \<times> ('p, 'z) fill_st_scheme" where
  "evict_filled_blocks e evict rid st phase s =
     (case gpu_block_pool s of
        None \<Rightarrow> (Inr st, bump (SF Prefix_cache_eviction_passes_without_pool) s)
      | Some pool \<Rightarrow>
          (let hash_block_size = (if gp_hash_block_size pool = 0 then e_block_size e
                                  else gp_hash_block_size pool)
           in if hash_block_size \<noteq> e_block_size e then (Inl AssertionError, s)
              else let to_evict = cached_fill_blocks pool st
                in if to_evict = {} then (Inr st, s)
                   else case evict pool to_evict of
                     None \<Rightarrow> (Inr st, bump (SF Prefix_cache_eviction_error_passes) s)
                   | Some pool' \<Rightarrow>
                       (let s1 = s\<lparr>gpu_block_pool := Some pool'\<rparr>;
                            reported = reported_blocks s1 rid;
                            first_seen = to_evict - reported;
                            (st', s2) = settle_and_count rid st to_evict
                              (audit e (Some rid)
                                (EF (Blocks_evicted (fb_donor_id st) (fb_namespace st) phase
                                       (int (card to_evict)) (int (card (fb_settled st)) + int (card to_evict))
                                       (int (card first_seen)) (int (card (reported \<union> to_evict)))
                                       (fb_first_approx_block st) (table_blocks (fb_block_ids st))))
                                (bump_by (SF Prefix_cache_distinct_blocks_evicted) (int (card first_seen))
                                  (bump_by (SF Prefix_cache_blocks_evicted) (int (card to_evict)) s1)))
                        in (Inr st', s2))))"

definition track_filled_blocks ::
  "'p env \<Rightarrow> (gpu_pool \<Rightarrow> nat set \<Rightarrow> gpu_pool option) \<Rightarrow> string \<Rightarrow> filled_state \<Rightarrow> fill_phase
     \<Rightarrow> ('p, 'z) fill_st_scheme \<Rightarrow> (py_error + filled_state) \<times> ('p, 'z) fill_st_scheme" where
  "track_filled_blocks e evict rid st phase s =
     (if c_evict_filled_blocks_from_prefix_cache (e_config e) \<and> rid \<notin> stage_requests s
      then evict_filled_blocks e evict rid st phase s
      else let (st', s') = note_filled_blocks_left_cached e rid st phase s in (Inr st', s'))"

subsection \<open>After allocation\<close>

definition pending_load_of :: "string \<Rightarrow> load_plan \<Rightarrow> block_table \<Rightarrow> pending_load" where
  "pending_load_of rid p blocks =
     \<lparr>pl_request_id = rid, pl_donor_id = pn_donor_id p, pl_token_count = pn_token_count p,
      pl_kind = pn_kind p, pl_namespace = pn_namespace p, pl_block_ids = Some blocks,
      pl_donor_start = pn_donor_start p, pl_target_start = pn_target_start p, pl_pieces = pn_pieces p\<rparr>"

definition fresh_fill :: "'p env \<Rightarrow> load_plan \<Rightarrow> block_table \<Rightarrow> filled_state" where
  "fresh_fill e p blocks =
     \<lparr>fb_block_ids = blocks,
      fb_first_approx_block = (case pn_target_start p of None \<Rightarrow> 0 | Some t \<Rightarrow> t) div e_block_size e,
      fb_donor_id = pn_donor_id p, fb_namespace = pn_namespace p, fb_settled = {}, fb_scan_from = 0\<rparr>"

text \<open>\<open>blocks\<close> is what \<open>get_block_ids(allow_none=True)\<close> answers.\<close>

definition update_state_after_alloc ::
  "'p env \<Rightarrow> (gpu_pool \<Rightarrow> nat set \<Rightarrow> gpu_pool option) \<Rightarrow> request \<Rightarrow> block_table option \<Rightarrow> int
     \<Rightarrow> ('p, 'z) fill_st_scheme \<Rightarrow> (py_error + unit) \<times> ('p, 'z) fill_st_scheme" where
  "update_state_after_alloc e evict r blocks num_external s =
     (let rid = request_id_of r;
          plan = load_plans s rid;
          s1 = s\<lparr>filled_blocks := (filled_blocks s)(rid := None),
                 load_plans := (load_plans s)(rid := None)\<rparr>
      in if num_external \<le> 0
         then (Inr (), case plan of
                 None \<Rightarrow> s1
               | Some p \<Rightarrow>
                   audit e (Some rid)
                     (EF (Ev_load_dropped_before_alloc (pn_donor_id p) (pn_namespace p)
                            (pn_token_count p) (pn_kind p) num_external))
                     (bump (SF Load_dropped_before_alloc) s1))
         else case plan of
           None \<Rightarrow> (Inr (), audit e (Some rid) (EF (Ev_alloc_without_pending_load num_external))
                             (bump (SF Alloc_without_pending_load) s1))
         | Some p \<Rightarrow>
             (case blocks of
                None \<Rightarrow> (Inr (),
                  audit e (Some rid)
                    (EF (Ev_load_declined_no_blocks (pn_donor_id p) (pn_namespace p) (pn_token_count p) (pn_kind p)))
                    (bump (SF Load_declined_no_blocks) s1))
              | Some table \<Rightarrow>
                  (let s2 = s1\<lparr>pending_loads := od_set (pending_loads s1) rid (pending_load_of rid p table),
                               served_request_ids := insert rid (served_request_ids s1)\<rparr>;
                       s3 = audit e (Some rid)
                              (EF (Ev_load_allocated (pn_donor_id p) (pn_namespace p) (pn_token_count p)
                                     (pn_kind p) (table_blocks table))) s2
                   in case track_filled_blocks e evict rid (fresh_fill e p table) Load_allocated_phase s3 of
                        (Inl err, s4) \<Rightarrow> (Inl err, s4)
                      | (Inr st, s4) \<Rightarrow> (Inr (), s4\<lparr>filled_blocks := (filled_blocks s4)(rid \<mapsto> st)\<rparr>))))"

subsection \<open>Running steps\<close>

definition extend_block_table ::
  "block_table \<Rightarrow> block_table option \<Rightarrow> bool \<Rightarrow> py_error + block_table" where
  "extend_block_table current added replace_table =
     (case added of
        None \<Rightarrow> Inr current
      | Some new \<Rightarrow>
          if replace_table then Inr new
          else if length current \<noteq> length new then Inl ValueError
          else Inr (map (\<lambda>(old, more). old @ more) (zip current new)))"

fun track_rows ::
  "'p env \<Rightarrow> (gpu_pool \<Rightarrow> nat set \<Rightarrow> gpu_pool option) \<Rightarrow> string set \<Rightarrow> cached_row list
     \<Rightarrow> ('p, 'z) fill_st_scheme \<Rightarrow> (py_error + unit) \<times> ('p, 'z) fill_st_scheme" where
  "track_rows e evict resumed [] s = (Inr (), s)"
| "track_rows e evict resumed (row # rows) s =
     (let rid = cr_req_id row
      in case filled_blocks s rid of
           None \<Rightarrow> track_rows e evict resumed rows s
         | Some st \<Rightarrow>
             (case extend_block_table (fb_block_ids st) (normalize_block_ids (cr_new_block_ids row))
                     (rid \<in> resumed) of
                Inl err \<Rightarrow> (Inl err, s)
              | Inr table \<Rightarrow>
                  (let next_st = st\<lparr>fb_block_ids := table,
                         fb_settled := (if rid \<in> resumed then {} else fb_settled st),
                         fb_scan_from := (if rid \<in> resumed then 0 else fb_scan_from st)\<rparr>
                   in case track_filled_blocks e evict rid next_st Running_step_phase s of
                        (Inl err, s1) \<Rightarrow> (Inl err, s1)
                      | (Inr st', s1) \<Rightarrow>
                          track_rows e evict resumed rows
                            (s1\<lparr>filled_blocks := (filled_blocks s1)(rid \<mapsto> st')\<rparr>))))"

definition retire_fills :: "string list \<Rightarrow> ('p, 'z) fill_st_scheme \<Rightarrow> ('p, 'z) fill_st_scheme" where
  "retire_fills finished s =
     s\<lparr>filled_blocks := filled_blocks s |` (- set finished),
       reported_fill_blocks := reported_fill_blocks s |` (- set finished)\<rparr>"

text \<open>The early return on an empty map of tracked requests only skips rows that are skipped anyway.\<close>

definition track_running_fills ::
  "'p env \<Rightarrow> (gpu_pool \<Rightarrow> nat set \<Rightarrow> gpu_pool option) \<Rightarrow> scheduler_output
     \<Rightarrow> ('p, 'z) fill_st_scheme \<Rightarrow> (py_error + unit) \<times> ('p, 'z) fill_st_scheme" where
  "track_running_fills e evict out s =
     (let s1 = retire_fills (so_finished_req_ids out) s
      in case so_cached out of
           None \<Rightarrow> (Inr (), s1)
         | Some (rows, resumed) \<Rightarrow> track_rows e evict resumed rows s1)"

end
