(* ===== verification/FillProps.thy ===== *)
theory FillProps
  imports Fills
begin

text \<open>
  What the filled-block passes guarantee: the eviction pass takes exactly the approximate blocks out
  of the prefix cache and nothing else, each distinct block is counted once per request, and a load
  is pending exactly for the requests that were served.
\<close>

subsection \<open>Frames\<close>

lemma fill_part_eq:
  assumes "match_st.more s = match_st.more t"
  shows "pending_loads s = pending_loads t" and "served_request_ids s = served_request_ids t"
    and "gpu_block_pool s = gpu_block_pool t" and "filled_blocks s = filled_blocks t"
    and "reported_fill_blocks s = reported_fill_blocks t" and "fill_st.more s = fill_st.more t"
  using assms by (cases s; cases t; simp)+

lemmas fill_audit_frame = fill_part_eq [OF audit_frame(13)]
lemmas fill_bump_frame = fill_part_eq [OF bump_frame(13)] fill_part_eq [OF bump_frame(26)]

declare fill_audit_frame [simp] fill_bump_frame [simp]

subsection \<open>The scan\<close>

definition tracked_blocks :: "filled_state \<Rightarrow> nat set" where
  "tracked_blocks st =
     set (concat (map (drop (nat (fb_first_approx_block st))) (fb_block_ids st)))"

text \<open>
  One KV-cache group, as the startup gate guarantees; everything between the first approximate block
  and the scan position is settled.
\<close>

definition fill_inv :: "filled_state \<Rightarrow> bool" where
  "fill_inv st \<longleftrightarrow>
     0 \<le> fb_first_approx_block st \<and> 0 \<le> fb_scan_from st \<and> finite (fb_settled st)
     \<and> (\<exists>head. fb_block_ids st = [head]
          \<and> (\<forall>i < length head. fb_first_approx_block st \<le> int i \<longrightarrow> int i < fb_scan_from st
                \<longrightarrow> head ! i \<in> fb_settled st))"

text \<open>The blocks a pass has to act on.\<close>

definition unsettled_cached :: "gpu_pool \<Rightarrow> filled_state \<Rightarrow> nat set" where
  "unsettled_cached pool st =
     {b \<in> tracked_blocks st. gp_null_block pool \<noteq> Some b \<and> b \<notin> fb_settled st \<and> block_is_cached pool b}"

lemma finite_cached_fill [simp]: "finite (cached_fill_blocks pool st)"
  by (simp add: cached_fill_blocks_def Let_def)

lemma in_set_drop_nth: "x \<in> set (drop n xs) \<longleftrightarrow> (\<exists>i < length xs. n \<le> i \<and> xs ! i = x)"
  by (auto simp: in_set_conv_nth) (metis add.commute le_add1 less_diff_conv, metis diff_less_mono le_add_diff_inverse)

text \<open>Starting at the scan position loses nothing.\<close>

lemma scan_complete:
  assumes "fill_inv st"
  shows "cached_fill_blocks pool st = unsettled_cached pool st"
proof -
  obtain head where head: "fb_block_ids st = [head]"
    and inv: "\<And>i. i < length head \<Longrightarrow> fb_first_approx_block st \<le> int i \<Longrightarrow> int i < fb_scan_from st
        \<Longrightarrow> head ! i \<in> fb_settled st"
    and nn: "0 \<le> fb_first_approx_block st" "0 \<le> fb_scan_from st"
    using assms unfolding fill_inv_def by blast
  let ?f = "fb_first_approx_block st" and ?c = "fb_scan_from st"
  have "b \<in> set (drop (nat (max ?f ?c)) head)" if "b \<in> set (drop (nat ?f) head)" "b \<notin> fb_settled st" for b
  proof -
    obtain i where i: "i < length head" "nat ?f \<le> i" "head ! i = b"
      using \<open>b \<in> set (drop (nat ?f) head)\<close> unfolding in_set_drop_nth by blast
    have "\<not> int i < ?c" using inv [OF i(1)] i(2,3) that(2) by (auto simp: nat_le_iff)
    then have "nat (max ?f ?c) \<le> i" using i(2) by auto
    then show ?thesis using i(1,3) unfolding in_set_drop_nth by blast
  qed
  moreover have "set (drop (nat (max ?f ?c)) head) \<subseteq> set (drop (nat ?f) head)"
    by (intro set_drop_subset_set_drop) (auto simp: nat_mono)
  ultimately show ?thesis
    by (auto simp: cached_fill_blocks_def unsettled_cached_def tracked_blocks_def head Let_def)
qed

lemma settled_prefix_nth:
  "0 \<le> settled_prefix S xs" "i < nat (settled_prefix S xs) \<Longrightarrow> i < length xs \<and> xs ! i \<in> S"
proof (induction xs arbitrary: i)
  case (Cons b bs)
  { case 1 show ?case using Cons(1) by simp }
  { case 2
    then show ?case
      using Cons(1) Cons(2) [of "i - 1"]
      by (cases i) (auto simp: nat_add_distrib split: if_splits) }
qed simp_all

lemma settle_inv:
  assumes "fill_inv st" and "finite handled"
  shows "fill_inv (settle st handled)" and "fb_settled (settle st handled) = fb_settled st \<union> handled"
    and "tracked_blocks (settle st handled) = tracked_blocks st"
proof -
  obtain head where head: "fb_block_ids st = [head]"
    and inv: "\<And>i. i < length head \<Longrightarrow> fb_first_approx_block st \<le> int i \<Longrightarrow> int i < fb_scan_from st
        \<Longrightarrow> head ! i \<in> fb_settled st"
    and nn: "0 \<le> fb_first_approx_block st" "0 \<le> fb_scan_from st" "finite (fb_settled st)"
    using assms(1) unfolding fill_inv_def by blast
  let ?S = "fb_settled st \<union> handled" and ?c = "max (fb_first_approx_block st) (fb_scan_from st)"
  let ?p = "settled_prefix ?S (drop (nat ?c) head)"
  have "head ! i \<in> ?S"
    if "i < length head" "fb_first_approx_block st \<le> int i" "int i < ?c + ?p" for i
  proof (cases "int i < ?c")
    case True
    then show ?thesis using inv [OF that(1,2)] that(2) by (auto simp: max_def split: if_splits)
  next
    case False
    then have "i - nat ?c < nat ?p" using that(3) nn by linarith
    from settled_prefix_nth(2) [OF this] show ?thesis using False nn that(1) by auto
  qed
  then show "fill_inv (settle st handled)"
    using nn assms(2) settled_prefix_nth(1) [of ?S "drop (nat ?c) head"]
    by (auto simp: fill_inv_def settle_def head Let_def)
qed (simp_all add: settle_def tracked_blocks_def Let_def)

subsection \<open>One pass\<close>

text \<open>The documented behaviour of \<open>BlockPool.evict_blocks\<close>: it drops the hash entries it is given.\<close>

definition evicts_exactly :: "(gpu_pool \<Rightarrow> nat set \<Rightarrow> gpu_pool option) \<Rightarrow> bool" where
  "evicts_exactly evict \<longleftrightarrow>
     (\<forall>pool S pool'. evict pool S = Some pool' \<longrightarrow>
        (\<forall>b. block_is_cached pool' b \<longleftrightarrow> block_is_cached pool b \<and> b \<notin> S))"

lemma reported_frames [simp]:
  "reported_blocks (audit e r ev s) rid = reported_blocks s rid"
  "reported_blocks (bump k s) rid = reported_blocks s rid"
  "reported_blocks (bump_by k n s) rid = reported_blocks s rid"
  "reported_blocks (s\<lparr>gpu_block_pool := p\<rparr>) rid = reported_blocks s rid"
  by (simp_all add: reported_blocks_def)

text \<open>
  A pass that evicts, in one rule: it takes out exactly the unsettled cached blocks.
\<close>

lemma evict_pass_result:
  assumes inv: "fill_inv st" and pool: "gpu_block_pool s = Some pool"
    and hb: "gp_hash_block_size pool = e_block_size e" and bs: "e_block_size e \<noteq> 0"
    and ok: "evict pool (unsettled_cached pool st) = Some pool'"
  shows "\<exists>st' s'. evict_filled_blocks e evict rid st phase s = (Inr st', s')
     \<and> gpu_block_pool s' = Some (if unsettled_cached pool st = {} then pool else pool')
     \<and> fb_settled st' = fb_settled st \<union> unsettled_cached pool st \<and> fill_inv st'
     \<and> tracked_blocks st' = tracked_blocks st"
proof -
  have fin: "finite (unsettled_cached pool st)" using scan_complete [OF inv, of pool] by (metis finite_cached_fill)
  show ?thesis
    using inv pool hb bs ok settle_inv [OF inv fin]
    by (cases "unsettled_cached pool st = {}")
       (auto simp: evict_filled_blocks_def scan_complete [OF inv] settle_and_count_def Let_def)
qed

text \<open>What any pass may change, on every branch.\<close>

definition distinct_total :: "('p, 'z) fill_st_scheme \<Rightarrow> int" where
  "distinct_total s = stats s (SF Prefix_cache_distinct_blocks_evicted)
                      + stats s (SF Prefix_cache_distinct_blocks_left_cached)"

definition same_loads :: "('p, 'z) fill_st_scheme \<Rightarrow> ('p, 'z) fill_st_scheme \<Rightarrow> bool" where
  "same_loads s t \<longleftrightarrow> load_plans s = load_plans t \<and> pending_loads s = pending_loads t
     \<and> served_request_ids s = served_request_ids t \<and> filled_blocks s = filled_blocks t"

lemma card_new:
  assumes "finite A" and "finite B"
  shows "int (card (A - B)) = int (card (B \<union> A)) - int (card B)"
proof -
  have "card (B \<union> (A - B)) = card B + card (A - B)" using assms by (intro card_Un_disjoint) auto
  then show ?thesis by simp
qed

lemma track_pass:
  assumes "track_filled_blocks e evict rid st phase s = (res, s')"
  shows "same_loads s' s"
    and "q \<noteq> rid \<Longrightarrow> reported_fill_blocks s' q = reported_fill_blocks s q"
    and "finite (reported_blocks s rid) \<Longrightarrow>
       distinct_total s' - distinct_total s
         = int (card (reported_blocks s' rid)) - int (card (reported_blocks s rid))
       \<and> finite (reported_blocks s' rid) \<and> reported_blocks s rid \<subseteq> reported_blocks s' rid"
    and "\<not> (c_evict_filled_blocks_from_prefix_cache (e_config e) \<and> rid \<notin> stage_requests s) \<Longrightarrow>
       gpu_block_pool s' = gpu_block_pool s \<and> res \<noteq> Inl AssertionError"
    and "fill_st.more s' = fill_st.more s"
  using assms card_new [OF finite_cached_fill, of "reported_blocks s rid"]
  by (auto simp: track_filled_blocks_def evict_filled_blocks_def note_filled_blocks_left_cached_def
      settle_and_count_def same_loads_def distinct_total_def reported_blocks_def Let_def
      split: if_splits option.splits)

subsection \<open>Properties\<close>

text \<open>
  C14. Eviction is complete and precise: after a pass, the prefix cache holds none of the request's
  approximate blocks that were not settled before (the null block apart), every block in front of
  the fill and every block of other requests is cached exactly as before, and the scan position has
  moved over settled blocks only.
\<close>

theorem eviction_exact:
  assumes "evicts_exactly evict" and "fill_inv st" and "gpu_block_pool s = Some pool"
    and "gp_hash_block_size pool = e_block_size e" and "e_block_size e \<noteq> 0"
    and "evict pool (unsettled_cached pool st) \<noteq> None"
  shows "\<exists>st' s' pool'. evict_filled_blocks e evict rid st phase s = (Inr st', s')
    \<and> gpu_block_pool s' = Some pool' \<and> fill_inv st'
    \<and> (\<forall>b. block_is_cached pool' b \<longleftrightarrow> block_is_cached pool b \<and>
         \<not> (b \<in> tracked_blocks st \<and> gp_null_block pool \<noteq> Some b \<and> b \<notin> fb_settled st))"
proof -
  obtain pool' where ok: "evict pool (unsettled_cached pool st) = Some pool'" using assms(6) by blast
  have ev: "block_is_cached pool' b \<longleftrightarrow> block_is_cached pool b \<and> b \<notin> unsettled_cached pool st" for b
    using assms(1) ok unfolding evicts_exactly_def by blast
  note res = evict_pass_result [where evict = evict, OF assms(2-5) ok, of rid phase]
  show ?thesis
    using res ev by (cases "unsettled_cached pool st = {}") (auto simp: unsettled_cached_def)
qed

text \<open>
  Distinct blocks are counted once: whatever a pass does (evict, report, fail or find no pool),
  the two distinct-block counters together grow by exactly the number of blocks the request's ledger
  gains, the ledger never shrinks, and no other request's ledger changes.
\<close>

theorem distinct_blocks_counted_once:
  assumes "track_filled_blocks e evict rid st phase s = (res, s')" and "finite (reported_blocks s rid)"
  shows "distinct_total s' - distinct_total s
       = int (card (reported_blocks s' rid)) - int (card (reported_blocks s rid))
     \<and> reported_blocks s rid \<subseteq> reported_blocks s' rid
     \<and> (\<forall>q. q \<noteq> rid \<longrightarrow> reported_fill_blocks s' q = reported_fill_blocks s q)"
  using track_pass(2,3) [OF assms(1)] assms(2) by blast

text \<open>
  The control arm evicts nothing: with eviction configured off, or for a stage of a staged
  prefill, a pass leaves the prefix cache as it found it and cannot fail.
\<close>

theorem staged_or_off_never_evicts:
  assumes "\<not> c_evict_filled_blocks_from_prefix_cache (e_config e) \<or> rid \<in> stage_requests s"
  shows "\<exists>st' s'. track_filled_blocks e evict rid st phase s = (Inr st', s')
     \<and> gpu_block_pool s' = gpu_block_pool s"
proof -
  obtain st' s' where n: "note_filled_blocks_left_cached e rid st phase s = (st', s')" by fastforce
  have "track_filled_blocks e evict rid st phase s = (Inr st', s')"
    using assms by (auto simp: track_filled_blocks_def n)
  then show ?thesis using track_pass(4) assms by blast
qed

subsection \<open>Allocation\<close>

lemma alloc_declined:
  fixes s :: "('p, 'z) fill_st_scheme"
  assumes "update_state_after_alloc e evict r blocks n s = (res, s')"
    and "\<not> (0 < n \<and> load_plans s (request_id_of r) \<noteq> None \<and> blocks \<noteq> None)"
  shows "load_plans s' = (load_plans s)(request_id_of r := None)" and "pending_loads s' = pending_loads s"
    and "served_request_ids s' = served_request_ids s"
    and "filled_blocks s' = (filled_blocks s)(request_id_of r := None)"
proof -
  let ?rid = "request_id_of r"
  define s1 where "s1 = s\<lparr>filled_blocks := (filled_blocks s)(?rid := None),
                       load_plans := (load_plans s)(?rid := None)\<rparr>"
  have s1: "load_plans s1 = (load_plans s)(?rid := None)" "pending_loads s1 = pending_loads s"
    "served_request_ids s1 = served_request_ids s" "filled_blocks s1 = (filled_blocks s)(?rid := None)"
    by (simp_all add: s1_def)
  have "same_loads s' s1"
    using assms unfolding update_state_after_alloc_def Let_def s1_def [symmetric]
    by (cases "load_plans s ?rid"; cases blocks; cases "n \<le> 0") (auto simp: same_loads_def)
  then show "load_plans s' = (load_plans s)(?rid := None)" "pending_loads s' = pending_loads s"
    "served_request_ids s' = served_request_ids s" "filled_blocks s' = (filled_blocks s)(?rid := None)"
    by (simp_all add: same_loads_def s1)
qed

lemma alloc_committed:
  fixes s :: "('p, 'z) fill_st_scheme"
  assumes "update_state_after_alloc e evict r (Some t) n s = (res, s')"
    and p: "load_plans s (request_id_of r) = Some p" "0 < n"
  shows "load_plans s' = (load_plans s)(request_id_of r := None)"
    and "pending_loads s' = od_set (pending_loads s) (request_id_of r) (pending_load_of (request_id_of r) p t)"
    and "served_request_ids s' = insert (request_id_of r) (served_request_ids s)"
    and "q \<noteq> request_id_of r \<Longrightarrow> filled_blocks s' q = filled_blocks s q"
proof -
  let ?rid = "request_id_of r"
  define s1 where "s1 = s\<lparr>filled_blocks := (filled_blocks s)(?rid := None),
                       load_plans := (load_plans s)(?rid := None)\<rparr>"
  define s3 where "s3 = audit e (Some ?rid)
     (EF (Ev_load_allocated (pn_donor_id p) (pn_namespace p) (pn_token_count p) (pn_kind p) (table_blocks t)))
     (s1\<lparr>pending_loads := od_set (pending_loads s1) ?rid (pending_load_of ?rid p t),
        served_request_ids := insert ?rid (served_request_ids s1)\<rparr>)"
  have s3: "load_plans s3 = (load_plans s)(?rid := None)" "filled_blocks s3 = (filled_blocks s)(?rid := None)"
    "pending_loads s3 = od_set (pending_loads s) ?rid (pending_load_of ?rid p t)"
    "served_request_ids s3 = insert ?rid (served_request_ids s)"
    by (simp_all add: s3_def s1_def)
  obtain res4 s4 where tr: "track_filled_blocks e evict ?rid (fresh_fill e p t) Load_allocated_phase s3 = (res4, s4)"
    by fastforce
  have same: "same_loads s4 s3" by (rule track_pass(1) [OF tr])
  have n: "(n \<le> 0) = False" using p(2) by simp
  have "update_state_after_alloc e evict r (Some t) n s =
      (case res4 of Inl err \<Rightarrow> (Inl err, s4)
       | Inr st \<Rightarrow> (Inr (), s4\<lparr>filled_blocks := (filled_blocks s4)(?rid \<mapsto> st)\<rparr>))"
    unfolding update_state_after_alloc_def Let_def p(1) option.case n if_False s1_def [symmetric]
      s3_def [symmetric] tr prod.case by (cases res4) simp_all
  then have "load_plans s' = load_plans s4 \<and> pending_loads s' = pending_loads s4
      \<and> served_request_ids s' = served_request_ids s4 \<and> (\<forall>q. q \<noteq> ?rid \<longrightarrow> filled_blocks s' q = filled_blocks s4 q)"
    using assms(1) by (cases res4) simp_all
  then show "load_plans s' = (load_plans s)(?rid := None)"
    "pending_loads s' = od_set (pending_loads s) ?rid (pending_load_of ?rid p t)"
    "served_request_ids s' = insert ?rid (served_request_ids s)"
    "q \<noteq> ?rid \<Longrightarrow> filled_blocks s' q = filled_blocks s q"
    using same unfolding same_loads_def s3 by simp_all
qed

text \<open>
  A load is committed exactly when it was advertised, credited and given blocks: then the request
  is served and one pending load is queued that carries the recorded plan and those blocks; in every
  other case no load is queued and nobody becomes served. Either way the plan is consumed, and no
  other request's load, served mark or tracked fill changes.
\<close>

theorem alloc_commits_exactly_the_plan:
  fixes s :: "('p, 'z) fill_st_scheme"
  assumes "update_state_after_alloc e evict r blocks n s = (res, s')"
  shows "load_plans s' = (load_plans s)(request_id_of r := None)
    \<and> (case (load_plans s (request_id_of r), blocks) of
         (Some p, Some t) \<Rightarrow>
           if 0 < n then od_get (pending_loads s') (request_id_of r) = Some (pending_load_of (request_id_of r) p t)
                         \<and> served_request_ids s' = insert (request_id_of r) (served_request_ids s)
           else pending_loads s' = pending_loads s \<and> served_request_ids s' = served_request_ids s
       | _ \<Rightarrow> pending_loads s' = pending_loads s \<and> served_request_ids s' = served_request_ids s)
    \<and> (\<forall>q. q \<noteq> request_id_of r \<longrightarrow>
         od_get (pending_loads s') q = od_get (pending_loads s) q \<and> filled_blocks s' q = filled_blocks s q)"
proof (cases "0 < n \<and> load_plans s (request_id_of r) \<noteq> None \<and> blocks \<noteq> None")
  case False
  then show ?thesis
    using alloc_declined [OF assms False] by (cases "load_plans s (request_id_of r)"; cases blocks) simp_all
next
  case True
  then obtain p t where p: "load_plans s (request_id_of r) = Some p" "blocks = Some t" "0 < n" by blast
  note c = alloc_committed [OF assms [unfolded p(2)] p(1,3)]
  show ?thesis unfolding p c(1-3) od_get_set using c(4) p(3) by simp
qed

lemma track_rows_untouched:
  assumes "track_rows e evict resumed rows s = (res, s')"
  shows "q \<notin> cr_req_id ` set rows \<or> filled_blocks s q = None \<Longrightarrow> filled_blocks s' q = filled_blocks s q"
    and "filled_blocks s q = None \<Longrightarrow> reported_fill_blocks s' q = reported_fill_blocks s q"
    and "load_plans s' = load_plans s" and "pending_loads s' = pending_loads s"
    and "served_request_ids s' = served_request_ids s" and "fill_st.more s' = fill_st.more s"
proof -
  have "(q \<notin> cr_req_id ` set rows \<or> filled_blocks s q = None \<longrightarrow> filled_blocks s' q = filled_blocks s q)
    \<and> (filled_blocks s q = None \<longrightarrow> reported_fill_blocks s' q = reported_fill_blocks s q)
    \<and> load_plans s' = load_plans s \<and> pending_loads s' = pending_loads s
    \<and> served_request_ids s' = served_request_ids s \<and> fill_st.more s' = fill_st.more s"
    using assms
  proof (induction rows arbitrary: s)
    case (Cons row rows)
    let ?rid = "cr_req_id row"
    show ?case
    proof (cases "filled_blocks s ?rid")
      case None
      then have "track_rows e evict resumed rows s = (res, s')" using Cons.prems by (simp add: Let_def)
      from Cons.IH [OF this] None show ?thesis by auto
    next
      case (Some st)
      show ?thesis
      proof (cases "extend_block_table (fb_block_ids st) (normalize_block_ids (cr_new_block_ids row)) (?rid \<in> resumed)")
        case (Inl err)
        then show ?thesis using Cons.prems Some by (simp add: Let_def)
      next
        case (Inr table)
        define nst where "nst = st\<lparr>fb_block_ids := table,
            fb_settled := (if ?rid \<in> resumed then {} else fb_settled st),
            fb_scan_from := (if ?rid \<in> resumed then 0 else fb_scan_from st)\<rparr>"
        obtain r1 s1 where tr: "track_filled_blocks e evict ?rid nst Running_step_phase s = (r1, s1)" by fastforce
        note tp = track_pass(1,5) [OF tr]
        have rep: "q \<noteq> ?rid \<Longrightarrow> reported_fill_blocks s1 q = reported_fill_blocks s q" by (rule track_pass(2) [OF tr])
        note step = Cons.prems [unfolded track_rows.simps Let_def Some option.case Inr sum.case
            nst_def [symmetric] tr prod.case]
        show ?thesis
        proof (cases r1)
          case (Inl err)
          then have "s' = s1" using step by simp
          moreover have "q = ?rid \<longrightarrow> filled_blocks s q \<noteq> None" using Some by simp
          ultimately show ?thesis using tp rep by (cases "q = ?rid") (auto simp: same_loads_def)
        next
          case (Inr st')
          define s2 where "s2 = s1\<lparr>filled_blocks := (filled_blocks s1)(?rid \<mapsto> st')\<rparr>"
          have "track_rows e evict resumed rows s2 = (res, s')" using step Inr by (simp add: s2_def)
          note ih = Cons.IH [OF this]
          have s2: "load_plans s2 = load_plans s" "pending_loads s2 = pending_loads s"
            "served_request_ids s2 = served_request_ids s" "fill_st.more s2 = fill_st.more s"
            "reported_fill_blocks s2 q = reported_fill_blocks s1 q"
            "filled_blocks s2 q = (if q = ?rid then Some st' else filled_blocks s q)"
            using tp by (auto simp: same_loads_def s2_def)
          show ?thesis using ih s2 rep Some by (cases "q = ?rid") auto
        qed
      qed
    qed
  qed simp
  then show "q \<notin> cr_req_id ` set rows \<or> filled_blocks s q = None \<Longrightarrow> filled_blocks s' q = filled_blocks s q"
    "filled_blocks s q = None \<Longrightarrow> reported_fill_blocks s' q = reported_fill_blocks s q"
    "load_plans s' = load_plans s" "pending_loads s' = pending_loads s"
    "served_request_ids s' = served_request_ids s" "fill_st.more s' = fill_st.more s"
    by blast+
qed

text \<open>
  A step only touches what is running: after \<open>_track_running_fills\<close> a finished request has no
  tracked blocks and no ledger, a request absent from the step's diff (a preempted one) keeps its
  tracked state exactly, a request that was not tracked does not become tracked, and no load, plan or
  served mark changes, whether or not the step raises.
\<close>

theorem running_step_touches_only_running:
  assumes "track_running_fills e evict out s = (res, s')"
  shows "(\<forall>q. q \<in> set (so_finished_req_ids out) \<longrightarrow>
            filled_blocks s' q = None \<and> reported_fill_blocks s' q = None)
    \<and> (\<forall>q. q \<notin> set (so_finished_req_ids out) \<longrightarrow>
          (case so_cached out of None \<Rightarrow> True | Some (rows, _) \<Rightarrow> q \<notin> cr_req_id ` set rows) \<longrightarrow>
          filled_blocks s' q = filled_blocks s q)
    \<and> (\<forall>q. filled_blocks s q = None \<longrightarrow> filled_blocks s' q = None)
    \<and> load_plans s' = load_plans s \<and> pending_loads s' = pending_loads s
    \<and> served_request_ids s' = served_request_ids s"
proof -
  define s1 where "s1 = retire_fills (so_finished_req_ids out) s"
  have s1: "load_plans s1 = load_plans s" "pending_loads s1 = pending_loads s"
    "served_request_ids s1 = served_request_ids s"
    "filled_blocks s1 q = (if q \<in> set (so_finished_req_ids out) then None else filled_blocks s q)"
    "reported_fill_blocks s1 q = (if q \<in> set (so_finished_req_ids out) then None else reported_fill_blocks s q)"
    for q by (simp_all add: s1_def retire_fills_def)
  show ?thesis
  proof (cases "so_cached out")
    case None
    then have "s' = s1" using assms by (simp add: track_running_fills_def s1_def)
    then show ?thesis using s1 by simp
  next
    case (Some x)
    then obtain rows resumed where x: "so_cached out = Some (rows, resumed)" by (cases x) simp
    then have "track_rows e evict resumed rows s1 = (res, s')"
      using assms by (simp add: track_running_fills_def s1_def)
    note u = track_rows_untouched [OF this]
    show ?thesis using u s1 by (auto simp: x)
  qed
qed

subsection \<open>Witnesses\<close>

definition fill_state :: "unit fill_st" where
  "fill_state = \<lparr>stats = (\<lambda>_. 0), audit_log = [], request_seq = Map.empty,
     request_event_seq = Map.empty, next_request_seq = 0, prompt_tokenizer = None,
     prompt_tokenizer_failed = False, memory_store = [],
     load_plans = [''q'' \<mapsto> \<lparr>pn_donor_id = ''d'', pn_token_count = 32, pn_kind = K_SEMANTIC_SPAN,
        pn_namespace = ''n'', pn_boundary = 16, pn_donor_start = Some 0, pn_target_start = Some 16,
        pn_pieces = []\<rparr>],
     lookup_cache = Map.empty, attempts = Map.empty, no_safe_plan_reasons = Map.empty,
     stage_requests = {}, segment_namespaces = Map.empty, provider = Some (),
     pending_loads = [], served_request_ids = {},
     gpu_block_pool = Some \<lparr>gp_block_count = Some 10, gp_hashed = (\<lambda>b. b \<le> 8),
        gp_cached_by_block = {}, gp_null_block = Some 0, gp_hash_block_size = 16\<rparr>,
     filled_blocks = Map.empty, reported_fill_blocks = Map.empty\<rparr>"

definition drop_hashes :: "gpu_pool \<Rightarrow> nat set \<Rightarrow> gpu_pool option" where
  "drop_hashes pool S = Some (pool\<lparr>gp_hashed := (\<lambda>b. gp_hashed pool b \<and> b \<notin> S),
                                 gp_cached_by_block := gp_cached_by_block pool - S\<rparr>)"

definition fill_env :: "unit env" where
  "fill_env = sample_env silent_provider default_config"

definition fill_request :: request where
  "fill_request = sample_request [1, 2] [(''request_id'', PStr ''q'')]"

definition one_fill :: filled_state where
  "one_fill = \<lparr>fb_block_ids = [[4, 5, 9]], fb_first_approx_block = 1, fb_donor_id = ''d'',
     fb_namespace = ''n'', fb_settled = {}, fb_scan_from = 0\<rparr>"

lemma drop_hashes_exact: "evicts_exactly drop_hashes"
  by (auto simp: evicts_exactly_def drop_hashes_def block_is_cached_def split: option.splits)

theorem eviction_exact_witness:
  "\<exists>s' st' pool'. evict_filled_blocks fill_env drop_hashes ''q'' one_fill Load_allocated_phase fill_state = (Inr st', s')
     \<and> gpu_block_pool s' = Some pool' \<and> \<not> block_is_cached pool' 5 \<and> block_is_cached pool' 4"
proof -
  obtain pool where pool: "gpu_block_pool fill_state = Some pool" by (simp add: fill_state_def)
  have p: "gp_hash_block_size pool = 16" "gp_null_block pool = Some 0" "block_is_cached pool 4"
    using pool by (auto simp: fill_state_def block_is_cached_def)
  have inv: "fill_inv one_fill" by (simp add: fill_inv_def one_fill_def)
  have b: "e_block_size fill_env = 16" by (simp add: fill_env_def sample_env_def)
  have ok: "gp_hash_block_size pool = e_block_size fill_env" "e_block_size fill_env \<noteq> 0"
    "drop_hashes pool (unsettled_cached pool one_fill) \<noteq> None"
    by (simp_all add: p b drop_hashes_def)
  obtain st' s' pool' where r:
    "evict_filled_blocks fill_env drop_hashes ''q'' one_fill Load_allocated_phase fill_state = (Inr st', s')"
    "gpu_block_pool s' = Some pool'"
    "\<forall>b. block_is_cached pool' b \<longleftrightarrow> block_is_cached pool b \<and>
         \<not> (b \<in> tracked_blocks one_fill \<and> gp_null_block pool \<noteq> Some b \<and> b \<notin> fb_settled one_fill)"
    using eviction_exact [where e = fill_env and evict = drop_hashes, OF drop_hashes_exact inv pool ok,
        where rid = "''q''" and phase = Load_allocated_phase] by (elim exE conjE)
  have "\<not> block_is_cached pool' 5" "block_is_cached pool' 4"
    using r(3) p(2,3) by (auto simp: tracked_blocks_def one_fill_def)
  then show ?thesis using r(1,2) by (intro exI conjI)
qed

theorem distinct_blocks_counted_once_witness:
  "distinct_total (snd (track_filled_blocks fill_env drop_hashes ''q'' one_fill Load_allocated_phase fill_state))
     = distinct_total fill_state
       + int (card (reported_blocks (snd (track_filled_blocks fill_env drop_hashes ''q'' one_fill
            Load_allocated_phase fill_state)) ''q''))"
proof -
  have "finite (reported_blocks fill_state ''q'')" and z: "reported_blocks fill_state ''q'' = {}"
    by (simp_all add: reported_blocks_def fill_state_def)
  from distinct_blocks_counted_once [OF surjective_pairing this(1),
      where e = fill_env and evict = drop_hashes and st = one_fill and phase = Load_allocated_phase]
  show ?thesis by (simp add: z)
qed

theorem staged_or_off_never_evicts_witness:
  "\<exists>st' s'. track_filled_blocks (sample_env silent_provider
       (default_config\<lparr>c_evict_filled_blocks_from_prefix_cache := False\<rparr>)) drop_hashes ''q'' one_fill
       Load_allocated_phase fill_state = (Inr st', s') \<and> gpu_block_pool s' = gpu_block_pool fill_state"
  by (rule staged_or_off_never_evicts) (simp add: sample_env_def)

theorem alloc_commits_exactly_the_plan_witness:
  "''q'' \<in> served_request_ids (snd (update_state_after_alloc fill_env drop_hashes fill_request (Some [[4, 5, 9]]) 32 fill_state))"
proof -
  have id: "request_id_of fill_request = ''q''"
    by (simp add: fill_request_def sample_request_def request_id_of_def hasattr_def getattr_def)
  have plan: "load_plans fill_state ''q'' \<noteq> None" by (simp add: fill_state_def)
  show ?thesis
    using alloc_commits_exactly_the_plan [OF surjective_pairing, where e = fill_env and evict = drop_hashes
        and r = fill_request and blocks = "Some [[4, 5, 9]]" and n = 32 and s = fill_state]
      plan by (auto simp: id)
qed

definition idle_output :: scheduler_output where
  "idle_output = \<lparr>so_finished_req_ids = [''q''], so_new_reqs = [], so_cached = None, so_num_scheduled = None\<rparr>"

theorem running_step_touches_only_running_witness:
  "filled_blocks (snd (track_running_fills fill_env drop_hashes idle_output
     (fill_state\<lparr>filled_blocks := [''q'' \<mapsto> one_fill, ''r'' \<mapsto> one_fill]\<rparr>))) ''r'' = Some one_fill"
proof -
  define s where "s = fill_state\<lparr>filled_blocks := [''q'' \<mapsto> one_fill, ''r'' \<mapsto> one_fill]\<rparr>"
  have "filled_blocks s ''r'' = Some one_fill" by (simp add: s_def)
  then show ?thesis
    using running_step_touches_only_running [OF surjective_pairing,
        where e = fill_env and evict = drop_hashes and out = idle_output and s = s]
    unfolding s_def [symmetric] by (simp add: idle_output_def)
qed

end
