(* ===== verification/Capture.thy ===== *)
theory Capture
  imports FillProps
begin

text \<open>
  Donor capture as the scheduler role decides it: \<open>_build_store_metadata\<close> with admission,
  continuations, the capture policy and \<open>_advance_capture\<close>. A capture is the running table of one
  prompt; each step it may emit a store that extends the donor to what is then computed.
\<close>

record open_capture =
  cs_token_ids :: "int list"
  cs_block_ids :: block_table
  cs_namespace :: string
  cs_captured_end :: int

record 'p capture_st = "'p fill_st" +
  capture_state :: "string \<rightharpoonup> open_capture"
  capture_boundaries :: "string \<rightharpoonup> int"
  captures_opened :: "string \<rightharpoonup> string"
  capture_skipped_reasons :: "string \<rightharpoonup> skip_reason"
  pending_finalize :: "string list"

subsection \<open>Counters and rows\<close>

definition note_capture_disabled :: "'p env \<Rightarrow> 'z audit_st_scheme \<Rightarrow> 'z audit_st_scheme" where
  "note_capture_disabled e s =
     (let first = (stats s (SC Capture_disabled_steps) = 0);
          s1 = bump (SC Capture_disabled_steps) s
      in if first then audit e None (EC (Ev_capture_disabled (e_compat_decline e))) s1 else s1)"

definition note_capture_skipped ::
  "'p env \<Rightarrow> string \<Rightarrow> skip_reason \<Rightarrow> skip_detail \<Rightarrow> ('p, 'z) capture_st_scheme
     \<Rightarrow> ('p, 'z) capture_st_scheme" where
  "note_capture_skipped e rid reason detail s =
     audit e (Some rid) (EC (Ev_capture_skipped reason (c_kv_storage_backend (e_config e)) detail))
       (bump (SC (Capture_skipped reason))
         (s\<lparr>capture_skipped_reasons := (capture_skipped_reasons s)(rid \<mapsto> reason)\<rparr>))"

subsection \<open>Which requests are captured\<close>

definition sampled_for_capture :: "'p env \<Rightarrow> string \<Rightarrow> bool" where
  "sampled_for_capture e rid =
     (let rate = c_capture_sample_rate (e_config e)
      in if 1 \<le> rate then True
         else if rate \<le> 0 then False
         else rat_of_int (e_sha256_int64 e rid) < rate * 2 ^ 64)"

definition capture_hinted :: "'p env \<Rightarrow> request \<Rightarrow> bool" where
  "capture_hinted e r = hinted r (c_capture_hint_key (e_config e))"

definition capture_policy_decline :: "'p env \<Rightarrow> request \<Rightarrow> string \<Rightarrow> skip_reason option" where
  "capture_policy_decline e r rid =
     (if hinted r (c_stage_hint_key (e_config e)) then Some Staged_prefill_stage
      else if c_capture_policy (e_config e) = ''sampled''
      then (if sampled_for_capture e rid then None else Some Not_sampled)
      else if c_capture_policy (e_config e) = ''hinted''
      then (if capture_hinted e r then None else Some Not_hinted)
      else None)"

definition capture_allowed ::
  "'p env \<Rightarrow> string \<Rightarrow> ('p, 'z) fill_st_scheme \<Rightarrow> bool \<times> ('p, 'z) fill_st_scheme" where
  "capture_allowed e rid s =
     (if rid \<notin> served_request_ids s then (True, s)
      else (c_capture_served_requests (e_config e),
            s\<lparr>served_request_ids := served_request_ids s - {rid}\<rparr>))"

subsection \<open>How far a capture reaches\<close>

definition computed_end ::
  "'p env \<Rightarrow> string \<Rightarrow> int \<Rightarrow> int \<Rightarrow> (string \<rightharpoonup> int) option \<Rightarrow> 'z audit_st_scheme
     \<Rightarrow> int \<times> 'z audit_st_scheme" where
  "computed_end e rid num_computed prompt_tokens scheduled s =
     (case scheduled of
        None \<Rightarrow>
          (let first = (stats s (SC Capture_unclamped_no_schedule_info) = 0);
               s1 = bump (SC Capture_unclamped_no_schedule_info) s
           in (prompt_tokens,
               if first then audit e None (EC Ev_capture_unclamped_no_schedule_info) s1 else s1))
      | Some m \<Rightarrow> (num_computed + (case m rid of None \<Rightarrow> 0 | Some n \<Rightarrow> n), s))"

definition capture_end :: "'p env \<Rightarrow> open_capture \<Rightarrow> nat list \<Rightarrow> int \<Rightarrow> int" where
  "capture_end e st head computed =
     min (min (cacheable_prefix_tokens (len (cs_token_ids st)) (e_block_size e))
              (len head * e_block_size e))
         ((computed div e_block_size e) * e_block_size e)"

definition store_of :: "string \<Rightarrow> open_capture \<Rightarrow> int \<Rightarrow> bool \<Rightarrow> pending_store" where
  "store_of rid st end_pos final =
     \<lparr>ps_request_id = rid, ps_token_ids = cs_token_ids st, ps_token_count = end_pos,
      ps_namespace = cs_namespace st, ps_block_ids = Some (cs_block_ids st), ps_final = final\<rparr>"

definition advance_capture ::
  "'p env \<Rightarrow> string \<Rightarrow> open_capture \<Rightarrow> int \<Rightarrow> ('p, 'z) capture_st_scheme
     \<Rightarrow> (py_error + pending_store option) \<times> ('p, 'z) capture_st_scheme" where
  "advance_capture e rid st computed s =
     (let prompt_cap = cacheable_prefix_tokens (len (cs_token_ids st)) (e_block_size e)
      in if prompt_cap \<le> 0
         then (Inr None,
           note_capture_skipped e rid Prompt_below_one_block
             (At_below_one_block (len (cs_token_ids st)) (e_block_size e))
             (s\<lparr>capture_state := (capture_state s)(rid := None)\<rparr>))
         else case cs_block_ids st of
           [] \<Rightarrow> (Inl IndexError, s)
         | head # _ \<Rightarrow>
             (let end_pos = capture_end e st head computed
              in if end_pos \<le> cs_captured_end st
                 then (Inr None, s\<lparr>capture_state := (capture_state s)(rid \<mapsto> st)\<rparr>)
                 else let final = (prompt_cap \<le> end_pos);
                          s1 = s\<lparr>capture_state :=
                                   (if final then (capture_state s)(rid := None)
                                    else (capture_state s)(rid \<mapsto> st\<lparr>cs_captured_end := end_pos\<rparr>)),
                                 captures_opened := (captures_opened s)(rid \<mapsto> cs_namespace st),
                                 capture_skipped_reasons := (capture_skipped_reasons s)(rid := None)\<rparr>
                      in (Inr (Some (store_of rid st end_pos final)), s1)))"

subsection \<open>Admission\<close>

definition num_computed_of :: "request \<Rightarrow> int" where
  "num_computed_of r = (case rq_num_computed_tokens r of None \<Rightarrow> 0 | Some n \<Rightarrow> n)"

text \<open>The checks of one admitted request in their order: \<open>Inl\<close> the state after its skip.\<close>

definition admission_gate ::
  "'p env \<Rightarrow> request \<Rightarrow> string \<Rightarrow> int list \<Rightarrow> ('p, 'z) capture_st_scheme
     \<Rightarrow> ('p, 'z) capture_st_scheme + (block_table \<times> ('p, 'z) capture_st_scheme)" where
  "admission_gate e r rid token_ids s =
     (let c = e_config e
      in if len token_ids < c_min_prompt_tokens c
         then Inl (note_capture_skipped e rid Short_prompt
                     (At_short_prompt (len token_ids) (c_min_prompt_tokens c)) s)
         else let (allowed, s1) = capture_allowed e rid s
              in if \<not> allowed
                 then Inl (note_capture_skipped e rid Served_request (At_served_admitted (len token_ids)) s1)
                 else case capture_policy_decline e r rid of
                   Some reason \<Rightarrow>
                     Inl (note_capture_skipped e rid reason
                            (At_policy (len token_ids) (c_capture_policy c) (c_capture_sample_rate c)) s1)
                 | None \<Rightarrow>
                     (case normalize_block_ids (rq_block_ids r) of
                        None \<Rightarrow> Inl (note_capture_skipped e rid No_block_ids (At_no_block_ids (len token_ids)) s1)
                      | Some table \<Rightarrow> Inr (table, s1)))"

definition capture_admitted_one ::
  "'p env \<Rightarrow> request \<Rightarrow> (string \<rightharpoonup> int) option \<Rightarrow> ('p, 'z) capture_st_scheme
     \<Rightarrow> (py_error + pending_store option) \<times> ('p, 'z) capture_st_scheme" where
  "capture_admitted_one e r scheduled s =
     (let rid = new_request_id r; token_ids = token_ids_of r
      in case admission_gate e r rid token_ids s of
           Inl s1 \<Rightarrow> (Inr None, s1)
         | Inr (table, s1) \<Rightarrow>
             (let s2 = s1\<lparr>capture_boundaries := (capture_boundaries s1)(rid \<mapsto> num_computed_of r)\<rparr>;
                  st = \<lparr>cs_token_ids = token_ids, cs_block_ids = table,
                        cs_namespace = namespace_for_request e r, cs_captured_end = 0\<rparr>;
                  (computed, s3) = computed_end e rid (num_computed_of r) (len token_ids) scheduled s2
              in advance_capture e rid st computed s3))"

text \<open>\<open>stores.append(store)\<close> over a loop whose body may raise.\<close>

definition add_store :: "pending_store option \<Rightarrow> pending_store list \<Rightarrow> pending_store list" where
  "add_store st stores = (case st of None \<Rightarrow> stores | Some x \<Rightarrow> x # stores)"

fun capture_admitted ::
  "'p env \<Rightarrow> request list \<Rightarrow> (string \<rightharpoonup> int) option \<Rightarrow> ('p, 'z) capture_st_scheme
     \<Rightarrow> (py_error + pending_store list) \<times> ('p, 'z) capture_st_scheme" where
  "capture_admitted e [] scheduled s = (Inr [], s)"
| "capture_admitted e (r # rs) scheduled s =
     (case capture_admitted_one e r scheduled s of
        (Inl err, s1) \<Rightarrow> (Inl err, s1)
      | (Inr st, s1) \<Rightarrow>
          (case capture_admitted e rs scheduled s1 of
             (Inl err, s2) \<Rightarrow> (Inl err, s2)
           | (Inr stores, s2) \<Rightarrow> (Inr (add_store st stores), s2)))"

subsection \<open>Continuations\<close>

definition close_short ::
  "'p env \<Rightarrow> string \<Rightarrow> open_capture \<Rightarrow> ('p, 'z) capture_st_scheme \<Rightarrow> ('p, 'z) capture_st_scheme" where
  "close_short e rid st s =
     (let s1 = audit e (Some rid)
                 (EC (Ev_capture_closed_short (cs_captured_end st) (len (cs_token_ids st))))
                 (bump (SC Capture_closed_short_at_decode) s)
      in s1\<lparr>capture_state := (capture_state s1)(rid := None),
            pending_finalize := pending_finalize s1 @ [rid]\<rparr>)"

definition capture_continue_one ::
  "'p env \<Rightarrow> string set \<Rightarrow> cached_row \<Rightarrow> (string \<rightharpoonup> int) option \<Rightarrow> ('p, 'z) capture_st_scheme
     \<Rightarrow> (py_error + pending_store option) \<times> ('p, 'z) capture_st_scheme" where
  "capture_continue_one e resumed row scheduled s =
     (let rid = cr_req_id row
      in case capture_state s rid of
           None \<Rightarrow> (Inr None, s)
         | Some st \<Rightarrow>
             (let (allowed, s1) = capture_allowed e rid s
              in if \<not> allowed
                 then let s2 = note_capture_skipped e rid Served_request
                                 (At_served_continuation (cs_captured_end st)) s1
                      in (Inr None, s2\<lparr>capture_state := (capture_state s2)(rid := None)\<rparr>)
                 else if 0 < cr_num_output_tokens row then (Inr None, close_short e rid st s1)
                 else case extend_block_table (cs_block_ids st)
                             (normalize_block_ids (cr_new_block_ids row)) (rid \<in> resumed) of
                        Inl err \<Rightarrow> (Inl err, s1)
                      | Inr table \<Rightarrow>
                          (let (computed, s2) = computed_end e rid (cr_num_computed_tokens row)
                                 (len (cs_token_ids st)) scheduled s1
                           in advance_capture e rid (st\<lparr>cs_block_ids := table\<rparr>) computed s2)))"

fun continue_rows ::
  "'p env \<Rightarrow> string set \<Rightarrow> cached_row list \<Rightarrow> (string \<rightharpoonup> int) option \<Rightarrow> ('p, 'z) capture_st_scheme
     \<Rightarrow> (py_error + pending_store list) \<times> ('p, 'z) capture_st_scheme" where
  "continue_rows e resumed [] scheduled s = (Inr [], s)"
| "continue_rows e resumed (row # rows) scheduled s =
     (case capture_continue_one e resumed row scheduled s of
        (Inl err, s1) \<Rightarrow> (Inl err, s1)
      | (Inr st, s1) \<Rightarrow>
          (case continue_rows e resumed rows scheduled s1 of
             (Inl err, s2) \<Rightarrow> (Inl err, s2)
           | (Inr stores, s2) \<Rightarrow> (Inr (add_store st stores), s2)))"

text \<open>The early return when no capture is open only skips rows that are skipped anyway.\<close>

definition capture_continuations ::
  "'p env \<Rightarrow> scheduler_output \<Rightarrow> ('p, 'z) capture_st_scheme
     \<Rightarrow> (py_error + pending_store list) \<times> ('p, 'z) capture_st_scheme" where
  "capture_continuations e out s =
     (case so_cached out of
        None \<Rightarrow> (Inr [], s)
      | Some (rows, resumed) \<Rightarrow> continue_rows e resumed rows (so_num_scheduled out) s)"

subsection \<open>One step\<close>

definition retire_capture :: "string \<Rightarrow> ('p, 'z) capture_st_scheme \<Rightarrow> ('p, 'z) capture_st_scheme" where
  "retire_capture rid s =
     s\<lparr>pending_finalize := (if capture_state s rid \<noteq> None then pending_finalize s @ [rid]
                            else pending_finalize s),
       capture_state := (capture_state s)(rid := None),
       captures_opened := (captures_opened s)(rid := None),
       capture_skipped_reasons := (capture_skipped_reasons s)(rid := None),
       capture_boundaries := (capture_boundaries s)(rid := None)\<rparr>"

definition build_store_metadata ::
  "'p env \<Rightarrow> scheduler_output \<Rightarrow> ('p, 'z) capture_st_scheme
     \<Rightarrow> (py_error + pending_store list) \<times> ('p, 'z) capture_st_scheme" where
  "build_store_metadata e out s =
     (if \<not> materialization_enabled e then (Inr [], note_capture_disabled e s)
      else let s1 = fold retire_capture (so_finished_req_ids out) s
           in case capture_admitted e (so_new_reqs out) (so_num_scheduled out) s1 of
                (Inl err, s2) \<Rightarrow> (Inl err, s2)
              | (Inr admitted, s2) \<Rightarrow>
                  (case capture_continuations e out s2 of
                     (Inl err, s3) \<Rightarrow> (Inl err, s3)
                   | (Inr continued, s3) \<Rightarrow> (Inr (admitted @ continued), s3)))"

end
