(* ===== verification/CaptureProps.thy ===== *)
theory CaptureProps
  imports Capture
begin

text \<open>
  What a capture is allowed to publish. The abstract life of one capture is a step relation over
  what matters of it (its prompt, its namespace, how far it got); the scheduler's handlers refine
  it, and the ordering of the stores follows by rule induction.
\<close>

subsection \<open>Frames\<close>

lemma capture_part_eq:
  assumes "fill_st.more s = fill_st.more t"
  shows "capture_state s = capture_state t" and "capture_boundaries s = capture_boundaries t"
    and "captures_opened s = captures_opened t" and "capture_skipped_reasons s = capture_skipped_reasons t"
    and "pending_finalize s = pending_finalize t" and "capture_st.more s = capture_st.more t"
  using assms by (cases s; cases t; simp)+

lemmas capture_audit_frame = capture_part_eq [OF fill_audit_frame(6)]
lemmas capture_bump_frame = capture_part_eq [OF fill_bump_frame(6)] capture_part_eq [OF fill_bump_frame(12)]

declare capture_audit_frame [simp] capture_bump_frame [simp]

lemma note_skipped_simps [simp]:
  "capture_state (note_capture_skipped e rid re d s) = capture_state s"
  "captures_opened (note_capture_skipped e rid re d s) = captures_opened s"
  "pending_finalize (note_capture_skipped e rid re d s) = pending_finalize s"
  "capture_skipped_reasons (note_capture_skipped e rid re d s) = (capture_skipped_reasons s)(rid \<mapsto> re)"
  "served_request_ids (note_capture_skipped e rid re d s) = served_request_ids s"
  by (simp_all add: note_capture_skipped_def)

lemma capture_allowed_state [simp]:
  "capture_state (snd (capture_allowed e rid s)) = capture_state s"
  "captures_opened (snd (capture_allowed e rid s)) = captures_opened s"
  "capture_skipped_reasons (snd (capture_allowed e rid s)) = capture_skipped_reasons s"
  "pending_finalize (snd (capture_allowed e rid s)) = pending_finalize s"
  "served_request_ids (snd (capture_allowed e rid s)) = served_request_ids s - {rid}"
  by (auto simp: capture_allowed_def)

lemma computed_end_state [simp]:
  "capture_state (snd (computed_end e rid n p m s)) = capture_state s"
  "captures_opened (snd (computed_end e rid n p m s)) = captures_opened s"
  "capture_skipped_reasons (snd (computed_end e rid n p m s)) = capture_skipped_reasons s"
  "pending_finalize (snd (computed_end e rid n p m s)) = pending_finalize s"
  "served_request_ids (snd (computed_end e rid n p m s)) = served_request_ids s"
  by (auto simp: computed_end_def Let_def split: option.splits)

subsection \<open>The abstract life of a capture\<close>

record capture_view =
  cv_token_ids :: "int list"
  cv_namespace :: string
  cv_end :: int

definition view_of :: "open_capture \<Rightarrow> capture_view" where
  "view_of st = \<lparr>cv_token_ids = cs_token_ids st, cv_namespace = cs_namespace st, cv_end = cs_captured_end st\<rparr>"

definition view :: "('p, 'z) capture_st_scheme \<Rightarrow> string \<Rightarrow> capture_view option" where
  "view s rid = map_option view_of (capture_state s rid)"

definition store_matches :: "string \<Rightarrow> capture_view \<Rightarrow> int \<Rightarrow> bool \<Rightarrow> pending_store \<Rightarrow> bool" where
  "store_matches rid v k final p \<longleftrightarrow>
     ps_request_id p = rid \<and> ps_token_ids p = cv_token_ids v \<and> ps_namespace p = cv_namespace v
     \<and> ps_token_count p = k \<and> ps_final p = final"

abbreviation cap_of :: "'p env \<Rightarrow> capture_view \<Rightarrow> int" where
  "cap_of e v \<equiv> cacheable_prefix_tokens (len (cv_token_ids v)) (e_block_size e)"

inductive life :: "'p env \<Rightarrow> string \<Rightarrow> capture_view option \<Rightarrow> pending_store list \<Rightarrow> capture_view option \<Rightarrow> bool"
  for e :: "'p env" and rid :: string where
  Absent: "life e rid None [] None"
| Wait: "life e rid (Some v) [] (Some v)"
| Drop: "life e rid (Some v) [] None"
| Extend: "cv_end v < k \<Longrightarrow> k < cap_of e v \<Longrightarrow> e_block_size e dvd k \<Longrightarrow> store_matches rid v k False p
     \<Longrightarrow> life e rid (Some v) [p] (Some (v\<lparr>cv_end := k\<rparr>))"
| Finish: "cv_end v < cap_of e v \<Longrightarrow> store_matches rid v (cap_of e v) True p
     \<Longrightarrow> life e rid (Some v) [p] None"

inductive_cases life_NoneE [elim!]: "life e rid None ps v'"
inductive_cases life_SomeE [elim]: "life e rid (Some v) ps v'"

inductive life_run :: "'p env \<Rightarrow> string \<Rightarrow> capture_view option \<Rightarrow> pending_store list \<Rightarrow> capture_view option \<Rightarrow> bool"
  for e :: "'p env" and rid :: string where
  Done: "life_run e rid v [] v"
| Step: "life e rid v ps w \<Longrightarrow> life_run e rid w qs u \<Longrightarrow> life_run e rid v (ps @ qs) u"

lemma life_run_append: "life_run e rid v ps w \<Longrightarrow> life_run e rid w qs u \<Longrightarrow> life_run e rid v (ps @ qs) u"
  by (induction rule: life_run.induct) (auto intro: life_run.intros)

lemma life_run_one: "life e rid v ps w \<Longrightarrow> life_run e rid v ps w"
  using life_run.Step [OF _ life_run.Done] by fastforce

lemma life_run_None: "life_run e rid v ps w \<Longrightarrow> v = None \<Longrightarrow> ps = [] \<and> w = None"
  by (induction rule: life_run.induct) auto

lemma life_run_final:
  "life_run e rid v ps w \<Longrightarrow> \<exists>p\<in>set ps. ps_final p \<Longrightarrow> w = None"
proof (induction rule: life_run.induct)
  case (Step v ps w qs u)
  from Step.hyps(1) have "(\<exists>p\<in>set ps. ps_final p) \<Longrightarrow> w = None"
    by (cases rule: life.cases) (auto simp: store_matches_def)
  then show ?case using Step life_run_None [OF Step.hyps(2)] by auto
qed simp

text \<open>
  The stores of one capture: strictly growing from where it stands, of one prompt and namespace,
  on block edges within the cacheable prefix, and only the last one can be final.
\<close>

definition store_chain :: "'p env \<Rightarrow> string \<Rightarrow> capture_view \<Rightarrow> pending_store list \<Rightarrow> bool" where
  "store_chain e rid v ps \<longleftrightarrow>
     sorted_wrt (<) (cv_end v # map ps_token_count ps)
     \<and> (\<forall>p\<in>set ps. ps_request_id p = rid \<and> ps_token_ids p = cv_token_ids v \<and> ps_namespace p = cv_namespace v
           \<and> e_block_size e dvd ps_token_count p \<and> ps_token_count p \<le> cap_of e v
           \<and> (ps_final p \<longleftrightarrow> ps_token_count p = cap_of e v))
     \<and> (\<forall>p\<in>set (butlast ps). \<not> ps_final p)"

lemma life_run_chain:
  assumes "life_run e rid (Some v) ps w" and b: "0 < e_block_size e"
  shows "store_chain e rid v ps"
  using assms(1)
proof (induction "Some v" ps w arbitrary: v rule: life_run.induct)
  case Done
  then show ?case by (simp add: store_chain_def)
next
  case (Step ps w qs u)
  from Step.hyps(1) show ?case
  proof cases
    case Wait
    then show ?thesis using Step by simp
  next
    case Drop
    then have "qs = []" using life_run_None [OF Step.hyps(2)] by simp
    then show ?thesis using Drop by (simp add: store_chain_def)
  next
    case (Extend k p)
    have "store_chain e rid (v\<lparr>cv_end := k\<rparr>) qs" using Step.hyps(3) Extend by simp
    then show ?thesis
      using Extend by (auto simp: store_chain_def store_matches_def)
  next
    case (Finish p)
    then have "qs = []" using life_run_None [OF Step.hyps(2)] by simp
    then show ?thesis
      using Finish cacheable_prefix_bounds(2) [OF b] by (auto simp: store_chain_def store_matches_def)
  qed
qed

subsection \<open>Advancing\<close>

lemma advance_capture_life:
  assumes b: "0 < e_block_size e" and adv: "advance_capture e rid st computed s = (Inr op, s')"
  shows "life e rid (Some (view_of st)) (add_store op []) (view s' rid)"
    and "q \<noteq> rid \<Longrightarrow> capture_state s' q = capture_state s q \<and> captures_opened s' q = captures_opened s q"
    and "op = Some p \<Longrightarrow> captures_opened s' rid = Some (cs_namespace st)
        \<and> ps_request_id p = rid \<and> 0 \<le> ps_token_count p - cs_captured_end st"
    and "op = None \<Longrightarrow> captures_opened s' rid = captures_opened s rid"
proof -
  let ?b = "e_block_size e"
  define cap where "cap = cacheable_prefix_tokens (len (cs_token_ids st)) ?b"
  have cv: "cap_of e (view_of st) = cap" by (simp add: view_of_def cap_def)
  have main: "life e rid (Some (view_of st)) (add_store op []) (view s' rid)
    \<and> (q \<noteq> rid \<longrightarrow> capture_state s' q = capture_state s q \<and> captures_opened s' q = captures_opened s q)
    \<and> (op = Some p \<longrightarrow> captures_opened s' rid = Some (cs_namespace st)
        \<and> ps_request_id p = rid \<and> 0 \<le> ps_token_count p - cs_captured_end st)
    \<and> (op = None \<longrightarrow> captures_opened s' rid = captures_opened s rid)"
  proof (cases "cap \<le> 0")
    case True
    then have "op = None" "s' = note_capture_skipped e rid Prompt_below_one_block
             (At_below_one_block (len (cs_token_ids st)) ?b) (s\<lparr>capture_state := (capture_state s)(rid := None)\<rparr>)"
      using adv by (simp_all add: advance_capture_def cap_def [symmetric])
    then show ?thesis by (auto simp: view_def add_store_def intro: life.Drop)
  next
    case False
    then obtain head rest where h: "cs_block_ids st = head # rest"
      using adv by (cases "cs_block_ids st") (auto simp: advance_capture_def cap_def [symmetric])
    define k where "k = capture_end e st head computed"
    have kcap: "k \<le> cap" by (simp add: k_def capture_end_def cap_def)
    have kdvd: "?b dvd k"
      unfolding k_def capture_end_def using cacheable_prefix_bounds(2) [OF b] by (intro dvd_min) auto
    note adv' = adv [unfolded advance_capture_def Let_def cap_def [symmetric] h list.case k_def [symmetric]]
    show ?thesis
    proof (cases "k \<le> cs_captured_end st")
      case True
      then have "op = None" "s' = s\<lparr>capture_state := (capture_state s)(rid \<mapsto> st)\<rparr>"
        using adv' False by simp_all
      then show ?thesis by (auto simp: view_def add_store_def intro: life.Wait)
    next
      case grow: False
      show ?thesis
      proof (cases "cap \<le> k")
        case True
        then have k: "k = cap" using kcap by simp
        have r: "op = Some (store_of rid st cap True)"
          "capture_state s' = (capture_state s)(rid := None)"
          "captures_opened s' = (captures_opened s)(rid \<mapsto> cs_namespace st)"
          using adv' False grow True k by auto
        have "life e rid (Some (view_of st)) [store_of rid st cap True] None"
          using grow k
          by (intro life.Finish) (auto simp: store_matches_def store_of_def view_of_def cap_def)
        then show ?thesis using r grow k by (auto simp: view_def add_store_def store_of_def)
      next
        case open': False
        have r: "op = Some (store_of rid st k False)"
          "capture_state s' = (capture_state s)(rid \<mapsto> st\<lparr>cs_captured_end := k\<rparr>)"
          "captures_opened s' = (captures_opened s)(rid \<mapsto> cs_namespace st)"
          using adv' False grow open' by auto
        have "life e rid (Some (view_of st)) [store_of rid st k False] (Some ((view_of st)\<lparr>cv_end := k\<rparr>))"
          using grow open' kdvd
          by (intro life.Extend) (auto simp: store_matches_def store_of_def view_of_def cap_def)
        then show ?thesis using r grow by (auto simp: view_def view_of_def add_store_def store_of_def)
      qed
    qed
  qed
  then show "life e rid (Some (view_of st)) (add_store op []) (view s' rid)"
    "q \<noteq> rid \<Longrightarrow> capture_state s' q = capture_state s q \<and> captures_opened s' q = captures_opened s q"
    "op = Some p \<Longrightarrow> captures_opened s' rid = Some (cs_namespace st)
        \<and> ps_request_id p = rid \<and> 0 \<le> ps_token_count p - cs_captured_end st"
    "op = None \<Longrightarrow> captures_opened s' rid = captures_opened s rid"
    by blast+
qed

subsection \<open>The handlers refine the life\<close>

definition stores_of :: "string \<Rightarrow> pending_store list \<Rightarrow> pending_store list" where
  "stores_of rid = filter (\<lambda>p. ps_request_id p = rid)"

lemma stores_of_append [simp]: "stores_of rid (xs @ ys) = stores_of rid xs @ stores_of rid ys"
  by (simp add: stores_of_def)

lemma add_store_append: "add_store op xs = add_store op [] @ xs"
  by (simp add: add_store_def split: option.splits)

lemma view_cong: "capture_state s rid = capture_state t rid \<Longrightarrow> view s rid = view t rid"
  by (simp add: view_def)

text \<open>A handled row is a step of its own request's life and none of any other's.\<close>

definition row_life :: "'p env \<Rightarrow> string \<Rightarrow> string \<Rightarrow> ('p, 'z) capture_st_scheme
    \<Rightarrow> pending_store option \<Rightarrow> ('p, 'z) capture_st_scheme \<Rightarrow> bool" where
  "row_life e rid q s op s' \<longleftrightarrow>
     (\<forall>p. op = Some p \<longrightarrow> ps_request_id p = rid)
     \<and> (if q = rid then life e rid (view s rid) (add_store op []) (view s' rid)
        else view s' q = view s q)"

lemma row_life_run:
  assumes "row_life e rid q s op s'"
  shows "life_run e q (view s q) (stores_of q (add_store op [])) (view s' q)"
proof (cases "q = rid")
  case True
  then have "stores_of q (add_store op []) = add_store op []"
    using assms by (auto simp: row_life_def add_store_def stores_of_def split: option.splits)
  then show ?thesis using assms True by (simp add: row_life_def life_run_one)
next
  case False
  then have "stores_of q (add_store op []) = []"
    using assms by (auto simp: row_life_def add_store_def stores_of_def split: option.splits)
  then show ?thesis using assms False by (simp add: row_life_def life_run.Done)
qed

lemma advance_row_life:
  assumes "0 < e_block_size e" and "advance_capture e rid st computed s = (Inr op, s')"
    and "view t rid = Some (view_of st)" and "\<And>q. q \<noteq> rid \<Longrightarrow> capture_state s q = capture_state t q"
  shows "row_life e rid q t op s'"
  using advance_capture_life [OF assms(1,2)] assms(3,4)
  by (auto simp: row_life_def view_def)

lemma continue_one_life:
  assumes b: "0 < e_block_size e"
    and out: "capture_continue_one e resumed row scheduled s = (Inr op, s')"
  shows "row_life e (cr_req_id row) q s op s'"
proof -
  let ?rid = "cr_req_id row"
  show ?thesis
  proof (cases "capture_state s ?rid")
    case None
    then have "op = None" "s' = s" using out by (simp_all add: capture_continue_one_def Let_def)
    then show ?thesis using None by (simp add: row_life_def add_store_def view_def life.Absent)
  next
    case (Some st)
    obtain ok s1 where ca: "capture_allowed e ?rid s = (ok, s1)" by fastforce
    have s1: "capture_state s1 = capture_state s" using capture_allowed_state(1) [of e ?rid s] by (simp add: ca)
    note out' = out [unfolded capture_continue_one_def Let_def Some option.case ca prod.case]
    have v: "view s ?rid = Some (view_of st)" by (simp add: view_def Some)
    show ?thesis
    proof (cases "\<not> ok \<or> 0 < cr_num_output_tokens row")
      case True
      then have "op = None" "capture_state s' = (capture_state s)(?rid := None)"
        using out' s1 by (auto simp: close_short_def Let_def split: if_splits)
      then show ?thesis using v by (auto simp: row_life_def add_store_def view_def intro: life.Drop)
    next
      case False
      obtain table where ex: "extend_block_table (cs_block_ids st) (normalize_block_ids (cr_new_block_ids row))
          (?rid \<in> resumed) = Inr table"
        using out' False by (auto split: sum.splits)
      obtain computed s2 where ce: "computed_end e ?rid (cr_num_computed_tokens row)
          (len (cs_token_ids st)) scheduled s1 = (computed, s2)" by fastforce
      have s2: "capture_state s2 = capture_state s"
        using computed_end_state(1) [of e ?rid "cr_num_computed_tokens row" "len (cs_token_ids st)" scheduled s1]
        by (simp add: ce s1)
      have "advance_capture e ?rid (st\<lparr>cs_block_ids := table\<rparr>) computed s2 = (Inr op, s')"
        using out' False by (simp add: ex ce)
      then show ?thesis
        by (rule advance_row_life [OF b]) (simp_all add: v view_of_def s2)
    qed
  qed
qed

lemma continue_rows_life:
  assumes b: "0 < e_block_size e"
  shows "continue_rows e resumed rows scheduled s = (Inr stores, s') \<Longrightarrow>
    life_run e q (view s q) (stores_of q stores) (view s' q)"
proof (induction rows arbitrary: s stores)
  case Nil
  then show ?case by (simp add: stores_of_def life_run.Done)
next
  case (Cons row rows)
  obtain op s1 rest where o: "capture_continue_one e resumed row scheduled s = (Inr op, s1)"
    "continue_rows e resumed rows scheduled s1 = (Inr rest, s')" "stores = add_store op rest"
    using Cons.prems by (auto split: prod.splits sum.splits)
  have "stores_of q stores = stores_of q (add_store op []) @ stores_of q rest"
    unfolding o(3) by (subst add_store_append) simp
  then show ?case
    using life_run_append [OF row_life_run [OF continue_one_life [OF b o(1)]] Cons.IH [OF o(2)]] by simp
qed

lemma admitted_one_other:
  assumes b: "0 < e_block_size e"
    and out: "capture_admitted_one e r scheduled s = (Inr op, s')" and q: "q \<noteq> new_request_id r"
  shows "view s' q = view s q \<and> stores_of q (add_store op []) = []"
proof -
  let ?rid = "new_request_id r"
  show ?thesis
  proof (cases "admission_gate e r ?rid (token_ids_of r) s")
    case (Inl s1)
    then have "op = None" "s' = s1" using out by (simp_all add: capture_admitted_one_def Let_def)
    moreover have "capture_state s1 = capture_state s"
      using Inl by (auto simp: admission_gate_def Let_def capture_allowed_def split: if_splits option.splits)
    ultimately show ?thesis by (simp add: view_def stores_of_def add_store_def)
  next
    case (Inr x)
    obtain table s1 where x: "x = (table, s1)" by (cases x)
    have s1: "capture_state s1 = capture_state s"
      using Inr by (auto simp: x admission_gate_def Let_def capture_allowed_def split: if_splits option.splits)
    define s2 where "s2 = s1\<lparr>capture_boundaries := (capture_boundaries s1)(?rid \<mapsto> num_computed_of r)\<rparr>"
    obtain computed s3 where ce: "computed_end e ?rid (num_computed_of r) (len (token_ids_of r)) scheduled s2
        = (computed, s3)" by fastforce
    have "capture_state s3 = capture_state s2"
      using computed_end_state(1) [of e ?rid "num_computed_of r" "len (token_ids_of r)" scheduled s2]
      by (simp add: ce)
    then have s3: "capture_state s3 = capture_state s" by (simp add: s2_def s1)
    obtain st where adv: "advance_capture e ?rid st computed s3 = (Inr op, s')"
      using out unfolding capture_admitted_one_def Let_def Inr x sum.case prod.case s2_def [symmetric] ce
      by blast
    note l = advance_capture_life [OF b adv]
    have "view s' q = view s q" using l(2) [OF q] s3 by (simp add: view_def)
    moreover have "stores_of q (add_store op []) = []"
      using l(3) q by (cases op) (auto simp: stores_of_def add_store_def)
    ultimately show ?thesis by blast
  qed
qed

lemma admitted_other:
  assumes b: "0 < e_block_size e"
  shows "capture_admitted e rs scheduled s = (Inr stores, s') \<Longrightarrow> q \<notin> new_request_id ` set rs \<Longrightarrow>
    view s' q = view s q \<and> stores_of q stores = []"
proof (induction rs arbitrary: s stores)
  case Nil
  then show ?case by (simp add: stores_of_def)
next
  case (Cons r rs)
  obtain op s1 rest where o: "capture_admitted_one e r scheduled s = (Inr op, s1)"
    "capture_admitted e rs scheduled s1 = (Inr rest, s')" "stores = add_store op rest"
    using Cons.prems(1) by (auto split: prod.splits sum.splits)
  have "stores_of q stores = stores_of q (add_store op []) @ stores_of q rest"
    unfolding o(3) by (subst add_store_append) simp
  then show ?case
    using admitted_one_other [OF b o(1)] Cons.IH [OF o(2)] Cons.prems(2) by auto
qed

lemma retire_capture_other:
  "q \<notin> set ids \<Longrightarrow> capture_state (fold retire_capture ids s) q = capture_state s q"
  by (induction ids arbitrary: s) (auto simp: retire_capture_def)

lemma note_disabled_view [simp]: "view (note_capture_disabled e s) q = view s q"
  by (simp add: note_capture_disabled_def view_def Let_def)

lemma build_store_life:
  assumes b: "0 < e_block_size e" and out: "build_store_metadata e o' s = (Inr stores, s')"
    and q: "q \<notin> set (so_finished_req_ids o')" "q \<notin> new_request_id ` set (so_new_reqs o')"
  shows "life_run e q (view s q) (stores_of q stores) (view s' q)"
proof (cases "materialization_enabled e")
  case False
  then show ?thesis using out by (auto simp: build_store_metadata_def stores_of_def life_run.Done)
next
  case True
  define s1 where "s1 = fold retire_capture (so_finished_req_ids o') s"
  have v1: "view s1 q = view s q" unfolding s1_def by (rule view_cong [OF retire_capture_other [OF q(1)]])
  obtain adm s2 con where o: "capture_admitted e (so_new_reqs o') (so_num_scheduled o') s1 = (Inr adm, s2)"
    "capture_continuations e o' s2 = (Inr con, s')" "stores = adm @ con"
    using out True by (auto simp: build_store_metadata_def s1_def Let_def split: prod.splits sum.splits)
  have "life_run e q (view s2 q) (stores_of q con) (view s' q)"
    using o(2) continue_rows_life [OF b]
    by (auto simp: capture_continuations_def stores_of_def life_run.Done split: option.splits)
  then show ?thesis using admitted_other [OF b o(1) q(2)] v1 o(3) by simp
qed

text \<open>Consecutive scheduler steps, with the stores each ships.\<close>

fun capture_steps ::
  "'p env \<Rightarrow> scheduler_output list \<Rightarrow> ('p, 'z) capture_st_scheme
     \<Rightarrow> (py_error + pending_store list) \<times> ('p, 'z) capture_st_scheme" where
  "capture_steps e [] s = (Inr [], s)"
| "capture_steps e (out # outs) s =
     (case build_store_metadata e out s of
        (Inl err, s1) \<Rightarrow> (Inl err, s1)
      | (Inr stores, s1) \<Rightarrow>
          (case capture_steps e outs s1 of
             (Inl err, s2) \<Rightarrow> (Inl err, s2)
           | (Inr rest, s2) \<Rightarrow> (Inr (stores @ rest), s2)))"

lemma capture_steps_life:
  assumes b: "0 < e_block_size e"
  shows "capture_steps e outs s = (Inr stores, s') \<Longrightarrow>
    (\<forall>o'\<in>set outs. q \<notin> set (so_finished_req_ids o') \<and> q \<notin> new_request_id ` set (so_new_reqs o')) \<Longrightarrow>
    life_run e q (view s q) (stores_of q stores) (view s' q)"
proof (induction outs arbitrary: s stores)
  case Nil
  then show ?case by (simp add: stores_of_def life_run.Done)
next
  case (Cons o' outs)
  obtain xs s1 rest where o: "build_store_metadata e o' s = (Inr xs, s1)"
    "capture_steps e outs s1 = (Inr rest, s')" "stores = xs @ rest"
    using Cons.prems(1) by (auto split: prod.splits sum.splits)
  have "life_run e q (view s q) (stores_of q xs) (view s1 q)"
    using build_store_life [OF b o(1)] Cons.prems(2) by simp
  from life_run_append [OF this Cons.IH [OF o(2)]] Cons.prems(2) show ?case by (simp add: o(3))
qed

subsection \<open>Served requests\<close>

lemma advance_capture_served [simp]:
  "served_request_ids (snd (advance_capture e rid st computed s)) = served_request_ids s"
  by (simp add: advance_capture_def Let_def split: list.splits)

lemma admission_gate_frame:
  assumes "admission_gate e r rid ids s = x"
  shows "case x of Inl s1 \<Rightarrow> capture_state s1 = capture_state s
             \<and> served_request_ids s - {rid} \<subseteq> served_request_ids s1 \<and> served_request_ids s1 \<subseteq> served_request_ids s
         | Inr (table, s1) \<Rightarrow> capture_state s1 = capture_state s
             \<and> served_request_ids s - {rid} \<subseteq> served_request_ids s1 \<and> served_request_ids s1 \<subseteq> served_request_ids s
             \<and> (rid \<in> served_request_ids s \<longrightarrow> c_capture_served_requests (e_config e))"
  unfolding assms [symmetric]
  by (auto simp: admission_gate_def Let_def capture_allowed_def split: option.splits)

lemma computed_end_capture [simp]:
  "computed_end e rid n p m s = (c, s1) \<Longrightarrow> capture_state s1 = capture_state s"
  "computed_end e rid n p m s = (c, s1) \<Longrightarrow> served_request_ids s1 = served_request_ids s"
  using computed_end_state(1,5) [of e rid n p m s] by simp_all

lemma capture_admitted_one_served:
  assumes out: "capture_admitted_one e r scheduled s = (res, s')"
  shows "q \<noteq> new_request_id r \<Longrightarrow> q \<in> served_request_ids s' \<longleftrightarrow> q \<in> served_request_ids s"
    and "new_request_id r \<in> served_request_ids s \<Longrightarrow> \<not> c_capture_served_requests (e_config e) \<Longrightarrow>
           res = Inr None \<and> capture_state s' = capture_state s"
proof -
  let ?rid = "new_request_id r"
  have "(q \<noteq> ?rid \<longrightarrow> (q \<in> served_request_ids s' \<longleftrightarrow> q \<in> served_request_ids s))
    \<and> (?rid \<in> served_request_ids s \<longrightarrow> \<not> c_capture_served_requests (e_config e) \<longrightarrow>
           res = Inr None \<and> capture_state s' = capture_state s)"
  proof (cases "admission_gate e r ?rid (token_ids_of r) s")
    case (Inl s1)
    then have "res = Inr None" "s' = s1" using out by (simp_all add: capture_admitted_one_def Let_def)
    then show ?thesis using admission_gate_frame [OF Inl] by auto
  next
    case (Inr x)
    obtain table s1 where x: "x = (table, s1)" by (cases x)
    note g = admission_gate_frame [OF Inr, unfolded x sum.case prod.case]
    define s2 where "s2 = s1\<lparr>capture_boundaries := (capture_boundaries s1)(?rid \<mapsto> num_computed_of r)\<rparr>"
    define st where "st = \<lparr>cs_token_ids = token_ids_of r, cs_block_ids = table,
                        cs_namespace = namespace_for_request e r, cs_captured_end = 0\<rparr>"
    obtain computed s3 where ce: "computed_end e ?rid (num_computed_of r) (len (token_ids_of r)) scheduled s2
        = (computed, s3)" by fastforce
    have "advance_capture e ?rid st computed s3 = (res, s')"
      using out unfolding capture_admitted_one_def Let_def Inr x sum.case prod.case s2_def [symmetric] ce
        st_def [symmetric] .
    then have "served_request_ids s' = served_request_ids s3"
      using advance_capture_served [of e ?rid st computed s3] by simp
    then have "served_request_ids s' = served_request_ids s1"
      using computed_end_capture(2) [OF ce] by (simp add: s2_def)
    then show ?thesis using g by auto
  qed
  then show "q \<noteq> ?rid \<Longrightarrow> q \<in> served_request_ids s' \<longleftrightarrow> q \<in> served_request_ids s"
    "?rid \<in> served_request_ids s \<Longrightarrow> \<not> c_capture_served_requests (e_config e) \<Longrightarrow>
      res = Inr None \<and> capture_state s' = capture_state s" by blast+
qed

lemma capture_admitted_served:
  assumes c: "\<not> c_capture_served_requests (e_config e)"
  shows "capture_admitted e rs scheduled s = (Inr stores, s') \<Longrightarrow> 0 < e_block_size e \<Longrightarrow>
    q \<in> served_request_ids s \<Longrightarrow> count_list (map new_request_id rs) q \<le> 1 \<Longrightarrow>
    stores_of q stores = [] \<and> view s' q = view s q
      \<and> (q \<notin> new_request_id ` set rs \<longrightarrow> q \<in> served_request_ids s')"
proof (induction rs arbitrary: s stores)
  case Nil
  then show ?case by (simp add: stores_of_def)
next
  case (Cons r rs)
  obtain op s1 rest where o: "capture_admitted_one e r scheduled s = (Inr op, s1)"
    "capture_admitted e rs scheduled s1 = (Inr rest, s')" "stores = add_store op rest"
    using Cons.prems(1) by (auto split: prod.splits sum.splits)
  have split: "stores_of q stores = stores_of q (add_store op []) @ stores_of q rest"
    unfolding o(3) by (subst add_store_append) simp
  show ?case
  proof (cases "q = new_request_id r")
    case True
    then have none: "op = None" and cs: "capture_state s1 = capture_state s"
      using capture_admitted_one_served(2) [OF o(1)] Cons.prems(3) c by simp_all
    have "count_list (map new_request_id rs) q = 0" using Cons.prems(4) True by simp
    then have "q \<notin> new_request_id ` set rs" by (simp add: count_list_0_iff)
    then have "view s' q = view s1 q \<and> stores_of q rest = []"
      by (rule admitted_other [OF Cons.prems(2) o(2)])
    then show ?thesis using True split none view_cong [of s1 q s] cs
      by (simp add: add_store_def stores_of_def)
  next
    case False
    then have "q \<in> served_request_ids s1" using capture_admitted_one_served(1) [OF o(1)] Cons.prems(3) by simp
    note ih = Cons.IH [OF o(2) Cons.prems(2) this]
    then show ?thesis using False split admitted_one_other [OF Cons.prems(2) o(1) False] Cons.prems(4)
      by simp
  qed
qed

lemma row_life_other: "row_life e rid q s op s' \<Longrightarrow> q \<noteq> rid \<Longrightarrow>
    view s' q = view s q \<and> stores_of q (add_store op []) = []"
  by (auto simp: row_life_def add_store_def stores_of_def split: option.splits)

lemma continue_one_served:
  assumes out: "capture_continue_one e resumed row scheduled s = (res, s')"
  shows "q \<noteq> cr_req_id row \<Longrightarrow> q \<in> served_request_ids s' \<longleftrightarrow> q \<in> served_request_ids s"
    and "cr_req_id row \<in> served_request_ids s \<Longrightarrow> \<not> c_capture_served_requests (e_config e) \<Longrightarrow>
           res = Inr None \<and> view s' (cr_req_id row) = None"
proof -
  let ?rid = "cr_req_id row"
  have "(q \<noteq> ?rid \<longrightarrow> (q \<in> served_request_ids s' \<longleftrightarrow> q \<in> served_request_ids s))
    \<and> (?rid \<in> served_request_ids s \<longrightarrow> \<not> c_capture_served_requests (e_config e) \<longrightarrow>
           res = Inr None \<and> view s' ?rid = None)"
  proof (cases "capture_state s ?rid")
    case None
    then show ?thesis using out by (auto simp: capture_continue_one_def Let_def view_def)
  next
    case (Some st)
    obtain ok s1 where ca: "capture_allowed e ?rid s = (ok, s1)" by fastforce
    have s1: "capture_state s1 = capture_state s" "q \<noteq> ?rid \<longrightarrow> (q \<in> served_request_ids s1 \<longleftrightarrow> q \<in> served_request_ids s)"
      "?rid \<in> served_request_ids s \<longrightarrow> ok = c_capture_served_requests (e_config e)"
      using ca by (auto simp: capture_allowed_def split: if_splits)
    note out' = out [unfolded capture_continue_one_def Let_def Some option.case ca prod.case]
    show ?thesis
    proof (cases "ok \<and> \<not> 0 < cr_num_output_tokens row")
      case False
      then show ?thesis using out' s1 by (auto simp: close_short_def Let_def view_def split: if_splits)
    next
      case True
      have "served_request_ids s' = served_request_ids s1"
      proof (cases "extend_block_table (cs_block_ids st) (normalize_block_ids (cr_new_block_ids row)) (?rid \<in> resumed)")
        case (Inl err)
        then show ?thesis using out' True by simp
      next
        case (Inr table)
        obtain computed s2 where ce: "computed_end e ?rid (cr_num_computed_tokens row)
            (len (cs_token_ids st)) scheduled s1 = (computed, s2)" by fastforce
        have "advance_capture e ?rid (st\<lparr>cs_block_ids := table\<rparr>) computed s2 = (res, s')"
          using out' True by (simp add: Inr ce)
        then show ?thesis
          using advance_capture_served [of e ?rid "st\<lparr>cs_block_ids := table\<rparr>" computed s2]
            computed_end_capture(2) [OF ce] by simp
      qed
      then show ?thesis using s1 True by auto
    qed
  qed
  then show "q \<noteq> ?rid \<Longrightarrow> q \<in> served_request_ids s' \<longleftrightarrow> q \<in> served_request_ids s"
    "?rid \<in> served_request_ids s \<Longrightarrow> \<not> c_capture_served_requests (e_config e) \<Longrightarrow>
      res = Inr None \<and> view s' ?rid = None" by blast+
qed

lemma continue_rows_other:
  assumes b: "0 < e_block_size e"
  shows "continue_rows e resumed rows scheduled s = (Inr stores, s') \<Longrightarrow> q \<notin> cr_req_id ` set rows \<Longrightarrow>
    view s' q = view s q \<and> stores_of q stores = []"
proof (induction rows arbitrary: s stores)
  case Nil
  then show ?case by (simp add: stores_of_def)
next
  case (Cons row rows)
  obtain op s1 rest where o: "capture_continue_one e resumed row scheduled s = (Inr op, s1)"
    "continue_rows e resumed rows scheduled s1 = (Inr rest, s')" "stores = add_store op rest"
    using Cons.prems(1) by (auto split: prod.splits sum.splits)
  have "stores_of q stores = stores_of q (add_store op []) @ stores_of q rest"
    unfolding o(3) by (subst add_store_append) simp
  then show ?case
    using row_life_other [OF continue_one_life [OF b o(1)], of q] Cons.IH [OF o(2)] Cons.prems(2) by auto
qed

lemma continue_rows_served:
  assumes c: "\<not> c_capture_served_requests (e_config e)" and b: "0 < e_block_size e"
  shows "continue_rows e resumed rows scheduled s = (Inr stores, s') \<Longrightarrow>
    q \<in> served_request_ids s \<Longrightarrow> count_list (map cr_req_id rows) q \<le> 1 \<Longrightarrow>
    stores_of q stores = [] \<and> (q \<in> cr_req_id ` set rows \<or> view s q = None \<longrightarrow> view s' q = None)"
proof (induction rows arbitrary: s stores)
  case Nil
  then show ?case by (simp add: stores_of_def)
next
  case (Cons row rows)
  obtain op s1 rest where o: "capture_continue_one e resumed row scheduled s = (Inr op, s1)"
    "continue_rows e resumed rows scheduled s1 = (Inr rest, s')" "stores = add_store op rest"
    using Cons.prems(1) by (auto split: prod.splits sum.splits)
  have split: "stores_of q stores = stores_of q (add_store op []) @ stores_of q rest"
    unfolding o(3) by (subst add_store_append) simp
  show ?case
  proof (cases "q = cr_req_id row")
    case True
    then have none: "op = None" and v: "view s1 q = None"
      using continue_one_served(2) [OF o(1)] Cons.prems(2) c by simp_all
    have "count_list (map cr_req_id rows) q = 0" using Cons.prems(3) True by simp
    then have "q \<notin> cr_req_id ` set rows" by (simp add: count_list_0_iff)
    from continue_rows_other [OF b o(2) this] show ?thesis
      using True split none v by (simp add: add_store_def stores_of_def)
  next
    case False
    then have "q \<in> served_request_ids s1" using continue_one_served(1) [OF o(1)] Cons.prems(2) by simp
    note ih = Cons.IH [OF o(2) this]
    then show ?thesis using False split row_life_other [OF continue_one_life [OF b o(1)] False] Cons.prems(3)
      by simp
  qed
qed

text \<open>The requests one step touches, in the order the handler visits them.\<close>

definition step_ids :: "scheduler_output \<Rightarrow> string list" where
  "step_ids out = map new_request_id (so_new_reqs out)
     @ (case so_cached out of None \<Rightarrow> [] | Some (rows, _) \<Rightarrow> map cr_req_id rows)"

lemma retire_capture_served [simp]:
  "served_request_ids (fold retire_capture ids s) = served_request_ids s"
  by (induction ids arbitrary: s) (simp_all add: retire_capture_def)

lemma retire_capture_none:
  "capture_state s q = None \<Longrightarrow> capture_state (fold retire_capture ids s) q = None"
  by (induction ids arbitrary: s) (simp_all add: retire_capture_def)

lemma occurs_once:
  assumes "count_list (xs @ ys) q \<le> 1"
  shows "count_list xs q \<le> 1" and "count_list ys q \<le> 1" and "q \<in> set xs \<Longrightarrow> q \<notin> set ys"
proof -
  have "0 < count_list xs q" if "q \<in> set xs" using that count_list_0_iff [of xs q] by linarith
  moreover have "0 < count_list ys q" if "q \<in> set ys" using that count_list_0_iff [of ys q] by linarith
  ultimately show "count_list xs q \<le> 1" and "count_list ys q \<le> 1" and "q \<in> set xs \<Longrightarrow> q \<notin> set ys"
    using assms by fastforce+
qed

text \<open>
  A request that loaded donor KV is not captured: while \<open>capture_served_requests\<close> is off, a step
  in which a served request appears (at most once) ships no store for it, and leaves no capture open
  for it whether it was being captured (a continuation) or not.
\<close>

theorem served_request_not_captured:
  assumes "build_store_metadata e out s = (Inr stores, s')"
    and "0 < e_block_size e" and "\<not> c_capture_served_requests (e_config e)"
    and "q \<in> served_request_ids s" and "count_list (step_ids out) q \<le> 1"
  shows "stores_of q stores = []
    \<and> (capture_state s q = None
        \<or> (\<exists>rows resumed. so_cached out = Some (rows, resumed) \<and> q \<in> cr_req_id ` set rows
              \<and> materialization_enabled e) \<longrightarrow>
       capture_state s' q = None)"
proof -
  have "stores_of q stores = []
    \<and> (view s q = None
        \<or> (\<exists>rows resumed. so_cached out = Some (rows, resumed) \<and> q \<in> cr_req_id ` set rows
              \<and> materialization_enabled e) \<longrightarrow>
       view s' q = None)"
  proof (cases "materialization_enabled e")
    case False
    then show ?thesis using assms(1) by (auto simp: build_store_metadata_def stores_of_def)
  next
    case True
    define s1 where "s1 = fold retire_capture (so_finished_req_ids out) s"
    have "capture_state s q = None \<Longrightarrow> capture_state s1 q = None"
      unfolding s1_def by (rule retire_capture_none)
    then have v1: "view s q = None \<Longrightarrow> view s1 q = None" by (simp add: view_def)
    obtain adm s2 con where o: "capture_admitted e (so_new_reqs out) (so_num_scheduled out) s1 = (Inr adm, s2)"
      "capture_continuations e out s2 = (Inr con, s')" "stores = adm @ con"
      using assms(1) True by (auto simp: build_store_metadata_def s1_def Let_def split: prod.splits sum.splits)
    have "q \<in> served_request_ids s1" using assms(4) by (simp add: s1_def)
    note a = capture_admitted_served [OF assms(3) o(1) assms(2) this]
    show ?thesis
    proof (cases "so_cached out")
      case None
      then have "count_list (map new_request_id (so_new_reqs out)) q \<le> 1" using assms(5) by (simp add: step_ids_def)
      from a [OF this] show ?thesis using None o(2,3) v1
        by (simp add: capture_continuations_def stores_of_def)
    next
      case (Some x)
      then obtain rows resumed where x: "so_cached out = Some (rows, resumed)" by (cases x) simp
      have ids: "step_ids out = map new_request_id (so_new_reqs out) @ map cr_req_id rows"
        by (simp add: step_ids_def x)
      note cnt = occurs_once [OF assms(5) [unfolded ids]]
      have con: "continue_rows e resumed rows (so_num_scheduled out) s2 = (Inr con, s')"
        using o(2) x by (simp add: capture_continuations_def)
      note a' = a [OF cnt(1)]
      show ?thesis
      proof (cases "q \<in> new_request_id ` set (so_new_reqs out)")
        case True
        then have "q \<notin> cr_req_id ` set rows" using cnt(3) by simp
        from continue_rows_other [OF assms(2) con this] this show ?thesis using a' o(3) v1 x by auto
      next
        case False
        then have "q \<in> served_request_ids s2" using a' by simp
        from continue_rows_served [OF assms(3,2) con this cnt(2)] show ?thesis using a' o(3) v1 x by auto
      qed
    qed
  qed
  then show ?thesis by (simp add: view_def)
qed

subsection \<open>Properties\<close>

text \<open>
  C15. Captures publish growing prefixes of one prompt: over any run of scheduler steps in which a
  request is neither finished nor admitted again, the stores shipped for it are those of the abstract
  life of its capture. All carry its prompt and namespace, their token counts strictly increase from
  where the capture stood, each lies on a block edge within the cacheable prefix, and a store is final
  exactly when it reaches that prefix, after which nothing more is shipped. A request with no open
  capture ships nothing.
\<close>

theorem capture_stores_grow:
  assumes "0 < e_block_size e" and "capture_steps e outs s = (Inr stores, s')"
    and "\<forall>out\<in>set outs. q \<notin> set (so_finished_req_ids out) \<and> q \<notin> new_request_id ` set (so_new_reqs out)"
  shows "case capture_state s q of
      Some st \<Rightarrow> store_chain e q (view_of st) (stores_of q stores)
        \<and> ((\<exists>p\<in>set (stores_of q stores). ps_final p) \<longrightarrow> capture_state s' q = None)
    | None \<Rightarrow> stores_of q stores = [] \<and> capture_state s' q = None"
proof -
  have run: "life_run e q (view s q) (stores_of q stores) (view s' q)"
    by (rule capture_steps_life [OF assms(1,2)]) (use assms(3) in blast)
  show ?thesis
  proof (cases "capture_state s q")
    case None
    then show ?thesis using life_run_None [OF run] by (simp add: view_def)
  next
    case (Some st)
    then have v: "view s q = Some (view_of st)" by (simp add: view_def)
    note run' = run [unfolded v]
    show ?thesis
      using life_run_chain [OF run' assms(1)] life_run_final [OF run'] Some by (auto simp: view_def)
  qed
qed

text \<open>
  C23. One advance ships exactly what is computed: with a positive cap and a block table, a store is
  emitted if and only if the whole blocks that are computed, allocated and cacheable reach past what
  was captured; it covers precisely those blocks, the record of the opened capture is noted, and the
  capture closes exactly when they are all the prompt can offer.
\<close>

theorem advance_capture_exact:
  assumes "0 < e_block_size e" and "cs_block_ids st = head # rest"
    and "0 < cacheable_prefix_tokens (len (cs_token_ids st)) (e_block_size e)"
    and "advance_capture e rid st computed s = (res, s')"
  shows "\<exists>k. e_block_size e dvd k \<and> k \<le> computed \<and> k \<le> len head * e_block_size e
      \<and> k \<le> cacheable_prefix_tokens (len (cs_token_ids st)) (e_block_size e)
      \<and> (k + e_block_size e > computed \<or> k = len head * e_block_size e
          \<or> k = cacheable_prefix_tokens (len (cs_token_ids st)) (e_block_size e))
      \<and> res = Inr (if cs_captured_end st < k
                 then Some (store_of rid st k (k = cacheable_prefix_tokens (len (cs_token_ids st)) (e_block_size e)))
                 else None)
      \<and> (cs_captured_end st < k \<longrightarrow> captures_opened s' rid = Some (cs_namespace st)
          \<and> (capture_state s' rid = None \<longleftrightarrow> k = cacheable_prefix_tokens (len (cs_token_ids st)) (e_block_size e)))"
proof -
  let ?b = "e_block_size e"
  define cap where "cap = cacheable_prefix_tokens (len (cs_token_ids st)) ?b"
  define k where "k = capture_end e st head computed"
  have dv: "?b dvd cap" unfolding cap_def by (rule cacheable_prefix_bounds(2) [OF assms(1)])
  have k: "k = min (min cap (len head * ?b)) ((computed div ?b) * ?b)" by (simp add: k_def capture_end_def cap_def)
  have "?b dvd k" unfolding k using dv by (intro dvd_min) auto
  have fl: "(computed div ?b) * ?b \<le> computed" "computed < (computed div ?b) * ?b + ?b"
    using assms(1) by (simp_all add: minus_mod_eq_div_mult [symmetric])
  have le: "k \<le> computed" "k \<le> len head * ?b" "k \<le> cap" using fl(1) by (simp_all add: k)
  have tight: "k + ?b > computed \<or> k = len head * ?b \<or> k = cap" using fl(2) by (auto simp: k min_def)
  note adv = assms(4) [unfolded advance_capture_def Let_def assms(2) list.case cap_def [symmetric] k_def [symmetric]]
  have pos: "\<not> cap \<le> 0" using assms(3) by (simp add: cap_def)
  show ?thesis
    unfolding cap_def [symmetric]
    using adv pos le by (intro exI [of _ k] conjI \<open>?b dvd k\<close> le tight) (auto split: if_splits)
qed

text \<open>
  Sampling is nested: which requests are sampled depends on the request id and the rate only, every
  request is sampled at rate 1 and none at 0, and raising the rate never drops a request.
\<close>

theorem sampling_nested:
  fixes e e' :: "'p env"
  assumes "e_sha256_int64 e' = e_sha256_int64 e"
    and "c_capture_sample_rate (e_config e) \<le> c_capture_sample_rate (e_config e')"
    and "sampled_for_capture e rid"
  shows "sampled_for_capture e' rid \<and> 0 < c_capture_sample_rate (e_config e')"
proof -
  let ?r = "c_capture_sample_rate (e_config e)" and ?r' = "c_capture_sample_rate (e_config e')"
  have pos: "0 < ?r" using assms(3) by (auto simp: sampled_for_capture_def Let_def split: if_splits)
  have "rat_of_int (e_sha256_int64 e rid) < ?r * 2 ^ 64" if "?r < 1"
    using assms(3) that by (auto simp: sampled_for_capture_def Let_def split: if_splits)
  moreover have "?r * 2 ^ 64 \<le> ?r' * 2 ^ 64" using assms(2) by (rule mult_right_mono) simp
  ultimately show ?thesis
    using pos assms(1,2) unfolding sampled_for_capture_def Let_def by (cases "1 \<le> ?r'") auto
qed

subsection \<open>Witnesses\<close>

definition capture_env :: "unit env" where
  "capture_env = (sample_env silent_provider (default_config\<lparr>c_mode := SEMANTIC_SPAN_EXPERIMENTAL\<rparr>))\<lparr>e_block_size := 2\<rparr>"

definition half_capture :: open_capture where
  "half_capture = \<lparr>cs_token_ids = [5, 6, 7, 8, 9, 10, 11], cs_block_ids = [[1]], cs_namespace = ''n'', cs_captured_end = 0\<rparr>"

definition capture_sample :: "unit capture_st" where
  "capture_sample = fill_st.extend (fill_st.truncate fill_state)
     \<lparr>capture_state = [''q'' \<mapsto> half_capture], capture_boundaries = Map.empty, captures_opened = Map.empty,
      capture_skipped_reasons = Map.empty, pending_finalize = []\<rparr>"

definition decode_step :: "nat list \<Rightarrow> int \<Rightarrow> scheduler_output" where
  "decode_step bs done = \<lparr>so_finished_req_ids = [], so_new_reqs = [],
     so_cached = Some ([\<lparr>cr_req_id = ''q'', cr_new_block_ids = Flat_blocks bs, cr_num_computed_tokens = done,
                         cr_num_output_tokens = 0\<rparr>], {}),
     so_num_scheduled = Some [''q'' \<mapsto> 2]\<rparr>"

lemma capture_run: "map_option (map ps_token_count)
    (case fst (capture_steps capture_env [decode_step [] 0, decode_step [2, 3] 2] capture_sample) of
       Inr xs \<Rightarrow> Some xs | Inl _ \<Rightarrow> None) = Some [2, 4]"
  by code_simp

theorem capture_stores_grow_witness:
  "\<exists>stores s'. capture_steps capture_env [decode_step [] 0, decode_step [2, 3] 2] capture_sample = (Inr stores, s')
     \<and> map ps_token_count stores = [2, 4] \<and> store_chain capture_env ''q'' (view_of half_capture) (stores_of ''q'' stores)"
proof -
  let ?outs = "[decode_step [] 0, decode_step [2, 3] 2]"
  obtain r s' where run: "capture_steps capture_env ?outs capture_sample = (r, s')" by fastforce
  obtain stores where r: "r = Inr stores" "map ps_token_count stores = [2, 4]"
    using capture_run unfolding run by (auto split: sum.splits)
  have st: "capture_state capture_sample ''q'' = Some half_capture"
    by (simp add: capture_sample_def fill_st.defs)
  have b: "0 < e_block_size capture_env" by (simp add: capture_env_def)
  have "\<forall>out\<in>set ?outs. ''q'' \<notin> set (so_finished_req_ids out) \<and> ''q'' \<notin> new_request_id ` set (so_new_reqs out)"
    by (simp add: decode_step_def)
  from capture_stores_grow [OF b run [unfolded r(1)] this]
  have "store_chain capture_env ''q'' (view_of half_capture) (stores_of ''q'' stores)"
    by (simp only: st option.case)
  then show ?thesis using run [unfolded r(1)] r(2) by (intro exI conjI)
qed

lemma half_params:
  "0 < e_block_size capture_env" "cs_block_ids half_capture = [1] # []"
  "cacheable_prefix_tokens (len (cs_token_ids half_capture)) (e_block_size capture_env) = 4"
  "e_block_size capture_env = 2" "cs_captured_end half_capture = 0"
  by (simp_all add: capture_env_def half_capture_def cacheable_prefix_tokens_def)

theorem advance_capture_exact_witness:
  "\<exists>p. fst (advance_capture capture_env ''q'' half_capture 3 capture_sample) = Inr (Some p) \<and> ps_token_count p = 2"
proof -
  have pos: "0 < cacheable_prefix_tokens (len (cs_token_ids half_capture)) (e_block_size capture_env)"
    by (simp only: half_params(3))
  obtain k where k: "2 dvd k" "k \<le> 3" "k \<le> 2" "k + 2 > 3 \<or> k = 2 \<or> k = 4"
      "fst (advance_capture capture_env ''q'' half_capture 3 capture_sample) = Inr (if 0 < k
                 then Some (store_of ''q'' half_capture k (k = 4)) else None)"
    using advance_capture_exact [OF half_params(1,2) pos surjective_pairing, where rid = "''q''" and computed = 3 and s = capture_sample]
    unfolding half_params(3) unfolding half_params(4,5) by (elim exE conjE) simp
  have "k = 2" using k(1-4) by auto
  then show ?thesis using k(5) by (intro exI conjI) (simp, simp add: store_of_def)
qed

theorem sampling_nested_witness:
  "sampled_for_capture (sample_env silent_provider (default_config\<lparr>c_capture_sample_rate := 1 / 2\<rparr>)) ''q''"
  using sampling_nested [where e = "sample_env silent_provider (default_config\<lparr>c_capture_sample_rate := 1 / 4\<rparr>)"
      and e' = "sample_env silent_provider (default_config\<lparr>c_capture_sample_rate := 1 / 2\<rparr>)" and rid = "''q''"]
  by (simp add: sample_env_def sampled_for_capture_def)

theorem served_request_not_captured_witness:
  "\<exists>stores s'. build_store_metadata capture_env (decode_step [] 0) (capture_sample\<lparr>served_request_ids := {''q''}\<rparr>)
      = (Inr stores, s') \<and> stores_of ''q'' stores = [] \<and> capture_state s' ''q'' = None"
proof -
  let ?s = "capture_sample\<lparr>served_request_ids := {''q''}\<rparr>"
  have "\<not> isl (fst (build_store_metadata capture_env (decode_step [] 0) ?s))" by code_simp
  then obtain stores where st: "fst (build_store_metadata capture_env (decode_step [] 0) ?s) = Inr stores"
    by (cases "fst (build_store_metadata capture_env (decode_step [] 0) ?s)") auto
  obtain s' where run: "build_store_metadata capture_env (decode_step [] 0) ?s = (Inr stores, s')"
    using fst_run [OF st] by blast
  have "materialization_enabled capture_env" by code_simp
  then show ?thesis
    using run served_request_not_captured [OF run, where q = "''q''"]
    by (simp add: capture_env_def decode_step_def step_ids_def sample_env_def default_config_def)
qed

end
