(* ===== verification/Registration.thy ===== *)
theory Registration
  imports CaptureProps
begin

text \<open>
  The scheduler role's other recurring hooks: \<open>on_new_request\<close>, \<open>request_finished\<close> with the donor
  registration it makes or defers, the bounded retries of deferred donors, \<open>build_connector_meta\<close>,
  and the scheduler's part of \<open>shutdown\<close>. The worker publishes between hooks, in another process, so
  what the volume holds is an argument of each hook.
\<close>

record pending_registration =
  pr_donor :: donor_registration
  pr_capture_namespace :: string
  pr_text_offset :: int
  pr_text_chars :: int
  pr_text_fallback :: "slice_fallback option"
  pr_opened_at_step :: int

record 'p reg_st = "'p capture_st" +
  deferred_registrations :: "(string, pending_registration) odict"
  scheduler_step :: int

subsection \<open>Offering a donor\<close>

definition donor_num_blocks :: "donor_registration \<Rightarrow> int" where
  "donor_num_blocks d = (case get_item (dr_metadata d) ''num_blocks'' of PInt n \<Rightarrow> n | _ \<Rightarrow> 0)"

definition register_pending_donor ::
  "'p env \<Rightarrow> pending_registration \<Rightarrow> int \<Rightarrow> ('p, 'z) match_st_scheme \<Rightarrow> ('p, 'z) match_st_scheme" where
  "register_pending_donor e pending waited s =
     (let donor = pr_donor pending;
          failed = (\<lambda>error_type s1.
            audit e (Some (dr_donor_id donor)) (ER (Registration_failed error_type))
              (bump (SR Donor_registration_errors_total) s1))
      in case provider s of
           None \<Rightarrow> failed ''AttributeError'' s
         | Some p \<Rightarrow>
             (case po_register_donor (e_provider e) p donor of
                (Inl error_type, p') \<Rightarrow> failed error_type (s\<lparr>provider := Some p'\<rparr>)
              | (Inr _, p') \<Rightarrow>
                  audit e (Some (dr_donor_id donor))
                    (ER (Donor_registered (dr_namespace donor) (len (dr_token_ids donor))
                           (donor_num_blocks donor) (dr_metadata donor) (pr_text_offset pending)
                           (pr_text_chars pending) (pr_text_fallback pending) waited
                           (c_kv_storage_backend (e_config e))))
                    (bump (SR Donors_registered_total) (s\<lparr>provider := Some p'\<rparr>))))"

definition decline_undurable_donor ::
  "'p env \<Rightarrow> pending_registration \<Rightarrow> int \<Rightarrow> 'z audit_st_scheme \<Rightarrow> 'z audit_st_scheme" where
  "decline_undurable_donor e pending waited s =
     audit e (Some (dr_donor_id (pr_donor pending)))
       (ER (Registration_skipped_not_durable (len (dr_token_ids (pr_donor pending))) waited
              (c_kv_storage_backend (e_config e))))
       (bump (SR Donor_registration_skipped_not_durable) s)"

definition defer_donor_registration ::
  "'p env \<Rightarrow> pending_registration \<Rightarrow> ('p, 'z) reg_st_scheme \<Rightarrow> ('p, 'z) reg_st_scheme" where
  "defer_donor_registration e pending s =
     (if c_donor_registration_retry_steps (e_config e) \<le> 0 then decline_undurable_donor e pending 0 s
      else audit e (Some (dr_donor_id (pr_donor pending)))
             (ER (Registration_deferred (len (dr_token_ids (pr_donor pending)))
                    (c_donor_registration_retry_steps (e_config e)) (c_kv_storage_backend (e_config e))))
             (bump (SR Donor_registration_deferred_total)
               (s\<lparr>deferred_registrations := od_set (deferred_registrations s) (dr_donor_id (pr_donor pending))
                    (pending\<lparr>pr_opened_at_step := scheduler_step s\<rparr>)\<rparr>)))"

text \<open>One held donor of a retry pass, and the pass over a snapshot of them.\<close>

definition retry_one ::
  "'p env \<Rightarrow> volume \<Rightarrow> bool \<Rightarrow> string \<times> pending_registration \<Rightarrow> ('p, 'z) reg_st_scheme
     \<Rightarrow> ('p, 'z) reg_st_scheme" where
  "retry_one e vol final entry s =
     (let (rid, pending) = entry;
          waited = max 0 (scheduler_step s - pr_opened_at_step pending);
          s1 = s\<lparr>deferred_registrations := od_pop (deferred_registrations s) rid\<rparr>
      in if has_stored_donor e vol rid (pr_capture_namespace pending)
         then register_pending_donor e pending waited s1
         else if waited < c_donor_registration_retry_steps (e_config e) \<and> \<not> final then s
         else decline_undurable_donor e pending waited s1)"

definition retry_deferred_registrations ::
  "'p env \<Rightarrow> volume \<Rightarrow> bool \<Rightarrow> ('p, 'z) reg_st_scheme \<Rightarrow> ('p, 'z) reg_st_scheme" where
  "retry_deferred_registrations e vol final s =
     fold (retry_one e vol final) (deferred_registrations s) s"

subsection \<open>The finish of a request\<close>

definition on_new_request ::
  "'p env \<Rightarrow> request \<Rightarrow> 'z audit_st_scheme \<Rightarrow> 'z audit_st_scheme" where
  "on_new_request e r s =
     audit e (Some (request_id_of r)) (ER (Request_first_seen (len (token_ids_of r)))) s"

text \<open>The exits of \<open>_register_donor_on_finish\<close> in their order: the counter and event of the first.\<close>

definition registration_exit ::
  "'p env \<Rightarrow> string \<Rightarrow> int list \<Rightarrow> ('p, 'z) capture_st_scheme \<Rightarrow> (reg_stat \<times> reg_event) option" where
  "registration_exit e rid token_ids s =
     (case e_compat_decline e of
        Some why \<Rightarrow> Some (Donor_registration_skipped_incompatible, Registration_skipped_incompatible why)
      | None \<Rightarrow>
          if \<not> c_register_donors (e_config e)
          then Some (Donor_registration_skipped_disabled, Registration_skipped_disabled)
          else if provider s = None
          then Some (Donor_registration_skipped_no_provider,
                     Registration_skipped_no_provider (c_provider (e_config e)))
          else if len token_ids < c_min_prompt_tokens (e_config e)
          then Some (Donor_registration_skipped_short_prompt,
                     Registration_skipped_short_prompt (len token_ids) (c_min_prompt_tokens (e_config e)))
          else case capture_skipped_reasons s rid of
            Some reason \<Rightarrow> Some (Donor_registration_skipped_no_captured_kv,
                                Registration_skipped_no_captured_kv reason (len token_ids))
          | None \<Rightarrow> None)"

definition donor_of :: "'p env \<Rightarrow> request \<Rightarrow> string \<Rightarrow> nat \<Rightarrow> string option \<Rightarrow> donor_registration" where
  "donor_of e r rid num_blocks text =
     \<lparr>dr_donor_id = rid, dr_token_ids = token_ids_of r, dr_prompt_text = text,
      dr_model_id = model_id_from_config e, dr_namespace = namespace_for_request e r,
      dr_cache_salt = cache_salt_for_request r, dr_has_captured_kv = True,
      dr_metadata = (''num_blocks'', PInt (int num_blocks)) # routing_metadata r\<rparr>"

definition register_donor_on_finish ::
  "'p env \<Rightarrow> volume \<Rightarrow> request \<Rightarrow> string \<Rightarrow> nat \<Rightarrow> ('p, 'z) reg_st_scheme \<Rightarrow> ('p, 'z) reg_st_scheme" where
  "register_donor_on_finish e vol r rid num_blocks s =
     (case registration_exit e rid (token_ids_of r) s of
        Some (counter, event) \<Rightarrow> audit e (Some rid) (ER event) (bump (SR counter) s)
      | None \<Rightarrow>
          (let boundary = (case capture_boundaries s rid of None \<Rightarrow> 0 | Some b \<Rightarrow> b);
               ((text, offset, chars, fallback), s1) =
                 boundary_sliced_text e r (token_ids_of r) boundary Donor_text s;
               pending = \<lparr>pr_donor = donor_of e r rid num_blocks text,
                          pr_capture_namespace =
                            (case captures_opened s1 rid of None \<Rightarrow> [] | Some ns \<Rightarrow> ns),
                          pr_text_offset = offset, pr_text_chars = chars, pr_text_fallback = fallback,
                          pr_opened_at_step = 0\<rparr>
           in case captures_opened s1 rid of
                Some ns \<Rightarrow> if has_stored_donor e vol rid ns then register_pending_donor e pending 0 s1
                           else defer_donor_registration e pending s1
              | None \<Rightarrow> register_pending_donor e pending 0 s1))"

definition retire_before_registration ::
  "string \<Rightarrow> ('p, 'z) capture_st_scheme \<Rightarrow> ('p, 'z) capture_st_scheme" where
  "retire_before_registration rid s =
     s\<lparr>lookup_cache := (lookup_cache s)(rid := None),
       stage_requests := stage_requests s - {rid},
       segment_namespaces := (segment_namespaces s)(rid := None),
       load_plans := (load_plans s)(rid := None),
       attempts := (attempts s)(rid := None),
       no_safe_plan_reasons := (no_safe_plan_reasons s)(rid := None),
       capture_state := (capture_state s)(rid := None),
       filled_blocks := (filled_blocks s)(rid := None),
       reported_fill_blocks := (reported_fill_blocks s)(rid := None)\<rparr>"

definition retire_after_registration ::
  "string \<Rightarrow> ('p, 'z) capture_st_scheme \<Rightarrow> ('p, 'z) capture_st_scheme" where
  "retire_after_registration rid s =
     forget_request_join_key rid
       (s\<lparr>capture_skipped_reasons := (capture_skipped_reasons s)(rid := None),
          capture_boundaries := (capture_boundaries s)(rid := None),
          captures_opened := (captures_opened s)(rid := None)\<rparr>)"

definition request_finished ::
  "'p env \<Rightarrow> volume \<Rightarrow> request \<Rightarrow> nat list \<Rightarrow> ('p, 'z) reg_st_scheme \<Rightarrow> ('p, 'z) reg_st_scheme" where
  "request_finished e vol r block_ids s =
     (let s1 = retry_deferred_registrations e vol False s;
          rid = request_id_of r;
          s2 = retire_before_registration rid s1
      in retire_after_registration rid (register_donor_on_finish e vol r rid (length block_ids) s2))"

subsection \<open>The metadata of a step\<close>

text \<open>\<open>replace(load, donor_id=piece.donor_id, ...)\<close> for each piece of a multi-donor load.\<close>

definition piece_load :: "pending_load \<Rightarrow> load_piece \<Rightarrow> pending_load" where
  "piece_load l p =
     l\<lparr>pl_donor_id := lp_donor_id p, pl_token_count := lp_token_count p,
       pl_donor_start := Some (lp_donor_start p), pl_target_start := Some (lp_target_start p),
       pl_pieces := []\<rparr>"

definition ship_load ::
  "'p env \<Rightarrow> pending_load \<Rightarrow> 'z audit_st_scheme \<Rightarrow> pending_load list \<times> 'z audit_st_scheme" where
  "ship_load e l s =
     (if pl_block_ids l = None
      then ([], audit e (Some (pl_request_id l))
                  (EF (Ev_load_declined_no_blocks (pl_donor_id l) (pl_namespace l) (pl_token_count l) (pl_kind l)))
                  (bump (SF Load_declined_no_blocks) s))
      else if pl_pieces l \<noteq> [] then (map (piece_load l) (pl_pieces l), s)
      else ([l], s))"

fun ship_loads ::
  "'p env \<Rightarrow> pending_load list \<Rightarrow> 'z audit_st_scheme \<Rightarrow> pending_load list \<times> 'z audit_st_scheme" where
  "ship_loads e [] s = ([], s)"
| "ship_loads e (l # ls) s =
     (let (here, s1) = ship_load e l s; (rest, s2) = ship_loads e ls s1 in (here @ rest, s2))"

definition build_connector_meta ::
  "'p env \<Rightarrow> (gpu_pool \<Rightarrow> nat set \<Rightarrow> gpu_pool option) \<Rightarrow> volume \<Rightarrow> scheduler_output
     \<Rightarrow> ('p, 'z) reg_st_scheme \<Rightarrow> (py_error + connector_metadata) \<times> ('p, 'z) reg_st_scheme" where
  "build_connector_meta e evict vol out s =
     (let s1 = retry_deferred_registrations e vol False (s\<lparr>scheduler_step := scheduler_step s + 1\<rparr>);
          (loads, s2) = ship_loads e (map snd (pending_loads s1)) s1
      in case build_store_metadata e out s2 of
           (Inl err, s3) \<Rightarrow> (Inl err, s3)
         | (Inr stores, s3) \<Rightarrow>
             (case track_running_fills e evict out s3 of
                (Inl err, s4) \<Rightarrow> (Inl err, s4)
              | (Inr _, s4) \<Rightarrow>
                  (Inr \<lparr>cm_loads = loads, cm_stores = stores, cm_finalize = pending_finalize s4\<rparr>,
                   s4\<lparr>pending_loads := [], pending_finalize := []\<rparr>)))"

text \<open>The scheduler's part of \<open>shutdown\<close>.\<close>

definition shutdown_registrations ::
  "'p env \<Rightarrow> volume \<Rightarrow> ('p, 'z) reg_st_scheme \<Rightarrow> ('p, 'z) reg_st_scheme" where
  "shutdown_registrations e vol s = retry_deferred_registrations e vol True s"

end
