(* ===== verification/RegistrationProps.thy ===== *)
theory RegistrationProps
  imports Registration
begin

text \<open>
  Donor registration: only a readable donor reaches the provider, a donor held back is resolved
  within its budget of steps, a finish retires everything about its request, and a step ships every
  committed load once.
\<close>

subsection \<open>Frames\<close>

lemma reg_part_eq:
  assumes "capture_st.more s = capture_st.more t"
  shows "deferred_registrations s = deferred_registrations t" and "scheduler_step s = scheduler_step t"
    and "reg_st.more s = reg_st.more t"
  using assms by (cases s; cases t; simp)+

lemmas reg_audit_frame = reg_part_eq [OF capture_audit_frame(6)]
lemmas reg_bump_frame = reg_part_eq [OF capture_bump_frame(6)] reg_part_eq [OF capture_bump_frame(12)]

declare reg_audit_frame [simp] reg_bump_frame [simp]

lemma register_more [simp]: "match_st.more (register_pending_donor e p w s) = match_st.more s"
  by (simp add: register_pending_donor_def Let_def split: option.splits prod.splits sum.splits)

lemmas register_fill_frame = fill_part_eq [OF register_more]
lemmas register_capture_frame = capture_part_eq [OF register_fill_frame(6)]
lemmas register_reg_frame = reg_part_eq [OF register_capture_frame(6)]

declare register_fill_frame [simp] register_capture_frame [simp] register_reg_frame [simp]

lemma register_match_frame [simp]:
  "load_plans (register_pending_donor e p w s) = load_plans s"
  "lookup_cache (register_pending_donor e p w s) = lookup_cache s"
  "attempts (register_pending_donor e p w s) = attempts s"
  "no_safe_plan_reasons (register_pending_donor e p w s) = no_safe_plan_reasons s"
  "stage_requests (register_pending_donor e p w s) = stage_requests s"
  "segment_namespaces (register_pending_donor e p w s) = segment_namespaces s"
  by (simp_all add: register_pending_donor_def Let_def split: option.splits prod.splits sum.splits)

lemma sliced_match_frame:
  assumes "boundary_sliced_text e r ts b kind s = (x, s')"
  shows "provider s' = provider s" and "match_st.more s' = match_st.more s"
  using match_part_eq(7,8) [OF storage_more_eq(2) [OF more_sliced [of e r ts b kind s]]]
  by (simp_all add: assms)

subsection \<open>Which outcome a donor has\<close>

definition readable :: "'p env \<Rightarrow> volume \<Rightarrow> string \<times> pending_registration \<Rightarrow> bool" where
  "readable e vol entry = has_stored_donor e vol (fst entry) (pr_capture_namespace (snd entry))"

definition overdue :: "'p env \<Rightarrow> bool \<Rightarrow> int \<Rightarrow> string \<times> pending_registration \<Rightarrow> bool" where
  "overdue e final step entry =
     (final \<or> c_donor_registration_retry_steps (e_config e)
              \<le> max 0 (step - pr_opened_at_step (snd entry)))"

definition offered :: "'z audit_st_scheme \<Rightarrow> int" where
  "offered s = stats s (SR Donors_registered_total) + stats s (SR Donor_registration_errors_total)"

definition declined :: "'z audit_st_scheme \<Rightarrow> int" where
  "declined s = stats s (SR Donor_registration_skipped_not_durable)"

lemma register_counts:
  "offered (register_pending_donor e p w s) = offered s + 1"
  "declined (register_pending_donor e p w s) = declined s"
  by (simp_all add: register_pending_donor_def offered_def declined_def Let_def
      split: option.splits prod.splits sum.splits)

lemma decline_counts:
  "offered (decline_undurable_donor e p w s) = offered s"
  "declined (decline_undurable_donor e p w s) = declined s + 1"
  by (simp_all add: decline_undurable_donor_def offered_def declined_def)

lemma decline_frame [simp]:
  "audit_st.more (decline_undurable_donor e p w s) = audit_st.more s"
  by (simp add: decline_undurable_donor_def)

lemmas decline_text_frame = text_more_eq [OF decline_frame]
lemmas decline_storage_frame = storage_more_eq [OF decline_text_frame(3)]
lemmas decline_match_frame = match_part_eq [OF decline_storage_frame(2)]
lemmas decline_fill_frame = fill_part_eq [OF decline_match_frame(8)]
lemmas decline_capture_frame = capture_part_eq [OF decline_fill_frame(6)]
lemmas decline_reg_frame = reg_part_eq [OF decline_capture_frame(6)]

declare decline_match_frame [simp] decline_fill_frame [simp] decline_capture_frame [simp]
  decline_reg_frame [simp]

lemma retry_one_cases:
  "readable e vol en \<Longrightarrow> retry_one e vol final en s
     = register_pending_donor e (snd en) (max 0 (scheduler_step s - pr_opened_at_step (snd en)))
         (s\<lparr>deferred_registrations := od_pop (deferred_registrations s) (fst en)\<rparr>)"
  "\<not> readable e vol en \<Longrightarrow> overdue e final (scheduler_step s) en \<Longrightarrow> retry_one e vol final en s
     = decline_undurable_donor e (snd en) (max 0 (scheduler_step s - pr_opened_at_step (snd en)))
         (s\<lparr>deferred_registrations := od_pop (deferred_registrations s) (fst en)\<rparr>)"
  "\<not> readable e vol en \<Longrightarrow> \<not> overdue e final (scheduler_step s) en \<Longrightarrow> retry_one e vol final en s = s"
proof -
  have "retry_one e vol final en s =
    (let s1 = s\<lparr>deferred_registrations := od_pop (deferred_registrations s) (fst en)\<rparr>;
         waited = max 0 (scheduler_step s - pr_opened_at_step (snd en))
     in if readable e vol en then register_pending_donor e (snd en) waited s1
        else if \<not> overdue e final (scheduler_step s) en then s
        else decline_undurable_donor e (snd en) waited s1)"
    by (simp only: retry_one_def readable_def overdue_def Let_def split_def de_Morgan_disj not_le conj_commute)
  then show "readable e vol en \<Longrightarrow> retry_one e vol final en s
     = register_pending_donor e (snd en) (max 0 (scheduler_step s - pr_opened_at_step (snd en)))
         (s\<lparr>deferred_registrations := od_pop (deferred_registrations s) (fst en)\<rparr>)"
    "\<not> readable e vol en \<Longrightarrow> overdue e final (scheduler_step s) en \<Longrightarrow> retry_one e vol final en s
     = decline_undurable_donor e (snd en) (max 0 (scheduler_step s - pr_opened_at_step (snd en)))
         (s\<lparr>deferred_registrations := od_pop (deferred_registrations s) (fst en)\<rparr>)"
    "\<not> readable e vol en \<Longrightarrow> \<not> overdue e final (scheduler_step s) en \<Longrightarrow> retry_one e vol final en s = s"
    unfolding Let_def by (simp_all only: if_True if_False not_True_eq_False not_False_eq_True)
qed

lemma retry_one_frame [simp]: "scheduler_step (retry_one e vol final en s) = scheduler_step s"
  by (simp add: retry_one_def Let_def split_def)

lemma offered_update [simp]:
  "offered (s\<lparr>deferred_registrations := d\<rparr>) = offered s" "declined (s\<lparr>deferred_registrations := d\<rparr>) = declined s"
  by (simp_all add: offered_def declined_def)

definition resolved :: "'p env \<Rightarrow> volume \<Rightarrow> bool \<Rightarrow> int \<Rightarrow> string \<times> pending_registration \<Rightarrow> bool" where
  "resolved e vol final step en = (readable e vol en \<or> overdue e final step en)"

lemma retry_one_effect:
  "deferred_registrations (retry_one e vol final en s)
     = (if resolved e vol final (scheduler_step s) en then od_pop (deferred_registrations s) (fst en)
        else deferred_registrations s)"
  "offered (retry_one e vol final en s) = offered s + (if readable e vol en then 1 else 0)"
  "declined (retry_one e vol final en s)
     = declined s + (if \<not> readable e vol en \<and> overdue e final (scheduler_step s) en then 1 else 0)"
proof -
  let ?s' = "retry_one e vol final en s"
  let ?goal = "deferred_registrations ?s' = (if resolved e vol final (scheduler_step s) en
        then od_pop (deferred_registrations s) (fst en) else deferred_registrations s)
    \<and> offered ?s' = offered s + (if readable e vol en then 1 else 0)
    \<and> declined ?s' = declined s
        + (if \<not> readable e vol en \<and> overdue e final (scheduler_step s) en then 1 else 0)"
  consider (r) "readable e vol en" | (d) "\<not> readable e vol en" "overdue e final (scheduler_step s) en"
    | (h) "\<not> readable e vol en" "\<not> overdue e final (scheduler_step s) en" by blast
  then have ?goal
  proof cases
    case r
    then show ?thesis by (simp add: retry_one_cases(1) [OF r] register_counts resolved_def)
  next
    case d
    then show ?thesis by (simp add: retry_one_cases(2) [OF d] decline_counts resolved_def)
  next
    case h
    then show ?thesis by (simp add: retry_one_cases(3) [OF h] resolved_def)
  qed
  then show "deferred_registrations ?s' = (if resolved e vol final (scheduler_step s) en
        then od_pop (deferred_registrations s) (fst en) else deferred_registrations s)"
    "offered ?s' = offered s + (if readable e vol en then 1 else 0)"
    "declined ?s' = declined s
        + (if \<not> readable e vol en \<and> overdue e final (scheduler_step s) en then 1 else 0)"
    by blast+
qed

lemma fold_retry:
  "deferred_registrations (fold (retry_one e vol final) es s)
      = filter (\<lambda>d. \<forall>en\<in>set es. resolved e vol final (scheduler_step s) en \<longrightarrow> fst d \<noteq> fst en)
          (deferred_registrations s)
    \<and> scheduler_step (fold (retry_one e vol final) es s) = scheduler_step s
    \<and> offered (fold (retry_one e vol final) es s) = offered s + len (filter (readable e vol) es)
    \<and> declined (fold (retry_one e vol final) es s)
        = declined s + len (filter (\<lambda>en. \<not> readable e vol en \<and> overdue e final (scheduler_step s) en) es)"
proof (induction es arbitrary: s)
  case Nil
  then show ?case by simp
next
  case (Cons en es)
  have "filter P (od_pop d k) = filter (\<lambda>x. fst x \<noteq> k \<and> P x) d" for P k and d :: "(string, pending_registration) odict"
    by (simp add: od_pop_def conj_commute)
  then show ?case
    using Cons.IH [of "retry_one e vol final en s"]
    by (cases "resolved e vol final (scheduler_step s) en") (auto simp: retry_one_effect)
qed

lemma filter_unresolved:
  assumes "od_wf d"
  shows "filter (\<lambda>x. \<forall>en\<in>set d. P en \<longrightarrow> fst x \<noteq> fst en) d = filter (\<lambda>x. \<not> P x) d"
proof (rule filter_cong [OF refl])
  fix x assume x: "x \<in> set d"
  have "en = x" if "en \<in> set d" "fst en = fst x" for en
    using assms that x by (cases en; cases x) (auto simp: od_wf_def od_keys_def dest: eq_key_imp_eq_value)
  then show "(\<forall>en\<in>set d. P en \<longrightarrow> fst x \<noteq> fst en) = (\<not> P x)" using x by metis
qed

lemma retry_effect:
  assumes "od_wf (deferred_registrations s)"
  shows "deferred_registrations (retry_deferred_registrations e vol final s)
      = filter (\<lambda>en. \<not> resolved e vol final (scheduler_step s) en) (deferred_registrations s)"
  using fold_retry [of e vol final "deferred_registrations s" s]
  by (simp add: retry_deferred_registrations_def filter_unresolved [OF assms])

lemma retry_step [simp]:
  "scheduler_step (retry_deferred_registrations e vol final s) = scheduler_step s"
  using fold_retry [of e vol final "deferred_registrations s" s]
  by (simp add: retry_deferred_registrations_def)

subsection \<open>What the step leaves alone\<close>

text \<open>What no capture decision touches: the plans, the queued loads and every later field.\<close>

definition kept ::
  "('p, 'z) capture_st_scheme \<Rightarrow> (string \<rightharpoonup> load_plan) \<times> (string, pending_load) odict \<times> 'z" where
  "kept s = (load_plans s, pending_loads s, capture_st.more s)"

lemma kept_simps [simp]:
  "kept (audit e rid ev s) = kept s" "kept (bump k s) = kept s"
  "kept (s\<lparr>capture_state := a\<rparr>) = kept s" "kept (s\<lparr>captures_opened := b\<rparr>) = kept s"
  "kept (s\<lparr>capture_skipped_reasons := c\<rparr>) = kept s" "kept (s\<lparr>capture_boundaries := d\<rparr>) = kept s"
  "kept (s\<lparr>pending_finalize := f\<rparr>) = kept s" "kept (s\<lparr>served_request_ids := g\<rparr>) = kept s"
  by (simp_all add: kept_def)

lemma advance_capture_more [simp]:
  "kept (snd (advance_capture e rid st c s)) = kept s"
  by (simp add: advance_capture_def note_capture_skipped_def Let_def split: list.splits)

lemma note_skipped_more [simp]: "kept (note_capture_skipped e rid re d s) = kept s"
  by (simp add: note_capture_skipped_def)

lemma computed_end_kept:
  "computed_end e rid n p m s = (c, s1) \<Longrightarrow> kept s1 = kept s"
  by (auto simp: computed_end_def Let_def split: option.splits if_splits)

lemma capture_allowed_kept:
  "capture_allowed e rid s = (ok, s1) \<Longrightarrow> kept s1 = kept s"
  by (auto simp: capture_allowed_def split: if_splits)

lemma admission_gate_more:
  "admission_gate e r rid ids s = Inl s1 \<Longrightarrow> kept s1 = kept s"
  "admission_gate e r rid ids s = Inr (table, s1) \<Longrightarrow> kept s1 = kept s"
  by (auto simp: admission_gate_def Let_def split: if_splits option.splits prod.splits
      dest!: capture_allowed_kept)

lemma admitted_one_more:
  assumes "capture_admitted_one e r m s = (res, s')"
  shows "kept s' = kept s"
proof -
  let ?rid = "new_request_id r"
  show ?thesis
  proof (cases "admission_gate e r ?rid (token_ids_of r) s")
    case (Inl s1)
    then show ?thesis using assms admission_gate_more(1) [OF Inl] by (simp add: capture_admitted_one_def Let_def)
  next
    case (Inr x)
    obtain table s1 where x: "x = (table, s1)" by (cases x)
    define s2 where "s2 = s1\<lparr>capture_boundaries := (capture_boundaries s1)(?rid \<mapsto> num_computed_of r)\<rparr>"
    obtain c s3 where ce: "computed_end e ?rid (num_computed_of r) (len (token_ids_of r)) m s2 = (c, s3)"
      by fastforce
    obtain st where "advance_capture e ?rid st c s3 = (res, s')"
      using assms unfolding capture_admitted_one_def Let_def Inr x sum.case prod.case s2_def [symmetric] ce
      by blast
    then have "kept s' = kept s3" using advance_capture_more [of e ?rid st c s3] by simp
    then show ?thesis
      using computed_end_kept [OF ce] admission_gate_more(2) [OF Inr [unfolded x]] by (simp add: s2_def)
  qed
qed

lemma admitted_more: "capture_admitted e rs m s = (res, s') \<Longrightarrow> kept s' = kept s"
proof (induction rs arbitrary: s res)
  case (Cons r rs)
  then show ?case
    by (auto split: prod.splits sum.splits dest!: admitted_one_more Cons.IH)
qed simp

lemma continue_one_more:
  assumes "capture_continue_one e resumed row m s = (res, s')"
  shows "kept s' = kept s"
proof (cases "capture_state s (cr_req_id row)")
  case None
  then show ?thesis using assms by (simp add: capture_continue_one_def Let_def)
next
  case (Some st)
  let ?rid = "cr_req_id row"
  obtain ok s1 where ca: "capture_allowed e ?rid s = (ok, s1)" by fastforce
  note s1 = capture_allowed_kept [OF ca]
  note out = assms [unfolded capture_continue_one_def Let_def Some option.case ca prod.case]
  show ?thesis
  proof (cases "ok \<and> \<not> 0 < cr_num_output_tokens row")
    case False
    then show ?thesis using out s1 by (auto simp: close_short_def Let_def split: if_splits)
  next
    case True
    show ?thesis
    proof (cases "extend_block_table (cs_block_ids st) (normalize_block_ids (cr_new_block_ids row)) (?rid \<in> resumed)")
      case (Inl err)
      then show ?thesis using out True s1 by simp
    next
      case (Inr table)
      obtain c s2 where ce: "computed_end e ?rid (cr_num_computed_tokens row) (len (cs_token_ids st)) m s1 = (c, s2)"
        by fastforce
      have "advance_capture e ?rid (st\<lparr>cs_block_ids := table\<rparr>) c s2 = (res, s')"
        using out True by (simp add: Inr ce)
      then show ?thesis using advance_capture_more [of e ?rid "st\<lparr>cs_block_ids := table\<rparr>" c s2]
          computed_end_kept [OF ce] s1 by simp
    qed
  qed
qed

lemma continue_rows_more: "continue_rows e resumed rows m s = (res, s') \<Longrightarrow> kept s' = kept s"
proof (induction rows arbitrary: s res)
  case (Cons row rows)
  then show ?case
    by (auto split: prod.splits sum.splits dest!: continue_one_more Cons.IH)
qed simp

lemma retire_capture_more [simp]: "kept (fold retire_capture ids s) = kept s"
  by (induction ids arbitrary: s) (simp_all add: retire_capture_def)

lemma build_store_more:
  assumes "build_store_metadata e out s = (res, s')"
  shows "kept s' = kept s"
proof (cases "materialization_enabled e")
  case False
  then show ?thesis using assms by (auto simp: build_store_metadata_def note_capture_disabled_def Let_def)
next
  case True
  define s1 where "s1 = fold retire_capture (so_finished_req_ids out) s"
  obtain x s2 where ad: "capture_admitted e (so_new_reqs out) (so_num_scheduled out) s1 = (x, s2)" by fastforce
  have "kept s1 = kept s" by (simp add: s1_def)
  then have s2: "kept s2 = kept s" using admitted_more [OF ad] by simp
  have "capture_continuations e out s2 = (y, s3) \<Longrightarrow> kept s3 = kept s2" for y s3
    using continue_rows_more by (auto simp: capture_continuations_def split: option.splits)
  then show ?thesis using assms True s2
    by (auto simp: build_store_metadata_def s1_def [symmetric] ad Let_def split: sum.splits prod.splits)
qed

lemma ship_loads_more [simp]: "audit_st.more (snd (ship_loads e ls s)) = audit_st.more s"
proof (induction ls arbitrary: s)
  case (Cons l ls)
  have "audit_st.more (snd (ship_load e l s)) = audit_st.more s" by (simp add: ship_load_def)
  then show ?case using Cons.IH [of "snd (ship_load e l s)"] by (simp add: Let_def split_def)
qed simp

lemma track_running_more:
  assumes "track_running_fills e evict out s = (res, s')"
  shows "fill_st.more s' = fill_st.more s"
proof -
  define s1 where "s1 = retire_fills (so_finished_req_ids out) s"
  have s1: "fill_st.more s1 = fill_st.more s" by (simp add: s1_def retire_fills_def)
  show ?thesis
  proof (cases "so_cached out")
    case None
    then show ?thesis using assms s1 by (simp add: track_running_fills_def s1_def)
  next
    case (Some x)
    then obtain rows resumed where x: "so_cached out = Some (rows, resumed)" by (cases x) simp
    then have "track_rows e evict resumed rows s1 = (res, s')"
      using assms by (simp add: track_running_fills_def s1_def)
    from track_rows_untouched(6) [OF this] show ?thesis using s1 by simp
  qed
qed

subsection \<open>The deferral invariant\<close>

lemma more_frames:
  assumes "audit_st.more t = audit_st.more s"
  shows "storage_st.more t = storage_st.more s" and "match_st.more t = match_st.more s"
    and "fill_st.more t = fill_st.more s" and "capture_st.more t = capture_st.more s"
    and "pending_loads t = pending_loads s" and "pending_finalize t = pending_finalize s"
proof -
  have st: "storage_st.more t = storage_st.more s" by (rule storage_more_eq(2) [OF text_more_eq(3) [OF assms]])
  note m = match_part_eq(8) [OF st]
  note f = fill_part_eq [OF m]
  note c = capture_part_eq [OF f(6)]
  show "storage_st.more t = storage_st.more s" "match_st.more t = match_st.more s"
    "fill_st.more t = fill_st.more s" "capture_st.more t = capture_st.more s"
    "pending_loads t = pending_loads s" "pending_finalize t = pending_finalize s"
    by (rule st m f(6) c(6) f(1) c(5))+
qed

lemma build_reg:
  assumes "build_connector_meta e evict vol out s = (res, s')"
  shows "capture_st.more s' = capture_st.more
           (retry_deferred_registrations e vol False (s\<lparr>scheduler_step := scheduler_step s + 1\<rparr>))"
proof -
  define s1 where "s1 = retry_deferred_registrations e vol False (s\<lparr>scheduler_step := scheduler_step s + 1\<rparr>)"
  obtain loads s2 where sl: "ship_loads e (map snd (pending_loads s1)) s1 = (loads, s2)" by fastforce
  have "audit_st.more s2 = audit_st.more s1"
    using ship_loads_more [of e "map snd (pending_loads s1)" s1] by (simp add: sl)
  then have s2: "capture_st.more s2 = capture_st.more s1" by (rule more_frames)
  obtain x s3 where bs: "build_store_metadata e out s2 = (x, s3)" by fastforce
  have s3: "capture_st.more s3 = capture_st.more s1" using build_store_more [OF bs] s2 by (simp add: kept_def)
  note out = assms [unfolded build_connector_meta_def Let_def s1_def [symmetric] sl prod.case bs]
  show ?thesis unfolding s1_def [symmetric]
  proof (cases x)
    case (Inl err)
    then show "capture_st.more s' = capture_st.more s1" using out s3 by simp
  next
    case (Inr stores)
    obtain y s4 where tr: "track_running_fills e evict out s3 = (y, s4)" by fastforce
    have "capture_st.more s4 = capture_st.more s1"
      using capture_part_eq(6) [OF track_running_more [OF tr]] s3 by simp
    then show "capture_st.more s' = capture_st.more s1"
      using out Inr tr by (auto split: sum.splits)
  qed
qed

lemma forget_more [simp]: "audit_st.more (forget_request_join_key r s) = audit_st.more s"
  by (simp add: forget_request_join_key_def)

lemma retire_frames [simp]:
  "capture_st.more (retire_before_registration rid s) = capture_st.more s"
  "capture_st.more (retire_after_registration rid s) = capture_st.more s"
  using more_frames(4) [OF forget_more, of rid "s\<lparr>capture_skipped_reasons := (capture_skipped_reasons s)(rid := None),
          capture_boundaries := (capture_boundaries s)(rid := None),
          captures_opened := (captures_opened s)(rid := None)\<rparr>"]
  by (simp_all add: retire_before_registration_def retire_after_registration_def)

text \<open>What a finish adds to the held donors: at most itself, and only with a positive budget.\<close>

lemma register_on_finish_reg:
  assumes "register_donor_on_finish e vol r rid n s = s'"
  shows "scheduler_step s' = scheduler_step s
    \<and> (deferred_registrations s' = deferred_registrations s
       \<or> (\<exists>p ns. deferred_registrations s' = od_set (deferred_registrations s) rid p
            \<and> dr_donor_id (pr_donor p) = rid \<and> pr_opened_at_step p = scheduler_step s
            \<and> 0 < c_donor_registration_retry_steps (e_config e)
            \<and> captures_opened s rid = Some ns \<and> pr_capture_namespace p = ns
            \<and> \<not> has_stored_donor e vol rid ns))"
proof (cases "registration_exit e rid (token_ids_of r) s")
  case (Some x)
  then show ?thesis using assms by (cases x) (auto simp: register_donor_on_finish_def)
next
  case None
  define boundary where "boundary = (case capture_boundaries s rid of None \<Rightarrow> 0 | Some b \<Rightarrow> b)"
  obtain body offset chars fallback s1 where bt:
    "boundary_sliced_text e r (token_ids_of r) boundary Donor_text s = ((body, offset, chars, fallback), s1)"
    by (metis prod.exhaust)
  note m = sliced_match_frame(2) [OF bt]
  note f = fill_part_eq [OF m] capture_part_eq [OF fill_part_eq(6) [OF m]]
    reg_part_eq [OF capture_part_eq(6) [OF fill_part_eq(6) [OF m]]]
  note out = assms [unfolded register_donor_on_finish_def None option.case Let_def boundary_def [symmetric]
      bt prod.case]
  have reg: "deferred_registrations s1 = deferred_registrations s" "scheduler_step s1 = scheduler_step s"
    "captures_opened s1 = captures_opened s" by (rule f)+
  show ?thesis
  proof (cases "captures_opened s1 rid")
    case None
    then show ?thesis using out reg(1,2) by auto
  next
    case (Some ns)
    define p where "p = \<lparr>pr_donor = donor_of e r rid n body, pr_capture_namespace = ns, pr_text_offset = offset,
        pr_text_chars = chars, pr_text_fallback = fallback, pr_opened_at_step = 0\<rparr>"
    have id: "dr_donor_id (pr_donor p) = rid" "pr_capture_namespace p = ns" by (simp_all add: p_def donor_of_def)
    note out' = out [unfolded Some option.case p_def [symmetric]]
    show ?thesis
    proof (cases "has_stored_donor e vol rid ns")
      case True
      then have "s' = register_pending_donor e p 0 s1" using out' by simp
      then show ?thesis using reg(1,2) by simp
    next
      case False
      then have s': "s' = defer_donor_registration e p s1" using out' by simp
      show ?thesis
      proof (cases "c_donor_registration_retry_steps (e_config e) \<le> 0")
        case True
        then have "s' = decline_undurable_donor e p 0 s1" by (simp add: s' defer_donor_registration_def)
        then show ?thesis using reg(1,2) by simp
      next
        case budget: False
        let ?p = "p\<lparr>pr_opened_at_step := scheduler_step s1\<rparr>"
        have d: "deferred_registrations s' = od_set (deferred_registrations s) rid ?p"
          "scheduler_step s' = scheduler_step s"
          using budget reg(1,2) id(1) by (simp_all add: s' defer_donor_registration_def)
        have "captures_opened s rid = Some ns" using Some reg(3) by simp
        then show ?thesis
          using d False budget id reg(2) by (intro conjI disjI2 exI [of _ ?p] exI [of _ ns]) simp_all
      qed
    qed
  qed
qed

definition held_ok :: "'p env \<Rightarrow> int \<Rightarrow> string \<times> pending_registration \<Rightarrow> bool" where
  "held_ok e step en \<longleftrightarrow> dr_donor_id (pr_donor (snd en)) = fst en \<and> pr_opened_at_step (snd en) \<le> step
     \<and> step - pr_opened_at_step (snd en) < c_donor_registration_retry_steps (e_config e)"

definition deferrals_ok :: "'p env \<Rightarrow> ('p, 'z) reg_st_scheme \<Rightarrow> bool" where
  "deferrals_ok e s \<longleftrightarrow> od_wf (deferred_registrations s)
     \<and> (\<forall>en\<in>set (deferred_registrations s). held_ok e (scheduler_step s) en)"

lemma deferrals_ok_cong:
  "capture_st.more t = capture_st.more s \<Longrightarrow> deferrals_ok e t = deferrals_ok e s"
  unfolding deferrals_ok_def using reg_part_eq(1,2) [of t s] by presburger

lemma od_wf_filter: "od_wf d \<Longrightarrow> od_wf (filter P d)"
  by (simp add: od_wf_def od_keys_def distinct_map_filter)

text \<open>A retry restores the invariant even when the clock has just ticked.\<close>

lemma retry_deferrals_ok:
  assumes "od_wf (deferred_registrations s)"
    and "\<forall>en\<in>set (deferred_registrations s).
           dr_donor_id (pr_donor (snd en)) = fst en \<and> pr_opened_at_step (snd en) \<le> scheduler_step s"
  shows "deferrals_ok e (retry_deferred_registrations e vol final s)"
  using assms
  by (auto simp: deferrals_ok_def retry_effect od_wf_filter held_ok_def resolved_def overdue_def)

lemma od_set_mem: "en \<in> set (od_set d k v) \<Longrightarrow> en = (k, v) \<or> en \<in> set d"
  by (induction d k v rule: od_set.induct) (auto split: if_splits)

lemma finish_deferrals_ok:
  assumes "deferrals_ok e s"
  shows "deferrals_ok e (request_finished e vol r bs s)"
proof -
  define rid where "rid = request_id_of r"
  define s1 where "s1 = retry_deferred_registrations e vol False s"
  define s2 where "s2 = retire_before_registration rid s1"
  define s3 where "s3 = register_donor_on_finish e vol r rid (length bs) s2"
  have "deferrals_ok e s1"
    unfolding s1_def using assms by (intro retry_deferrals_ok) (auto simp: deferrals_ok_def held_ok_def)
  then have ok: "deferrals_ok e s2"
    using deferrals_ok_cong [OF retire_frames(1), of e rid s1] by (simp add: s2_def)
  have "deferrals_ok e s3"
    unfolding deferrals_ok_def
  proof (intro conjI ballI)
    note reg = register_on_finish_reg [OF s3_def [symmetric]]
    show "od_wf (deferred_registrations s3)" using reg ok by (auto simp: deferrals_ok_def)
    fix en assume en: "en \<in> set (deferred_registrations s3)"
    from reg show "held_ok e (scheduler_step s3) en"
    proof (elim conjE disjE exE)
      assume "scheduler_step s3 = scheduler_step s2" "deferred_registrations s3 = deferred_registrations s2"
      then show ?thesis using ok en by (simp add: deferrals_ok_def)
    next
      fix p ns assume st: "scheduler_step s3 = scheduler_step s2"
        and d: "deferred_registrations s3 = od_set (deferred_registrations s2) rid p"
        and p: "dr_donor_id (pr_donor p) = rid" "pr_opened_at_step p = scheduler_step s2"
          "0 < c_donor_registration_retry_steps (e_config e)"
      from od_set_mem [OF en [unfolded d]] show ?thesis
        using ok p by (auto simp: st deferrals_ok_def held_ok_def)
    qed
  qed
  then show ?thesis
    unfolding request_finished_def Let_def s1_def [symmetric] rid_def [symmetric] s2_def [symmetric]
      s3_def [symmetric] by (simp only: deferrals_ok_cong [OF retire_frames(2)])
qed

text \<open>
  The states of a scheduler-role connector as its registrations see them: it starts holding nothing,
  the three hooks below are the ones that touch the held donors, and any other hook leaves the
  registration fields alone.
\<close>

inductive reg_reach :: "'p env \<Rightarrow> ('p, 'z) reg_st_scheme \<Rightarrow> bool" for e :: "'p env" where
  Start: "deferred_registrations s = [] \<Longrightarrow> reg_reach e s"
| Other: "reg_reach e s \<Longrightarrow> capture_st.more t = capture_st.more s \<Longrightarrow> reg_reach e t"
| Finish: "reg_reach e s \<Longrightarrow> reg_reach e (request_finished e vol r bs s)"
| Build: "reg_reach e s \<Longrightarrow> build_connector_meta e evict vol out s = (res, s') \<Longrightarrow> reg_reach e s'"
| Shutdown: "reg_reach e s \<Longrightarrow> reg_reach e (shutdown_registrations e vol s)"

lemma reach_deferrals_ok: "reg_reach e s \<Longrightarrow> deferrals_ok e s"
proof (induction rule: reg_reach.induct)
  case (Start s)
  then show ?case by (simp add: deferrals_ok_def od_wf_def od_keys_def)
next
  case (Other s t)
  show ?case using deferrals_ok_cong [OF Other.hyps(2)] Other.IH by simp
next
  case (Finish s vol r bs)
  show ?case by (rule finish_deferrals_ok [OF Finish.IH])
next
  case (Build s evict vol out res s')
  have "deferrals_ok e (retry_deferred_registrations e vol False (s\<lparr>scheduler_step := scheduler_step s + 1\<rparr>))"
    using Build.IH by (intro retry_deferrals_ok) (auto simp: deferrals_ok_def held_ok_def)
  then show ?case using deferrals_ok_cong [OF build_reg [OF Build.hyps(2)]] by blast
next
  case (Shutdown s vol)
  then show ?case unfolding shutdown_registrations_def
    by (intro retry_deferrals_ok) (auto simp: deferrals_ok_def held_ok_def)
qed

subsection \<open>The maps a registration leaves alone\<close>

definition same_request_maps :: "('p, 'z) capture_st_scheme \<Rightarrow> ('p, 'z) capture_st_scheme \<Rightarrow> bool" where
  "same_request_maps s t \<longleftrightarrow>
     load_plans s = load_plans t \<and> lookup_cache s = lookup_cache t \<and> attempts s = attempts t
     \<and> no_safe_plan_reasons s = no_safe_plan_reasons t \<and> stage_requests s = stage_requests t
     \<and> segment_namespaces s = segment_namespaces t \<and> filled_blocks s = filled_blocks t
     \<and> reported_fill_blocks s = reported_fill_blocks t \<and> capture_state s = capture_state t
     \<and> captures_opened s = captures_opened t \<and> pending_loads s = pending_loads t"

lemma same_maps_trans: "same_request_maps s t \<Longrightarrow> same_request_maps t u \<Longrightarrow> same_request_maps s u"
  by (simp add: same_request_maps_def)

lemma same_maps_register: "same_request_maps (register_pending_donor e p w s) s"
  by (simp add: same_request_maps_def)

lemma same_maps_decline: "same_request_maps (decline_undurable_donor e p w s) s"
  by (simp add: same_request_maps_def)

lemma same_maps_deferred: "same_request_maps (s\<lparr>deferred_registrations := d\<rparr>) s"
  by (simp add: same_request_maps_def)

lemma retry_one_maps: "same_request_maps (retry_one e vol final en s) s"
proof -
  consider (r) "readable e vol en" | (d) "\<not> readable e vol en" "overdue e final (scheduler_step s) en"
    | (h) "\<not> readable e vol en" "\<not> overdue e final (scheduler_step s) en" by blast
  then show ?thesis
  proof cases
    case r
    show ?thesis unfolding retry_one_cases(1) [OF r]
      by (rule same_maps_trans [OF same_maps_register same_maps_deferred])
  next
    case d
    show ?thesis unfolding retry_one_cases(2) [OF d]
      by (rule same_maps_trans [OF same_maps_decline same_maps_deferred])
  next
    case h
    show ?thesis unfolding retry_one_cases(3) [OF h] by (simp add: same_request_maps_def)
  qed
qed

lemma retry_maps: "same_request_maps (retry_deferred_registrations e vol final s) s"
proof -
  have "same_request_maps (fold (retry_one e vol final) es t) t" for es t
    by (induction es arbitrary: t)
      (simp add: same_request_maps_def, auto intro: same_maps_trans retry_one_maps)
  then show ?thesis by (simp add: retry_deferred_registrations_def)
qed

lemma sliced_maps:
  assumes "boundary_sliced_text e r ts b kind s = (x, s')"
  shows "same_request_maps s' s"
proof -
  have st: "storage_st.more s' = storage_st.more s"
    using storage_more_eq(2) [OF more_sliced [of e r ts b kind s]] by (simp add: assms)
  note m = match_part_eq [OF st]
  note f = fill_part_eq [OF m(8)]
  note c = capture_part_eq [OF f(6)]
  show ?thesis unfolding same_request_maps_def m(1-6) f(1,4,5) c(1,3) by simp
qed

lemma same_maps_defer: "same_request_maps (defer_donor_registration e p s) s"
  by (simp add: defer_donor_registration_def same_request_maps_def)

lemma register_on_finish_maps: "same_request_maps (register_donor_on_finish e vol r rid n s) s"
proof (cases "registration_exit e rid (token_ids_of r) s")
  case (Some x)
  then show ?thesis by (cases x) (simp add: register_donor_on_finish_def same_request_maps_def)
next
  case None
  define boundary where "boundary = (case capture_boundaries s rid of None \<Rightarrow> 0 | Some b \<Rightarrow> b)"
  obtain body offset chars fallback s1 where bt:
    "boundary_sliced_text e r (token_ids_of r) boundary Donor_text s = ((body, offset, chars, fallback), s1)"
    by (metis prod.exhaust)
  note s1 = sliced_maps [OF bt]
  show ?thesis
    unfolding register_donor_on_finish_def None option.case Let_def boundary_def [symmetric] bt prod.case
    by (cases "captures_opened s1 rid")
      (auto intro: same_maps_trans [OF same_maps_register s1] same_maps_trans [OF same_maps_defer s1])
qed

subsection \<open>Properties\<close>

text \<open>
  C18. A held donor waits less than its budget: in every reachable state the held donors have distinct
  ids, each is held under its own id, and has waited fewer scheduler steps than
  \<open>donor_registration_retry_steps\<close>, however many finishes fall between two steps.
\<close>

theorem deferral_within_budget:
  assumes "reg_reach e s"
  shows "distinct (od_keys (deferred_registrations s))
    \<and> (\<forall>(rid, p)\<in>set (deferred_registrations s).
          dr_donor_id (pr_donor p) = rid
          \<and> 0 \<le> scheduler_step s - pr_opened_at_step p
          \<and> scheduler_step s - pr_opened_at_step p < c_donor_registration_retry_steps (e_config e))"
  using reach_deferrals_ok [OF assms] by (auto simp: deferrals_ok_def held_ok_def od_wf_def)



text \<open>
  C24. A request that was never scheduled becomes a donor: an abort in the waiting queue reaches
  \<open>request_finished\<close> with no capture opened and no skip recorded, and the request is offered to the
  provider as a donor holding captured KV although the store holds no record of it, under any
  namespace.
\<close>

theorem unscheduled_request_becomes_donor:
  assumes "e_compat_decline e = None" and "c_register_donors (e_config e)" and "provider s = Some p"
    and "c_min_prompt_tokens (e_config e) \<le> len (token_ids_of r)"
    and "deferred_registrations s = []"
    and "captures_opened s (request_id_of r) = None"
    and "capture_skipped_reasons s (request_id_of r) = None"
    and "\<And>ns. \<not> has_stored_donor e vol (request_id_of r) ns"
  shows "\<exists>donor. provider (request_finished e vol r bs s) = Some (snd (po_register_donor (e_provider e) p donor))
    \<and> dr_donor_id donor = request_id_of r \<and> dr_has_captured_kv donor
    \<and> \<not> has_stored_donor e vol (request_id_of r) (dr_namespace donor)"
proof -
  define rid where "rid = request_id_of r"
  have retry: "retry_deferred_registrations e vol False s = s"
    by (simp add: retry_deferred_registrations_def assms(5))
  define s2 where "s2 = retire_before_registration rid s"
  have s2: "provider s2 = Some p" "captures_opened s2 rid = None" "capture_skipped_reasons s2 rid = None"
    using assms by (simp_all add: s2_def retire_before_registration_def rid_def)
  have fin: "provider (request_finished e vol r bs s)
      = provider (register_donor_on_finish e vol r rid (length bs) s2)"
    unfolding request_finished_def Let_def retry rid_def [symmetric] s2_def [symmetric]
    by (simp add: retire_after_registration_def forget_request_join_key_def)
  have exit: "registration_exit e rid (token_ids_of r) s2 = None"
    using assms by (simp add: registration_exit_def s2)
  define boundary where "boundary = (case capture_boundaries s2 rid of None \<Rightarrow> 0 | Some b \<Rightarrow> b)"
  obtain body offset chars fallback s3 where bt:
    "boundary_sliced_text e r (token_ids_of r) boundary Donor_text s2 = ((body, offset, chars, fallback), s3)"
    by (metis prod.exhaust)
  note m = sliced_match_frame [OF bt]
  have s3: "provider s3 = Some p" "captures_opened s3 rid = None"
    using m(1) capture_part_eq(3) [OF fill_part_eq(6) [OF m(2)]] s2 by simp_all
  have reg: "provider (register_pending_donor e q 0 s3)
      = Some (snd (po_register_donor (e_provider e) p (pr_donor q)))" for q
    by (simp add: register_pending_donor_def Let_def s3(1) split: sum.splits prod.splits)
  have "provider (request_finished e vol r bs s)
      = Some (snd (po_register_donor (e_provider e) p (donor_of e r rid (length bs) body)))"
    unfolding fin register_donor_on_finish_def exit option.case Let_def boundary_def [symmetric] bt
      prod.case s3(2) reg by simp
  then show ?thesis using assms(8) by (intro exI conjI) (assumption, simp_all add: donor_of_def rid_def)
qed

text \<open>
  A held donor's rows do not join to its request: after \<open>request_finished\<close> the request has no
  audit sequence number left, so when a later hook registers the held donor, its row is written
  under a fresh sequence number, slot 0, and that entry stays behind in the per-request maps.
\<close>

theorem held_donor_loses_join_key:
  assumes "request_id_of r = rid" and "request_finished e vol r bs s = s1"
    and "deferred_registrations s1 = [(rid, p)]" and "dr_donor_id (pr_donor p) = rid"
    and "readable e vol' (rid, p)" and "provider s1 = Some q"
    and "po_register_donor (e_provider e) q (pr_donor p) = (Inr (), q')"
    and "opt_truthy (c_audit_path (e_config e))" and "\<And>row. e_audit_write_ok e row"
  shows "request_seq s1 rid = None
    \<and> (\<exists>row ev. audit_log (retry_deferred_registrations e vol' False s1) = audit_log s1 @ [row]
        \<and> ar_event row = ER ev
        \<and> ar_join row = Some \<lparr>jk_connector_id = e_connector_id e, jk_request_id = rid,
              jk_request_seq = next_request_seq s1 + 1, jk_event_seq = 0\<rparr>
        \<and> request_seq (retry_deferred_registrations e vol' False s1) rid = Some (next_request_seq s1 + 1))"
proof -
  have forgot: "request_seq s1 rid = None" "request_event_seq s1 rid = None"
    using assms(1,2) by (auto simp: request_finished_def Let_def retire_after_registration_def
        forget_request_join_key_def)
  have retry: "retry_deferred_registrations e vol' False s1
      = register_pending_donor e p (max 0 (scheduler_step s1 - pr_opened_at_step p))
          (s1\<lparr>deferred_registrations := od_pop (deferred_registrations s1) rid\<rparr>)"
    using retry_one_cases(1) [OF assms(5), of False s1]
    by (simp add: retry_deferred_registrations_def assms(3))
  show ?thesis
    unfolding retry using assms(4,6-9) forgot
    by (simp add: register_pending_donor_def Let_def audit_def take_join_key_def stamp_request_seq_def
        take_event_seq_def)
qed

text \<open>
  A finish retires its request and only it: afterwards nothing about the request is left in any
  per-request map of the scheduler role but a held registration, and every other request's plan,
  memoized lookup, attempts, capture and filled blocks are what they were.
\<close>

theorem finish_retires_request:
  assumes "request_finished e vol r bs s = s'" and "request_id_of r = rid"
  shows "load_plans s' rid = None \<and> lookup_cache s' rid = None \<and> attempts s' rid = None
    \<and> no_safe_plan_reasons s' rid = None \<and> rid \<notin> stage_requests s' \<and> segment_namespaces s' rid = None
    \<and> filled_blocks s' rid = None \<and> reported_fill_blocks s' rid = None \<and> capture_state s' rid = None
    \<and> capture_skipped_reasons s' rid = None \<and> capture_boundaries s' rid = None
    \<and> captures_opened s' rid = None \<and> request_seq s' rid = None \<and> request_event_seq s' rid = None
    \<and> (\<forall>q. q \<noteq> rid \<longrightarrow> load_plans s' q = load_plans s q \<and> lookup_cache s' q = lookup_cache s q
         \<and> attempts s' q = attempts s q \<and> filled_blocks s' q = filled_blocks s q
         \<and> reported_fill_blocks s' q = reported_fill_blocks s q \<and> capture_state s' q = capture_state s q
         \<and> captures_opened s' q = captures_opened s q)
    \<and> pending_loads s' = pending_loads s"
proof -
  define s1 where "s1 = retry_deferred_registrations e vol False s"
  define s2 where "s2 = retire_before_registration rid s1"
  define s3 where "s3 = register_donor_on_finish e vol r rid (length bs) s2"
  have s': "s' = retire_after_registration rid s3"
    using assms(1) unfolding request_finished_def Let_def assms(2) s1_def [symmetric] s2_def [symmetric]
      s3_def [symmetric] by (rule sym)
  have s1: "same_request_maps s1 s" unfolding s1_def by (rule retry_maps)
  have s3: "same_request_maps s3 s2" unfolding s3_def by (rule register_on_finish_maps)
  note eqs = s1 [unfolded same_request_maps_def] s3 [unfolded same_request_maps_def]
  have s2: "load_plans s2 = (load_plans s1)(rid := None)" "lookup_cache s2 = (lookup_cache s1)(rid := None)"
    "attempts s2 = (attempts s1)(rid := None)" "no_safe_plan_reasons s2 = (no_safe_plan_reasons s1)(rid := None)"
    "stage_requests s2 = stage_requests s1 - {rid}" "segment_namespaces s2 = (segment_namespaces s1)(rid := None)"
    "filled_blocks s2 = (filled_blocks s1)(rid := None)"
    "reported_fill_blocks s2 = (reported_fill_blocks s1)(rid := None)"
    "capture_state s2 = (capture_state s1)(rid := None)" "captures_opened s2 = captures_opened s1"
    "pending_loads s2 = pending_loads s1"
    by (simp_all add: s2_def retire_before_registration_def)
  have out: "load_plans s' = load_plans s3" "lookup_cache s' = lookup_cache s3" "attempts s' = attempts s3"
    "no_safe_plan_reasons s' = no_safe_plan_reasons s3" "stage_requests s' = stage_requests s3"
    "segment_namespaces s' = segment_namespaces s3" "filled_blocks s' = filled_blocks s3"
    "reported_fill_blocks s' = reported_fill_blocks s3" "capture_state s' = capture_state s3"
    "captures_opened s' = (captures_opened s3)(rid := None)" "pending_loads s' = pending_loads s3"
    "capture_skipped_reasons s' rid = None" "capture_boundaries s' rid = None"
    "request_seq s' rid = None" "request_event_seq s' rid = None"
    by (simp_all add: s' retire_after_registration_def forget_request_join_key_def)
  show ?thesis by (simp add: out eqs s2)
qed

subsection \<open>Witnesses\<close>

definition reg_env :: "unit env" where
  "reg_env = sample_env silent_provider
     (default_config\<lparr>c_mode := SEMANTIC_SPAN_EXPERIMENTAL, c_min_prompt_tokens := 2, c_audit_path := Some ''a''\<rparr>)"

text \<open>A finished request whose capture was opened; \<open>unseen\<close>: one the scheduler never ran.\<close>

definition reg_sample :: "(string \<rightharpoonup> string) \<Rightarrow> unit reg_st" where
  "reg_sample opened = capture_st.extend
     (capture_st.truncate (capture_sample\<lparr>capture_state := Map.empty, captures_opened := opened\<rparr>))
     \<lparr>deferred_registrations = [], scheduler_step = 3\<rparr>"

definition held_state :: "unit reg_st" where
  "held_state = request_finished reg_env Map.empty fill_request [4, 5] (reg_sample [''q'' \<mapsto> ''n''])"

definition landed :: volume where
  "landed = (\<lambda>_. Some \<lparr>dd_record = Some (Some 2), dd_layers = [], dd_temp = False\<rparr>)"

lemma reg_sample_fields:
  "deferred_registrations (reg_sample m) = []" "scheduler_step (reg_sample m) = 3"
  "provider (reg_sample m) = Some ()" "captures_opened (reg_sample m) = m"
  "capture_skipped_reasons (reg_sample m) = Map.empty"
  by (simp_all add: reg_sample_def capture_st.defs capture_sample_def fill_st.defs fill_state_def)

lemma fill_request_id: "request_id_of fill_request = ''q''" "token_ids_of fill_request = [1, 2]"
  by (simp_all add: fill_request_def sample_request_def request_id_of_def hasattr_def getattr_def
      token_ids_of_def)

lemma held_run: "map (\<lambda>(k, p). (k, dr_donor_id (pr_donor p), pr_opened_at_step p, pr_capture_namespace p))
    (deferred_registrations held_state) = [(''q'', ''q'', 3, ''n'')]"
  by code_simp

lemma held_entry:
  obtains p where "deferred_registrations held_state = [(''q'', p)]" "dr_donor_id (pr_donor p) = ''q''"
    "pr_opened_at_step p = 3" "pr_capture_namespace p = ''n''"
  using held_run by (cases "deferred_registrations held_state") (auto split: prod.splits)

lemma held_reach: "reg_reach reg_env held_state"
  unfolding held_state_def by (intro reg_reach.Finish reg_reach.Start reg_sample_fields(1))

theorem deferral_within_budget_witness:
  "\<exists>p. (''q'', p) \<in> set (deferred_registrations held_state) \<and> scheduler_step held_state - pr_opened_at_step p < 8"
proof -
  obtain p where p: "deferred_registrations held_state = [(''q'', p)]" by (rule held_entry)
  have "c_donor_registration_retry_steps (e_config reg_env) = 8"
    by (simp add: reg_env_def sample_env_def default_config_def)
  then show ?thesis using deferral_within_budget [OF held_reach] by (auto simp: p)
qed



theorem unscheduled_request_becomes_donor_witness:
  "\<exists>donor. provider (request_finished reg_env Map.empty fill_request [] (reg_sample Map.empty))
      = Some (snd (po_register_donor (e_provider reg_env) () donor)) \<and> dr_donor_id donor = ''q''"
proof -
  have "e_compat_decline reg_env = None" "c_register_donors (e_config reg_env)"
    "c_min_prompt_tokens (e_config reg_env) \<le> len (token_ids_of fill_request)"
    by (simp_all add: reg_env_def sample_env_def default_config_def fill_request_id)
  then show ?thesis
    using unscheduled_request_becomes_donor [of reg_env "reg_sample Map.empty" "()" fill_request Map.empty "[]"]
    by (auto simp: reg_sample_fields fill_request_id has_stored_donor_def)
qed

theorem held_donor_loses_join_key_witness:
  "request_seq (retry_deferred_registrations reg_env landed False held_state) ''q''
     = Some (next_request_seq held_state + 1)"
proof -
  obtain p where p: "deferred_registrations held_state = [(''q'', p)]" "dr_donor_id (pr_donor p) = ''q''"
    by (rule held_entry)
  have r: "readable reg_env landed (''q'', p)" by (simp add: readable_def has_stored_donor_def landed_def)
  have prov: "provider held_state = Some ()" by code_simp
  have ops: "po_register_donor (e_provider reg_env) () (pr_donor p) = (Inr (), ())"
    "opt_truthy (c_audit_path (e_config reg_env))" "\<And>row. e_audit_write_ok reg_env row"
    by (simp_all add: reg_env_def sample_env_def silent_provider_def)
  show ?thesis
    using held_donor_loses_join_key [OF fill_request_id(1) held_state_def [symmetric] p r prov ops] by blast
qed

theorem finish_retires_request_witness: "captures_opened held_state ''q'' = None \<and> request_seq held_state ''q'' = None"
  using finish_retires_request [OF held_state_def [symmetric] fill_request_id(1)] by blast

end
