(* ===== verification/Lifecycle.thy ===== *)
theory Lifecycle
  imports RegistrationProps
begin

text \<open>
  The scheduler role as a whole: every hook vLLM calls is one step of a transition relation, and what
  the worker is handed is safe in every reachable state, whatever the order of the calls. This is
  where the match hook, the allocation, the step build and the finish compose.
\<close>

subsection \<open>Frames of the match hooks\<close>

lemma memo_more: "memo s = memo t \<Longrightarrow> match_st.more s = match_st.more t"
  by (simp add: memo_def)

lemma small_more [simp]:
  "match_st.more (snd (record_attempt rid s)) = match_st.more s"
  "match_st.more (note_stage e r rid s) = match_st.more s"
  "match_st.more (snd (span_run_ruled_out e rid a ts ns n s)) = match_st.more s"
  "match_st.more (note_miss e rid a ns n f qt s) = match_st.more s"
  "match_st.more (note_hit e rid a ns n f qt r' s) = match_st.more s"
  "match_st.more (snd (record_load_plan rid p s)) = match_st.more s"
  by (simp_all add: record_attempt_def note_stage_def span_run_ruled_out_def note_miss_def note_hit_def
      record_load_plan_def Let_def split: option.splits sum.splits)

lemma early_exit_more: "early_exits e rid a ts n s = Some s' \<Longrightarrow> match_st.more s' = match_st.more s"
  unfolding early_exits_def
  by (erule first_exit_inv)
     (auto simp: exit_incompatible_def exit_short_prompt_def exit_exact_ratio_def
       exit_below_min_boundary_def exit_remaining_below_min_span_def exit_no_provider_def Let_def
       split: option.splits if_splits)

lemma memoized_lookup_more:
  "memoized_lookup e r rid a ts ns n s = Inl s' \<Longrightarrow> match_st.more s' = match_st.more s"
  "memoized_lookup e r rid a ts ns n s = Inr (res, f, qt, s') \<Longrightarrow> match_st.more s' = match_st.more s"
proof -
  obtain t off chars fb s1 where t: "boundary_sliced_text e r ts n Query_text s = ((t, off, chars, fb), s1)"
    by (metis prod.exhaust)
  have m: "match_st.more s1 = match_st.more s" using sliced_match_frame(2) [OF t] .
  show "memoized_lookup e r rid a ts ns n s = Inl s' \<Longrightarrow> match_st.more s' = match_st.more s"
    "memoized_lookup e r rid a ts ns n s = Inr (res, f, qt, s') \<Longrightarrow> match_st.more s' = match_st.more s"
    using m by (auto simp: memoized_lookup_def t Let_def split: option.splits prod.splits sum.splits)
qed

lemma hook_more:
  assumes "get_num_new_matched_tokens e vol r n s = (x, s')"
  shows "match_st.more s' = match_st.more s"
proof -
  let ?rid = "request_id_of r" and ?ts = "token_ids_of r" and ?ns = "namespace_for_request e r"
  obtain a s1 where a: "record_attempt ?rid s = (a, s1)" by fastforce
  define s2 where "s2 = (if a = 0 then bump (SM Lookups_total) s1 else s1)"
  have m2: "match_st.more s2 = match_st.more s" using small_more(1) [of ?rid s] by (simp add: a s2_def)
  show ?thesis
  proof (cases "early_exits e ?rid a ?ts n s2")
    case (Some s3)
    then show ?thesis using assms early_exit_more [OF Some] m2
      by (simp add: get_num_new_matched_tokens_def a s2_def [symmetric] Let_def)
  next
    case None
    then have after: "match_after_exits e vol r ?rid a ?ts n s2 = (x, s')"
      using assms by (simp add: get_num_new_matched_tokens_def a s2_def [symmetric] Let_def)
    obtain ro s3 where ro: "span_run_ruled_out e ?rid a ?ts ?ns n (note_stage e r ?rid s2) = (ro, s3)"
      by fastforce
    have m3: "match_st.more s3 = match_st.more s"
      using small_more(3) [of e ?rid a ?ts ?ns n "note_stage e r ?rid s2"] m2 by (simp add: ro)
    note after' = after [unfolded match_after_exits_def Let_def ro prod.case]
    show ?thesis
    proof (cases ro)
      case True
      then show ?thesis using after' m3 by simp
    next
      case False
      show ?thesis
      proof (cases "memoized_lookup e r ?rid a ?ts ?ns n s3")
        case (Inl s4)
        then show ?thesis using after' False m3 memoized_lookup_more(1) [OF Inl] by simp
      next
        case (Inr y)
        obtain res f qt s4 where y: "y = (res, f, qt, s4)" by (metis prod.exhaust)
        have m4: "match_st.more s4 = match_st.more s" using memoized_lookup_more(2) [OF Inr [unfolded y]] m3 by simp
        show ?thesis
        proof (cases res)
          case None
          then have "s' = note_miss e ?rid a ?ns n f qt s4" using after' False Inr y by simp
          then show ?thesis using m4 by simp
        next
          case (Some result)
          have "materialize_hit e vol ?rid a ?ts ?ns n f result (note_hit e ?rid a ?ns n f qt result s4) = (x, s')"
            using after' False Inr y Some by simp
          then show ?thesis
            using memo_more [OF memo_materialize [of e vol ?rid a ?ts ?ns n f result
                  "note_hit e ?rid a ?ns n f qt result s4"]] m4 by simp
        qed
      qed
    qed
  qed
qed

lemma segment_runs_more: "match_st.more (snd (segment_runs e vol rid s)) = match_st.more s"
proof -
  have "stored_counts e vol ns ds s = (c, s1) \<Longrightarrow> match_st.more s1 = match_st.more s" for ns ds c s1
    using match_part_eq(8) [OF more_stored_counts, of e vol ns ds s] by simp
  then show ?thesis by (auto simp: segment_runs_def Let_def split: option.splits prod.splits)
qed

lemma mid_prefill_more:
  assumes "get_num_new_matched_tokens_mid_prefill e vol r n s = (x, s')"
  shows "match_st.more s' = match_st.more s"
proof -
  obtain found s1 where f: "segment_runs e vol (request_id_of r) s = (found, s1)" by fastforce
  have m: "match_st.more s1 = match_st.more s" using segment_runs_more [of e vol "request_id_of r" s] by (simp add: f)
  have rec: "record_load_plan rid p s1 = (b, s2) \<Longrightarrow> match_st.more s2 = match_st.more s1" for rid p b s2
    using small_more(6) [of rid p s1] by simp
  show ?thesis using assms m
    by (auto simp: get_num_new_matched_tokens_mid_prefill_def f Let_def dest!: rec
        split: option.splits if_splits list.splits prod.splits)
qed

lemma compute_limit_frames:
  assumes "get_prefill_compute_limit e vol r from s = (x, s')"
  shows "match_st.more s' = match_st.more s" and "load_plans s' = load_plans s"
proof -
  obtain found s1 where f: "segment_runs e vol (request_id_of r) s = (found, s1)" by fastforce
  have "s' = s1" using assms by (auto simp: get_prefill_compute_limit_def f Let_def split: option.splits)
  then show "match_st.more s' = match_st.more s" "load_plans s' = load_plans s"
    using segment_runs_more [of e vol "request_id_of r" s] segment_runs_plans(1) [OF f] by (simp_all add: f)
qed

subsection \<open>The scheduler role as a transition system\<close>

inductive sched_step :: "'p env \<Rightarrow> ('p, 'z) reg_st_scheme \<Rightarrow> ('p, 'z) reg_st_scheme \<Rightarrow> bool" for e :: "'p env" where
  Arrive: "sched_step e s (on_new_request e r s)"
| Match: "0 \<le> n \<Longrightarrow> get_num_new_matched_tokens e vol r n s = (res, s') \<Longrightarrow> sched_step e s s'"
| Match_mid: "0 \<le> n \<Longrightarrow> get_num_new_matched_tokens_mid_prefill e vol r n s = (res, s') \<Longrightarrow> sched_step e s s'"
| Limit: "get_prefill_compute_limit e vol r n s = (edge, s') \<Longrightarrow> sched_step e s s'"
| Alloc: "update_state_after_alloc e evict r blocks n s = (ures, s') \<Longrightarrow> sched_step e s s'"
| Step: "build_connector_meta e evict vol out s = (md, s') \<Longrightarrow> sched_step e s s'"
| Finish: "sched_step e s (request_finished e vol r bs s)"
| Bind: "sched_step e s (bind_gpu_block_pool pool s)"
| Shutdown: "sched_step e s (shutdown_registrations e vol s)"

inductive sched_reach :: "'p env \<Rightarrow> ('p, 'z) reg_st_scheme \<Rightarrow> bool" for e :: "'p env" where
  Init: "load_plans s = Map.empty \<Longrightarrow> pending_loads s = [] \<Longrightarrow> sched_reach e s"
| Hook: "sched_reach e s \<Longrightarrow> sched_step e s s' \<Longrightarrow> sched_reach e s'"

text \<open>What a plan, and the load made of it, promises the worker.\<close>

definition start_of :: "int option \<Rightarrow> int" where
  "start_of ts = (case ts of None \<Rightarrow> 0 | Some t \<Rightarrow> t)"

definition window_sound :: "int \<Rightarrow> int \<Rightarrow> int option \<Rightarrow> int option \<Rightarrow> load_piece list \<Rightarrow> bool" where
  "window_sound b k ds ts ps \<longleftrightarrow> 0 < k \<and> b dvd k \<and> (ts = None \<longleftrightarrow> ds = None)
     \<and> (ps = [] \<or> tiles (start_of ts) ps (start_of ts + k))"

definition plan_sound :: "int \<Rightarrow> load_plan \<Rightarrow> bool" where
  "plan_sound b p = window_sound b (pn_token_count p) (pn_donor_start p) (pn_target_start p) (pn_pieces p)"

definition load_sound :: "int \<Rightarrow> string \<times> pending_load \<Rightarrow> bool" where
  "load_sound b kl \<longleftrightarrow> pl_request_id (snd kl) = fst kl \<and> pl_block_ids (snd kl) \<noteq> None
     \<and> window_sound b (pl_token_count (snd kl)) (pl_donor_start (snd kl)) (pl_target_start (snd kl))
         (pl_pieces (snd kl))"

definition loads_inv :: "'p env \<Rightarrow> ('p, 'z) fill_st_scheme \<Rightarrow> bool" where
  "loads_inv e s \<longleftrightarrow> (\<forall>rid p. load_plans s rid = Some p \<longrightarrow> plan_sound (e_block_size e) p)
     \<and> od_wf (pending_loads s) \<and> (\<forall>kl\<in>set (pending_loads s). load_sound (e_block_size e) kl)"

lemma loads_inv_plans:
  assumes "loads_inv e s" and "pending_loads s' = pending_loads s"
    and "\<And>rid p. load_plans s' rid = Some p \<Longrightarrow> load_plans s rid = Some p \<or> plan_sound (e_block_size e) p"
  shows "loads_inv e s'"
  using assms unfolding loads_inv_def by metis

lemma safe_is_sound:
  assumes "plan_safe b ts n p" shows "plan_sound b p"
  using assms by (auto simp: plan_safe_def plan_sound_def window_sound_def start_of_def split: option.splits)

lemma match_loads_inv:
  assumes b: "0 < e_block_size e" and n: "0 \<le> n" and inv: "loads_inv e s"
    and out: "get_num_new_matched_tokens e vol r n s = (x, s')"
  shows "loads_inv e s'"
proof (rule loads_inv_plans [OF inv fill_part_eq(1) [OF hook_more [OF out]]])
  fix rid p assume p: "load_plans s' rid = Some p"
  have safe: "outcome_safe e (token_ids_of r) n (request_id_of r) s (x, s')"
    using match_hook_safe [OF b n, of r s vol] by (simp add: out)
  show "load_plans s rid = Some p \<or> plan_sound (e_block_size e) p"
  proof (cases "load_plans s' = load_plans s")
    case True
    then show ?thesis using p by simp
  next
    case False
    then obtain q where "load_plans s' = (load_plans s)(request_id_of r \<mapsto> q)"
      "plan_safe (e_block_size e) (token_ids_of r) n q"
      using safe by (auto simp: outcome_safe_def split: sum.splits if_splits)
    then show ?thesis using p safe_is_sound by (auto split: if_splits)
  qed
qed

lemma mid_loads_inv:
  assumes b: "0 < e_block_size e" and n: "0 \<le> n" and inv: "loads_inv e s"
    and out: "get_num_new_matched_tokens_mid_prefill e vol r n s = (x, s')"
  shows "loads_inv e s'"
proof (rule loads_inv_plans [OF inv fill_part_eq(1) [OF mid_prefill_more [OF out]]])
  fix rid p assume p: "load_plans s' rid = Some p"
  show "load_plans s rid = Some p \<or> plan_sound (e_block_size e) p"
  proof (rule mid_prefill_cases [OF b n out], goal_cases)
    case 1
    then show ?thesis using p by simp
  next
    case 2
    then show ?thesis using p by simp
  next
    case (3 y ys runs ns s1)
    have "tiles n (map load_piece_of (y # ys)) (n + pieces_total (y # ys))"
      by (rule tiles_pieces [OF 3(5)])
    then show ?thesis using p 3(3,6,7)
      by (auto simp: plan_sound_def window_sound_def start_of_def split: if_splits)
  qed
qed

lemma alloc_loads_inv:
  assumes inv: "loads_inv e s" and out: "update_state_after_alloc e evict r blocks n s = (x, s')"
  shows "loads_inv e s'"
proof (cases "0 < n \<and> load_plans s (request_id_of r) \<noteq> None \<and> blocks \<noteq> None")
  case False
  note d = alloc_declined [OF out False]
  show ?thesis by (rule loads_inv_plans [OF inv d(2)]) (simp add: d(1) split: if_splits)
next
  case True
  then obtain p t where p: "load_plans s (request_id_of r) = Some p" "blocks = Some t" "0 < n" by blast
  note c = alloc_committed [OF out [unfolded p(2)] p(1,3)]
  have "plan_sound (e_block_size e) p" using inv p(1) by (simp add: loads_inv_def)
  then have "load_sound (e_block_size e) (request_id_of r, pending_load_of (request_id_of r) p t)"
    by (simp add: load_sound_def pending_load_of_def plan_sound_def)
  then show ?thesis using inv
    by (auto simp: loads_inv_def c(1,2) dest!: od_set_mem split: if_splits)
qed

lemma build_loads:
  assumes "build_connector_meta e evict vol out s = (Inr md, s')"
  obtains s1 s2 where "s1 = retry_deferred_registrations e vol False (s\<lparr>scheduler_step := scheduler_step s + 1\<rparr>)"
    "ship_loads e (map snd (pending_loads s1)) s1 = (cm_loads md, s2)"
    "pending_loads s1 = pending_loads s" "pending_loads s' = []"
proof -
  define s1 where "s1 = retry_deferred_registrations e vol False (s\<lparr>scheduler_step := scheduler_step s + 1\<rparr>)"
  obtain loads s2 where sl: "ship_loads e (map snd (pending_loads s1)) s1 = (loads, s2)" by fastforce
  have "pending_loads s1 = pending_loads s"
    using retry_maps [of e vol False "s\<lparr>scheduler_step := scheduler_step s + 1\<rparr>"]
    by (simp add: same_request_maps_def s1_def)
  moreover have "loads = cm_loads md \<and> pending_loads s' = []"
    using assms unfolding build_connector_meta_def Let_def s1_def [symmetric] sl prod.case
    by (auto split: sum.splits prod.splits)
  ultimately show thesis using that [OF s1_def] sl by simp
qed

lemma track_running_kept:
  assumes "track_running_fills e evict out s = (res, s')"
  shows "load_plans s' = load_plans s" and "pending_loads s' = pending_loads s"
proof -
  define s1 where "s1 = retire_fills (so_finished_req_ids out) s"
  have s1: "load_plans s1 = load_plans s" "pending_loads s1 = pending_loads s"
    by (simp_all add: s1_def retire_fills_def)
  have "load_plans s' = load_plans s \<and> pending_loads s' = pending_loads s"
  proof (cases "so_cached out")
    case None
    then show ?thesis using assms s1 by (simp add: track_running_fills_def s1_def)
  next
    case (Some x)
    then obtain rows resumed where x: "so_cached out = Some (rows, resumed)" by (cases x) simp
    then have "track_rows e evict resumed rows s1 = (res, s')"
      using assms by (simp add: track_running_fills_def s1_def)
    from track_rows_untouched(3,4) [OF this] show ?thesis using s1 by simp
  qed
  then show "load_plans s' = load_plans s" "pending_loads s' = pending_loads s" by simp_all
qed

text \<open>A step keeps the plans and either ships the queued loads or, when it raises, keeps them queued.\<close>

lemma build_kept:
  assumes "build_connector_meta e evict vol out s = (res, s')"
  shows "load_plans s' = load_plans s" and "pending_loads s' = pending_loads s \<or> pending_loads s' = []"
proof -
  define s1 where "s1 = retry_deferred_registrations e vol False (s\<lparr>scheduler_step := scheduler_step s + 1\<rparr>)"
  have s1: "load_plans s1 = load_plans s" "pending_loads s1 = pending_loads s"
    using retry_maps [of e vol False "s\<lparr>scheduler_step := scheduler_step s + 1\<rparr>"]
    by (simp_all add: same_request_maps_def s1_def)
  obtain loads s2 where sl: "ship_loads e (map snd (pending_loads s1)) s1 = (loads, s2)" by fastforce
  have m2: "audit_st.more s2 = audit_st.more s1"
    using ship_loads_more [of e "map snd (pending_loads s1)" s1] by (simp add: sl)
  have s2: "load_plans s2 = load_plans s" "pending_loads s2 = pending_loads s"
    using match_part_eq(1) [OF more_frames(1) [OF m2]] more_frames(5) [OF m2] s1 by simp_all
  obtain x s3 where bs: "build_store_metadata e out s2 = (x, s3)" by fastforce
  have s3: "load_plans s3 = load_plans s" "pending_loads s3 = pending_loads s"
    using build_store_more [OF bs] s2 by (simp_all add: kept_def)
  obtain y s4 where tr: "track_running_fills e evict out s3 = (y, s4)" by fastforce
  have s4: "load_plans s4 = load_plans s" "pending_loads s4 = pending_loads s"
    using track_running_kept [OF tr] s3 by simp_all
  have "s' = s3 \<or> s' = s4 \<or> s' = s4\<lparr>pending_loads := [], pending_finalize := []\<rparr>"
    using assms unfolding build_connector_meta_def Let_def s1_def [symmetric] sl prod.case bs
    by (auto simp: tr split: sum.splits)
  then show "load_plans s' = load_plans s" "pending_loads s' = pending_loads s \<or> pending_loads s' = []"
    using s3 s4 by auto
qed

lemma loads_inv_same:
  assumes "loads_inv e s" and "load_plans s' = load_plans s" and "pending_loads s' = pending_loads s"
  shows "loads_inv e s'"
  using assms by (simp add: loads_inv_def)

lemma finish_loads:
  "load_plans (request_finished e vol r bs s) = (load_plans s)(request_id_of r := None)"
  "pending_loads (request_finished e vol r bs s) = pending_loads s"
proof -
  define s1 where "s1 = retry_deferred_registrations e vol False s"
  define s2 where "s2 = retire_before_registration (request_id_of r) s1"
  define s3 where "s3 = register_donor_on_finish e vol r (request_id_of r) (length bs) s2"
  have s1: "load_plans s1 = load_plans s" "pending_loads s1 = pending_loads s"
    using retry_maps [of e vol False s] by (simp_all add: same_request_maps_def s1_def)
  have s2: "load_plans s2 = (load_plans s1)(request_id_of r := None)" "pending_loads s2 = pending_loads s1"
    by (simp_all add: s2_def retire_before_registration_def)
  have s3: "load_plans s3 = load_plans s2" "pending_loads s3 = pending_loads s2"
    using register_on_finish_maps [of e vol r "request_id_of r" "length bs" s2]
    by (simp_all add: same_request_maps_def s3_def)
  have out: "request_finished e vol r bs s = retire_after_registration (request_id_of r) s3"
    unfolding request_finished_def Let_def s1_def [symmetric] s2_def [symmetric] s3_def [symmetric] ..
  show "load_plans (request_finished e vol r bs s) = (load_plans s)(request_id_of r := None)"
    "pending_loads (request_finished e vol r bs s) = pending_loads s"
    unfolding out using s1 s2 s3 by (simp_all add: retire_after_registration_def forget_request_join_key_def)
qed

lemma step_loads_inv:
  assumes b: "0 < e_block_size e" and inv: "loads_inv e s" and step: "sched_step e s s'"
  shows "loads_inv e s'"
  using step
proof cases
  case (Arrive r)
  then show ?thesis using inv by (rule_tac loads_inv_same) (simp_all add: on_new_request_def)
next
  case (Match n vol r res)
  show ?thesis by (rule match_loads_inv [OF b Match(1) inv Match(2)])
next
  case (Match_mid n vol r res)
  show ?thesis by (rule mid_loads_inv [OF b Match_mid(1) inv Match_mid(2)])
next
  case (Limit vol r n edge)
  note f = compute_limit_frames [OF Limit]
  show ?thesis by (rule loads_inv_same [OF inv f(2) fill_part_eq(1) [OF f(1)]])
next
  case (Alloc evict r blocks n ures)
  show ?thesis by (rule alloc_loads_inv [OF inv Alloc])
next
  case (Step evict vol out md)
  from build_kept [OF Step] inv show ?thesis by (auto simp: loads_inv_def od_wf_def od_keys_def)
next
  case (Finish vol r bs)
  show ?thesis using inv finish_loads [of e vol r bs s] by (auto simp: Finish loads_inv_def split: if_splits)
next
  case (Bind pool)
  then show ?thesis using inv by (rule_tac loads_inv_same) (simp_all add: bind_gpu_block_pool_def)
next
  case (Shutdown vol)
  have "same_request_maps (shutdown_registrations e vol s) s"
    unfolding shutdown_registrations_def by (rule retry_maps)
  then show ?thesis using inv by (rule_tac loads_inv_same) (simp_all add: Shutdown same_request_maps_def)
qed

lemma reach_loads_inv:
  assumes "0 < e_block_size e"
  shows "sched_reach e s \<Longrightarrow> loads_inv e s"
proof (induction rule: sched_reach.induct)
  case (Init s)
  then show ?case by (simp add: loads_inv_def od_wf_def od_keys_def)
next
  case (Hook s s')
  show ?case by (rule step_loads_inv [OF assms Hook.IH Hook.hyps(2)])
qed

subsection \<open>What a step ships\<close>

text \<open>Loads that fill a window of the request, each from where the previous one ended.\<close>

fun covers :: "int \<Rightarrow> pending_load list \<Rightarrow> int \<Rightarrow> bool" where
  "covers p [] q \<longleftrightarrow> p = q"
| "covers p (x # xs) q \<longleftrightarrow> start_of (pl_target_start x) = p \<and> 0 < pl_token_count x \<and> pl_pieces x = []
     \<and> pl_block_ids x \<noteq> None \<and> covers (p + pl_token_count x) xs q"

definition shipped :: "pending_load \<Rightarrow> pending_load list" where
  "shipped l = (if pl_pieces l = [] then [l] else map (piece_load l) (pl_pieces l))"

lemma covers_pieces:
  "pl_block_ids l \<noteq> None \<Longrightarrow> tiles p ps q \<Longrightarrow> covers p (map (piece_load l) ps) q"
  by (induction p ps q rule: tiles.induct) (auto simp: piece_load_def start_of_def)

lemma shipped_covers:
  assumes "load_sound b (rid, l)"
  shows "covers (start_of (pl_target_start l)) (shipped l) (start_of (pl_target_start l) + pl_token_count l)"
  using assms by (auto simp: load_sound_def window_sound_def shipped_def intro!: covers_pieces)

lemma shipped_ids: "x \<in> set (shipped l) \<Longrightarrow> pl_request_id x = pl_request_id l \<and> pl_namespace x = pl_namespace l
    \<and> pl_block_ids x = pl_block_ids l"
  by (auto simp: shipped_def piece_load_def split: if_splits)

lemma ship_loads_shipped:
  "\<forall>l\<in>set ls. pl_block_ids l \<noteq> None \<Longrightarrow> fst (ship_loads e ls s) = concat (map shipped ls)"
proof (induction ls arbitrary: s)
  case (Cons l ls)
  then have "fst (ship_load e l s) = shipped l" by (auto simp: ship_load_def shipped_def)
  then show ?case using Cons by (simp add: Let_def split_def)
qed simp

lemma shipped_from:
  assumes "\<forall>kl\<in>set d. pl_request_id (snd kl) = fst kl" and "x \<in> set (concat (map shipped (map snd d)))"
  shows "pl_request_id x \<in> fst ` set d"
proof -
  from assms(2) obtain kl where kl: "kl \<in> set d" "x \<in> set (shipped (snd kl))" by auto
  then have "pl_request_id x = fst kl" using assms(1) shipped_ids [OF kl(2)] by simp
  then show ?thesis using kl(1) by blast
qed

lemma filter_shipped:
  assumes "distinct (map fst d)" and "\<forall>kl\<in>set d. pl_request_id (snd kl) = fst kl" and "(rid, l) \<in> set d"
  shows "filter (\<lambda>x. pl_request_id x = rid) (concat (map shipped (map snd d))) = shipped l"
  using assms
proof (induction d)
  case (Cons kl d)
  obtain k m where kl: "kl = (k, m)" by (cases kl)
  have ids: "filter (\<lambda>x. pl_request_id x = rid) (shipped m) = (if k = rid then shipped m else [])"
    using Cons.prems(2) shipped_ids [of _ m] by (auto simp: kl filter_id_conv filter_empty_conv)
  show ?case
  proof (cases "k = rid")
    case True
    then have "m = l" "rid \<notin> fst ` set d" using Cons.prems by (auto simp: kl image_iff)
    have "pl_request_id x \<noteq> rid" if "x \<in> set (concat (map shipped (map snd d)))" for x
      using shipped_from [OF _ that] Cons.prems(2) \<open>rid \<notin> fst ` set d\<close> by auto
    then have "filter (\<lambda>x. pl_request_id x = rid) (concat (map shipped (map snd d))) = []"
      by (simp add: filter_empty_conv)
    then show ?thesis using ids True \<open>m = l\<close> by (simp add: kl)
  next
    case False
    then show ?thesis using Cons ids by (auto simp: kl)
  qed
qed simp

lemma build_ships:
  assumes "0 < e_block_size e" and "sched_reach e s"
    and "build_connector_meta e evict vol out s = (Inr md, s')"
  shows "cm_loads md = concat (map shipped (map snd (pending_loads s)))" and "pending_loads s' = []"
    and "\<forall>kl \<in> set (pending_loads s). load_sound (e_block_size e) kl"
    and "distinct (map fst (pending_loads s))"
proof -
  have inv: "loads_inv e s" by (rule reach_loads_inv [OF assms(1,2)])
  obtain s1 s2 where
    "s1 = retry_deferred_registrations e vol False (s\<lparr>scheduler_step := scheduler_step s + 1\<rparr>)"
    and b: "ship_loads e (map snd (pending_loads s1)) s1 = (cm_loads md, s2)"
    "pending_loads s1 = pending_loads s" "pending_loads s' = []"
    by (rule build_loads [OF assms(3)])
  show sound: "\<forall>kl \<in> set (pending_loads s). load_sound (e_block_size e) kl"
    using inv by (simp add: loads_inv_def)
  then have "\<forall>l\<in>set (map snd (pending_loads s1)). pl_block_ids l \<noteq> None"
    by (auto simp: b(2) load_sound_def)
  from ship_loads_shipped [OF this, of e s1, unfolded b(1) fst_conv]
  show "cm_loads md = concat (map shipped (map snd (pending_loads s)))" unfolding b(2) .
  show "distinct (map fst (pending_loads s))" using inv by (simp add: loads_inv_def od_wf_def od_keys_def)
  show "pending_loads s' = []" by (rule b(3))
qed

text \<open>
  C2. The worker is only handed sound loads: in every state reachable by any order of the scheduler's
  hooks, a step that succeeds ships each committed load exactly once, as loads that fill exactly the
  window its plan advertised, a whole number of blocks, from one piece to the next without gap or
  overlap, into blocks that were allocated; and it ships nothing else.
\<close>

theorem shipped_loads_fill_their_windows:
  assumes "0 < e_block_size e" and "sched_reach e s"
    and "build_connector_meta e evict vol out s = (Inr md, s')"
  shows "pending_loads s' = []
    \<and> (\<forall>x\<in>set (cm_loads md). pl_request_id x \<in> set (od_keys (pending_loads s)))
    \<and> (\<forall>(rid, l)\<in>set (pending_loads s).
          e_block_size e dvd pl_token_count l \<and> 0 < pl_token_count l
          \<and> covers (start_of (pl_target_start l)) (filter (\<lambda>x. pl_request_id x = rid) (cm_loads md))
              (start_of (pl_target_start l) + pl_token_count l))"
proof -
  note loads = build_ships(1) [OF assms] and sound = bspec [OF build_ships(3) [OF assms]]
    and dist = build_ships(4) [OF assms]
  have ids: "\<forall>kl\<in>set (pending_loads s). pl_request_id (snd kl) = fst kl" using sound by (auto simp: load_sound_def)
  have "pl_request_id x \<in> set (od_keys (pending_loads s))" if "x \<in> set (cm_loads md)" for x
    using shipped_from [OF ids that [unfolded loads]] by (simp add: od_keys_def)
  moreover have "e_block_size e dvd pl_token_count l \<and> 0 < pl_token_count l
      \<and> covers (start_of (pl_target_start l)) (filter (\<lambda>x. pl_request_id x = rid) (cm_loads md))
          (start_of (pl_target_start l) + pl_token_count l)" if m: "(rid, l) \<in> set (pending_loads s)" for rid l
    unfolding loads filter_shipped [OF dist ids m]
    using shipped_covers [OF sound [OF m]] sound [OF m] by (simp add: load_sound_def window_sound_def)
  ultimately show ?thesis using build_ships(2) [OF assms] by blast
qed

subsection \<open>Witness\<close>

text \<open>A request that matches, is given blocks, and whose load a step ships.\<close>

definition fresh_scheduler :: "unit reg_st" where
  "fresh_scheduler = capture_st.extend (capture_st.truncate (fill_st.extend
      (match_st.extend (match_st.truncate span_state)
        \<lparr>pending_loads = [], served_request_ids = {}, gpu_block_pool = None, filled_blocks = Map.empty,
         reported_fill_blocks = Map.empty\<rparr>)
      \<lparr>capture_state = Map.empty, capture_boundaries = Map.empty, captures_opened = Map.empty,
       capture_skipped_reasons = Map.empty, pending_finalize = []\<rparr>))
    \<lparr>deferred_registrations = [], scheduler_step = 0\<rparr>"

definition matched_state :: "unit reg_st" where
  "matched_state = snd (get_num_new_matched_tokens span_env full_volume span_request 2 fresh_scheduler)"

definition allocated_state :: "unit reg_st" where
  "allocated_state = snd (update_state_after_alloc span_env drop_hashes span_request (Some [[0, 1, 2]]) 4 matched_state)"

definition empty_step :: scheduler_output where
  "empty_step = \<lparr>so_finished_req_ids = [], so_new_reqs = [], so_cached = None, so_num_scheduled = None\<rparr>"

lemma fresh_reach: "sched_reach span_env allocated_state"
proof -
  have init: "sched_reach span_env fresh_scheduler"
    by (rule sched_reach.Init)
      (simp_all add: fresh_scheduler_def capture_st.defs fill_st.defs match_st.defs span_state_def init_match_def)
  have "sched_reach span_env matched_state"
    unfolding matched_state_def by (rule sched_reach.Hook [OF init sched_step.Match [OF _ surjective_pairing]]) simp
  then show ?thesis unfolding allocated_state_def by (rule sched_reach.Hook [OF _ sched_step.Alloc [OF surjective_pairing]])
qed

lemma lifecycle_run:
  "map (\<lambda>(k, l). (k, pl_target_start l, pl_token_count l)) (pending_loads allocated_state)
     = [(request_id_of span_request, Some 2, 4)]"
  "\<not> isl (fst (build_connector_meta span_env drop_hashes full_volume empty_step allocated_state))"
  by code_simp+

theorem shipped_loads_fill_their_windows_witness:
  "\<exists>md s'. build_connector_meta span_env drop_hashes full_volume empty_step allocated_state = (Inr md, s')
     \<and> covers 2 (filter (\<lambda>x. pl_request_id x = request_id_of span_request) (cm_loads md)) (2 + 4)"
proof -
  obtain md s' where run: "build_connector_meta span_env drop_hashes full_volume empty_step allocated_state = (Inr md, s')"
    using lifecycle_run(2)
    by (cases "fst (build_connector_meta span_env drop_hashes full_volume empty_step allocated_state)")
      (auto dest: fst_run)
  obtain l where l: "pending_loads allocated_state = [(request_id_of span_request, l)]"
    "pl_target_start l = Some 2" "pl_token_count l = 4"
    using lifecycle_run(1) by (cases "pending_loads allocated_state") (auto split: prod.splits)
  have b: "0 < e_block_size span_env" by (simp add: span_params)
  have "covers (start_of (pl_target_start l))
      (filter (\<lambda>x. pl_request_id x = request_id_of span_request) (cm_loads md))
      (start_of (pl_target_start l) + pl_token_count l)"
    using shipped_loads_fill_their_windows [OF b fresh_reach run] by (simp add: l(1))
  then show ?thesis using run unfolding l start_of_def option.case by blast
qed

end
