(* ===== verification/Numbers.thy ===== *)
theory Numbers
  imports Values
begin

text \<open>
  Python's conversions \<open>int(x)\<close> and \<open>float(x)\<close> on the values of \<open>Values\<close>, as the configuration readers and
  the model configuration use them. A finite float is its decimal value, not rounded to a double; an
  infinity or a NaN is \<open>Nonfinite\<close>.
\<close>

subsection \<open>Reading digits\<close>

definition is_digit :: "char \<Rightarrow> bool" where
  "is_digit c \<longleftrightarrow> 48 \<le> (of_char c :: nat) \<and> (of_char c :: nat) \<le> 57"

definition digit_of :: "char \<Rightarrow> int" where
  "digit_of c = of_char c - 48"

text \<open>A group of digits, in which an underscore may stand between two of them.\<close>

fun read_digits :: "bool \<Rightarrow> int \<Rightarrow> string \<Rightarrow> int option" where
  "read_digits after acc [] = (if after then Some acc else None)"
| "read_digits after acc (c # cs) =
     (if is_digit c then read_digits True (acc * 10 + digit_of c) cs
      else if c = CHR ''_'' \<and> after then read_digits False acc cs
      else None)"

definition c_space :: "char \<Rightarrow> bool" where
  "c_space c \<longleftrightarrow> c \<in> {CHR 0x09, CHR 0x0A, CHR 0x0B, CHR 0x0C, CHR 0x0D, CHR 0x20}"

definition c_strip :: "string \<Rightarrow> string" where
  "c_strip s = rev (dropWhile c_space (rev (dropWhile c_space s)))"

definition read_sign :: "string \<Rightarrow> int \<times> string" where
  "read_sign s =
     (case s of [] \<Rightarrow> (1, [])
      | c # cs \<Rightarrow> if c = CHR ''-'' then (- 1, cs) else if c = CHR ''+'' then (1, cs) else (1, c # cs))"

text \<open>CPython refuses to convert more than 4300 digits.\<close>

definition digit_count :: "string \<Rightarrow> nat" where
  "digit_count s = length (filter is_digit s)"

definition max_digits :: nat where
  "max_digits = 4300"

definition int_of_text :: "string \<Rightarrow> py_error + int" where
  "int_of_text s =
     (let (sg, t) = read_sign (c_strip s)
      in if max_digits < digit_count t then Inl ValueError
         else case read_digits False 0 t of None \<Rightarrow> Inl ValueError | Some n \<Rightarrow> Inr (sg * n))"

subsection \<open>\<open>int(x)\<close>\<close>

definition trunc_rat :: "rat \<Rightarrow> int" where
  "trunc_rat r = (if r < 0 then - floor (- r) else floor r)"

fun py_int :: "pyval \<Rightarrow> py_error + int" where
  "py_int (PBool b) = Inr (if b then 1 else 0)"
| "py_int (PInt i) = Inr i"
| "py_int (PFloat r _) = Inr (trunc_rat r)"
| "py_int (PStr s) = int_of_text s"
| "py_int _ = Inl TypeError"

subsection \<open>\<open>float(x)\<close>\<close>

datatype pyfloat = Finite rat | Nonfinite

definition digit_run :: "char \<Rightarrow> bool" where
  "digit_run c \<longleftrightarrow> is_digit c \<or> c = CHR ''_''"

text \<open>A part that may be left out; its value with the number of its digits.\<close>

definition read_part :: "string \<Rightarrow> (int \<times> nat) option" where
  "read_part s = (if s = [] then Some (0, 0) else map_option (\<lambda>n. (n, digit_count s)) (read_digits False 0 s))"

definition read_exponent :: "string \<Rightarrow> int option" where
  "read_exponent s =
     (case s of [] \<Rightarrow> Some 0
      | c # cs \<Rightarrow>
          if c \<noteq> CHR ''e'' \<and> c \<noteq> CHR ''E'' then None
          else let (sg, t) = read_sign cs in map_option ((*) sg) (read_digits False 0 t))"

definition ten_to :: "int \<Rightarrow> rat" where
  "ten_to n = (if 0 \<le> n then 10 ^ nat n else 1 / 10 ^ nat (- n))"

definition decimal_of_text :: "string \<Rightarrow> rat option" where
  "decimal_of_text u =
     (let whole = takeWhile digit_run u;
          r1 = dropWhile digit_run u;
          (frac, r2) = (case r1 of
             [] \<Rightarrow> ([], [])
           | c # cs \<Rightarrow> if c = CHR ''.'' then (takeWhile digit_run cs, dropWhile digit_run cs) else ([], c # cs))
      in if whole = [] \<and> frac = [] then None
         else case (read_part whole, read_part frac, read_exponent r2) of
                (Some (w, _), Some (f, n), Some x) \<Rightarrow> Some ((of_int w + of_int f / 10 ^ n) * ten_to x)
              | _ \<Rightarrow> None)"

text \<open>From here on a decimal text rounds to an infinity, and an integer does not convert.\<close>

definition float_limit :: rat where
  "float_limit = of_int (2 ^ 1024 - 2 ^ 970)"

definition float_of_text :: "string \<Rightarrow> py_error + pyfloat" where
  "float_of_text s =
     (let (sg, u) = read_sign (c_strip s)
      in if py_lower u \<in> {''inf'', ''infinity'', ''nan''} then Inr Nonfinite
         else case decimal_of_text u of
                None \<Rightarrow> Inl ValueError
              | Some r \<Rightarrow> Inr (if float_limit \<le> r then Nonfinite else Finite (of_int sg * r)))"

fun py_float :: "pyval \<Rightarrow> py_error + pyfloat" where
  "py_float (PBool b) = Inr (Finite (if b then 1 else 0))"
| "py_float (PInt i) = (if float_limit \<le> of_int \<bar>i\<bar> then Inl OverflowError else Inr (Finite (of_int i)))"
| "py_float (PFloat r _) = Inr (Finite r)"
| "py_float (PStr s) = float_of_text s"
| "py_float _ = Inl TypeError"

subsection \<open>Numbers among values\<close>

fun num_of :: "pyval \<Rightarrow> rat option" where
  "num_of (PBool b) = Some (if b then 1 else 0)"
| "num_of (PInt i) = Some (of_int i)"
| "num_of (PFloat r _) = Some r"
| "num_of _ = None"

definition is_float :: "pyval \<Rightarrow> bool" where
  "is_float v = (case v of PFloat _ _ \<Rightarrow> True | _ \<Rightarrow> False)"

text \<open>\<open>a == b\<close>: numbers of different types compare by value.\<close>

definition py_eq :: "pyval \<Rightarrow> pyval \<Rightarrow> bool" where
  "py_eq a b = (case (num_of a, num_of b) of (Some x, Some y) \<Rightarrow> x = y | _ \<Rightarrow> a = b)"

text \<open>\<open>getattr(obj, name, dflt)\<close>.\<close>

definition getattr_or :: "pyval \<Rightarrow> string \<Rightarrow> pyval \<Rightarrow> pyval" where
  "getattr_or obj name dflt = (if hasattr obj name then getattr obj name else dflt)"

subsection \<open>\<open>int(str(i))\<close>\<close>

lemma of_char_digit: "d < 10 \<Longrightarrow> (of_char (char_of (48 + d) :: char) :: nat) = 48 + d"
  by (simp add: of_char_of)

lemma digit_char:
  assumes "d < 10"
  shows "is_digit (char_of (48 + d))" and "digit_of (char_of (48 + d)) = int d"
proof -
  have n: "(of_char (char_of (48 + d) :: char) :: nat) = 48 + d" by (rule of_char_digit [OF assms])
  then have "(of_char (char_of (48 + d) :: char) :: int) = int (48 + d)" by (metis of_nat_of_char)
  then show "is_digit (char_of (48 + d))" "digit_of (char_of (48 + d)) = int d"
    using n assms by (simp_all add: is_digit_def digit_of_def)
qed

lemma read_digits_append:
  "\<forall>c \<in> set s. is_digit c \<Longrightarrow> s \<noteq> [] \<Longrightarrow>
    read_digits a acc (s @ t) = read_digits True (fold (\<lambda>c n. n * 10 + digit_of c) s acc) t"
proof (induction s arbitrary: a acc)
  case (Cons c s)
  show ?case
  proof (cases "s = []")
    case False
    then show ?thesis using Cons.IH [of True "acc * 10 + digit_of c"] Cons.prems(1) by simp
  qed (use Cons.prems in simp)
qed simp

lemma digits_of_digits: "\<forall>c \<in> set (digits_of n). is_digit c"
proof (induction n rule: digits_of.induct)
  case (1 n)
  show ?case
  proof (cases "n < 10")
    case True
    then show ?thesis by (subst digits_of.simps) (simp add: digit_char)
  next
    case False
    then show ?thesis using 1 by (subst digits_of.simps) (auto simp: digit_char)
  qed
qed

lemma digits_of_ne: "digits_of n \<noteq> []"
  by (subst digits_of.simps) simp

lemma digits_of_value: "fold (\<lambda>c n. n * 10 + digit_of c) (digits_of n) 0 = int n"
proof (induction n rule: digits_of.induct)
  case (1 n)
  show ?case
  proof (cases "n < 10")
    case True
    then show ?thesis by (subst digits_of.simps) (simp add: digit_char)
  next
    case False
    have d: "digits_of n = digits_of (n div 10) @ [char_of (48 + n mod 10)]"
      using False by (subst digits_of.simps) simp
    have "int (n div 10) * 10 + int (n mod 10) = int n" by presburger
    then show ?thesis unfolding d using 1 [OF False] by (simp add: digit_char)
  qed
qed

lemma digits_of_length: "n < 10 ^ k \<Longrightarrow> 0 < k \<Longrightarrow> length (digits_of n) \<le> k"
proof (induction k arbitrary: n)
  case (Suc k)
  show ?case
  proof (cases "n < 10")
    case True
    then show ?thesis by (subst digits_of.simps) simp
  next
    case False
    have d: "digits_of n = digits_of (n div 10) @ [char_of (48 + n mod 10)]"
      using False by (subst digits_of.simps) simp
    have "n div 10 < 10 ^ k" using Suc.prems(1) by (simp add: less_mult_imp_div_less)
    moreover have "0 < k" using False Suc.prems(1) by (cases k) simp_all
    ultimately show ?thesis using Suc.IH by (simp add: d)
  qed
qed simp

lemma read_digits_of: "read_digits False 0 (digits_of n) = Some (int n)"
  using read_digits_append [OF digits_of_digits digits_of_ne, where a = False and acc = 0 and t = "[]"] by (simp add: digits_of_value)

lemma digit_not_space: "is_digit c \<Longrightarrow> \<not> c_space c \<and> c \<noteq> CHR ''-'' \<and> c \<noteq> CHR ''+''"
  by (auto simp: is_digit_def c_space_def)

lemma c_strip_same: "s \<noteq> [] \<Longrightarrow> \<not> c_space (hd s) \<Longrightarrow> \<not> c_space (last s) \<Longrightarrow> c_strip s = s"
  by (simp add: c_strip_def iffD2 [OF dropWhile_eq_self_iff] hd_rev)

lemma max_digits_pos: "0 < max_digits"
  by (simp add: max_digits_def)

lemma int_of_digits:
  assumes "n < 10 ^ max_digits"
  shows "int_of_text (digits_of n) = Inr (int n)" and "int_of_text (''-'' @ digits_of n) = Inr (- int n)"
proof -
  have h: "is_digit (hd (digits_of n))" "is_digit (last (digits_of n))"
    using digits_of_digits [of n] digits_of_ne [of n] by simp_all
  have l: "digit_count (digits_of n) \<le> max_digits"
    unfolding digit_count_def
    by (rule order_trans [OF length_filter_le digits_of_length [OF assms max_digits_pos]])
  have "c_strip (digits_of n) = digits_of n"
    using h digits_of_ne [of n] digit_not_space by (intro c_strip_same) simp_all
  moreover have "read_sign (digits_of n) = (1, digits_of n)"
    using h(1) digits_of_ne [of n] digit_not_space by (cases "digits_of n") (auto simp: read_sign_def)
  ultimately show "int_of_text (digits_of n) = Inr (int n)"
    using l by (simp add: int_of_text_def read_digits_of)
  have "c_strip (''-'' @ digits_of n) = ''-'' @ digits_of n"
    using h digits_of_ne [of n] digit_not_space by (intro c_strip_same) (simp_all add: c_space_def)
  then show "int_of_text (''-'' @ digits_of n) = Inr (- int n)"
    using l by (simp add: int_of_text_def read_digits_of read_sign_def)
qed

text \<open>\<open>int\<close> reads back what \<open>str\<close> prints, as long as \<open>str\<close> prints it.\<close>

lemma int_str:
  assumes "\<bar>i\<bar> < 10 ^ max_digits"
  shows "py_int (PStr (str_of_int i)) = Inr i"
proof (cases "i < 0")
  case True
  have "nat (- i) < 10 ^ max_digits" using assms True by (simp add: nat_less_iff)
  from int_of_digits(2) [OF this] show ?thesis using True by (simp add: str_of_int_def)
next
  case False
  have "nat i < 10 ^ max_digits" using assms False by (simp add: nat_less_iff)
  from int_of_digits(1) [OF this] show ?thesis using False by (simp add: str_of_int_def)
qed

end
