(* ===== verification/Slots.thy ===== *)
theory Slots
  imports Storage
begin

text \<open>
  Addressing the paged KV cache: \<open>_slot_mapping\<close>, \<open>_destination_block_ids\<close>, and the gather and scatter
  of \<open>_extract_kv_from_layer\<close> and \<open>_inject_kv_into_layer\<close>. One layer of the cache is a function from a
  page and an offset to the row of one token, an opaque integer; \<open>Layouts\<close> opens it, with the axes of the
  tensor and the place of each component. The page size is the block size.
\<close>

subsection \<open>Slots\<close>

text \<open>Python's \<open>xs[i:j]\<close> for indices that are not negative.\<close>

definition py_slice :: "'a list \<Rightarrow> int \<Rightarrow> int \<Rightarrow> 'a list" where
  "py_slice xs i j = drop (nat i) (take (nat j) xs)"

definition block_slots :: "nat \<Rightarrow> nat \<Rightarrow> nat list" where
  "block_slots b blk = map (\<lambda>o'. o' + blk * b) [0..<b]"

definition slot_mapping ::
  "'p env \<Rightarrow> nat list list \<Rightarrow> int \<Rightarrow> int \<Rightarrow> 'z audit_st_scheme
     \<Rightarrow> (py_error + nat list) \<times> 'z audit_st_scheme" where
  "slot_mapping e block_ids token_count target_start s =
     (if length block_ids \<noteq> 1
      then (Inl (RuntimeError ''single KV-cache group''),
            audit e None (EW (Ev_slot_mapping_multi_group_refused (len block_ids) target_start token_count))
              (bump (SW Slot_mapping_multi_group_refused) s))
      else let b = e_block_size e;
               start_block = target_start div b;
               end_block = - ((- (target_start + token_count)) div b);
               grp = py_slice (block_ids ! 0) start_block end_block;
               offset = target_start mod b;
               covered = len grp * b - offset
           in if covered < token_count
              then (Inl (RuntimeError ''blocks do not cover the window''),
                    audit e None (EW (Ev_slot_mapping_window_not_covered target_start token_count
                                        (len (block_ids ! 0)) (max covered 0)))
                      (bump (SW Slot_mapping_window_not_covered) s))
              else (Inr (py_slice (concat (map (block_slots (nat b)) grp)) offset (offset + token_count)), s))"

definition destination_block_ids :: "'p env \<Rightarrow> pending_load \<Rightarrow> nat set" where
  "destination_block_ids e l =
     (case pl_block_ids l of
        None \<Rightarrow> {}
      | Some [] \<Rightarrow> {}
      | Some (grp # _) \<Rightarrow>
          (let t = (case pl_target_start l of None \<Rightarrow> 0 | Some t \<Rightarrow> t);
               b = e_block_size e
           in set (py_slice grp (t div b) (- ((- (t + pl_token_count l)) div b)))))"

subsection \<open>Gather and scatter\<close>

type_synonym layer_cache = "nat \<Rightarrow> nat \<Rightarrow> int"

definition cell :: "nat \<Rightarrow> layer_cache \<Rightarrow> nat \<Rightarrow> int" where
  "cell page_size c slot = c (slot div page_size) (slot mod page_size)"

definition extract_kv :: "nat \<Rightarrow> layer_cache \<Rightarrow> nat list \<Rightarrow> kv_rows" where
  "extract_kv page_size c slots = map (cell page_size c) slots"

definition write_cell :: "nat \<Rightarrow> nat \<times> int \<Rightarrow> layer_cache \<Rightarrow> layer_cache" where
  "write_cell page_size sr c =
     c(fst sr div page_size := (c (fst sr div page_size))(fst sr mod page_size := snd sr))"

text \<open>The reshape of the source to one row per slot raises when the counts differ.\<close>

definition inject_kv :: "nat \<Rightarrow> layer_cache \<Rightarrow> kv_rows \<Rightarrow> nat list \<Rightarrow> py_error + layer_cache" where
  "inject_kv page_size c rows slots =
     (if length rows \<noteq> length slots then Inl (RuntimeError ''shape'')
      else Inr (fold (write_cell page_size) (zip slots rows) c))"

subsection \<open>Lemmas\<close>

lemma concat_blocks_nth:
  assumes "0 < b" and "i < length g * b"
  shows "concat (map (block_slots b) g) ! i = g ! (i div b) * b + i mod b"
    and "length (concat (map (block_slots b) g)) = length g * b"
proof -
  show "length (concat (map (block_slots b) g)) = length g * b"
    by (induction g) (simp_all add: block_slots_def)
  show "concat (map (block_slots b) g) ! i = g ! (i div b) * b + i mod b"
    using assms(2)
  proof (induction g arbitrary: i)
    case (Cons x g)
    show ?case
    proof (cases "i < b")
      case True
      then show ?thesis by (simp add: nth_append block_slots_def)
    next
      case False
      then have i: "i = b + (i - b)" and lt: "i - b < length g * b" using Cons.prems by simp_all
      have "i div b = Suc ((i - b) div b)" "i mod b = (i - b) mod b"
        using False assms(1) by (simp_all add: le_div_geq le_mod_geq)
      then show ?thesis using Cons.IH [OF lt] False by (simp add: nth_append block_slots_def)
    qed
  qed simp
qed

lemma py_slice_nth: "i < length (py_slice xs a b) \<Longrightarrow> py_slice xs a b ! i = xs ! (nat a + i)"
  unfolding py_slice_def by (subst nth_drop) auto

lemma py_slice_length: "0 \<le> a \<Longrightarrow> length (py_slice xs a b) = min (length xs) (nat b) - nat a"
  by (simp add: py_slice_def)

lemma slot_mapping_Inr:
  assumes b: "0 < e_block_size e" and t: "0 \<le> t" and n: "0 \<le> n"
    and out: "slot_mapping e bs n t s = (Inr slots, s')"
  shows "s' = s" and "length bs = 1" and "length slots = nat n"
    and "i < nat n \<Longrightarrow> nat ((t + int i) div e_block_size e) < length (bs ! 0)"
    and "i < nat n \<Longrightarrow>
      slots ! i = bs ! 0 ! nat ((t + int i) div e_block_size e) * nat (e_block_size e)
                    + nat ((t + int i) mod e_block_size e)"
proof -
  let ?b = "e_block_size e"
  define g where "g = py_slice (bs ! 0) (t div ?b) (- ((- (t + n)) div ?b))"
  have one: "length bs = 1" and cov: "n \<le> len g * ?b - t mod ?b"
    and sl: "slots = py_slice (concat (map (block_slots (nat ?b)) g)) (t mod ?b) (t mod ?b + n)" and "s' = s"
    using out by (auto simp: slot_mapping_def Let_def g_def split: if_splits)
  then show "s' = s" "length bs = 1" by simp_all
  have off: "0 \<le> t mod ?b" "t mod ?b < ?b" using b by simp_all
  have total: "nat (t mod ?b + n) \<le> length g * nat ?b"
  proof -
    have "int (nat (t mod ?b + n)) \<le> int (length g * nat ?b)" using cov off n b by simp
    then show ?thesis by linarith
  qed
  have lc: "length (concat (map (block_slots (nat ?b)) g)) = length g * nat ?b"
    by (induction g) (simp_all add: block_slots_def)
  show len: "length slots = nat n"
    unfolding sl using off(1) n total by (simp add: py_slice_length lc nat_add_distrib)
  assume i: "i < nat n"
  define j where "j = nat (t mod ?b) + i"
  have jlt: "j < length g * nat ?b" using i total off(1) n by (simp add: j_def nat_add_distrib)
  have split: "t + int i = t div ?b * ?b + int j" using off(1) by (simp add: j_def mult_div_mod_eq algebra_simps)
  have dm: "(t + int i) div ?b = t div ?b + int j div ?b" "(t + int i) mod ?b = int j mod ?b"
    unfolding split using b by simp_all
  have nats: "nat ((t + int i) div ?b) = nat (t div ?b) + j div nat ?b"
    "nat ((t + int i) mod ?b) = j mod nat ?b"
  proof -
    have "int j div ?b = int (j div nat ?b)" "int j mod ?b = int (j mod nat ?b)"
      using b by (simp_all add: zdiv_int zmod_int)
    then show "nat ((t + int i) div ?b) = nat (t div ?b) + j div nat ?b"
      "nat ((t + int i) mod ?b) = j mod nat ?b"
      using b t by (simp_all add: dm nat_add_distrib pos_imp_zdiv_nonneg_iff)
  qed
  have gj: "j div nat ?b < length g" using jlt b by (simp add: less_mult_imp_div_less)
  have glen: "length g \<le> length (bs ! 0) - nat (t div ?b)"
    unfolding g_def py_slice_def by simp
  show "nat ((t + int i) div ?b) < length (bs ! 0)" unfolding nats using gj glen by linarith
  have "slots ! i = concat (map (block_slots (nat ?b)) g) ! j"
    unfolding sl j_def by (rule py_slice_nth) (use i len in \<open>simp add: sl\<close>)
  also have "\<dots> = g ! (j div nat ?b) * nat ?b + j mod nat ?b"
    using concat_blocks_nth(1) [of "nat ?b" j g] jlt b by simp
  also have "g ! (j div nat ?b) = bs ! 0 ! (nat (t div ?b) + j div nat ?b)"
    using gj unfolding g_def by (rule py_slice_nth)
  finally show "slots ! i = bs ! 0 ! nat ((t + int i) div ?b) * nat ?b + nat ((t + int i) mod ?b)"
    by (simp only: nats)
qed


text \<open>A window of at least one token is refused exactly when the single group does not reach its end.\<close>

lemma slot_mapping_isl:
  assumes b: "0 < e_block_size e" and t: "0 \<le> t" and n: "0 < n"
  shows "isl (fst (slot_mapping e bs n t s)) \<longleftrightarrow> length bs \<noteq> 1 \<or> len (bs ! 0) * e_block_size e < t + n"
proof -
  let ?b = "e_block_size e"
  define c where "c = - ((- (t + n)) div ?b)"
  define d where "d = t div ?b"
  define r where "r = t mod ?b"
  have off: "t = d * ?b + r" "0 \<le> r" "r < ?b" using b by (simp_all add: d_def r_def)
  have c1: "t + n \<le> c * ?b" and c2: "c * ?b < t + n + ?b"
  proof -
    define x where "x = - (t + n)"
    have "x = x div ?b * ?b + x mod ?b" "c * ?b = - (x div ?b * ?b)" by (simp_all add: c_def x_def)
    moreover have "0 \<le> x mod ?b" "x mod ?b < ?b" using b by simp_all
    ultimately show "t + n \<le> c * ?b" "c * ?b < t + n + ?b" using x_def by linarith+
  qed
  have d0: "0 \<le> d" using b t by (simp add: d_def pos_imp_zdiv_nonneg_iff)
  have dc: "d < c"
  proof -
    have "d * ?b < c * ?b" using off c1 n by linarith
    then show ?thesis using b by simp
  qed
  have l: "len (py_slice (bs ! 0) d c) = max 0 (min (len (bs ! 0)) c - d)"
    using d0 dc by (simp add: py_slice_length)
  define L where "L = len (bs ! 0)"
  define w where "w = max 0 (min L c - d)"
  have "w * ?b - r < n \<longleftrightarrow> L * ?b < t + n"
  proof (cases "c \<le> L")
    case True
    then have "c * ?b \<le> L * ?b" using b by (simp add: mult_right_mono)
    moreover have "w * ?b = c * ?b - d * ?b" using True dc by (simp add: w_def algebra_simps)
    ultimately show ?thesis using off c1 by linarith
  next
    case False
    then have "(L + 1) * ?b \<le> c * ?b" using b by (intro mult_right_mono) simp_all
    then have short: "L * ?b < t + n" using c2 by (simp add: algebra_simps)
    have "w * ?b - r < n"
    proof (cases "d \<le> L")
      case True
      then have "w * ?b = L * ?b - d * ?b" using False by (simp add: w_def algebra_simps)
      then show ?thesis using short off by linarith
    next
      case False
      then show ?thesis using off n by (simp add: w_def)
    qed
    then show ?thesis using short by simp
  qed
  then show ?thesis
    unfolding slot_mapping_def Let_def c_def [symmetric] d_def [symmetric] r_def [symmetric] l
      L_def [symmetric] w_def [symmetric] by (simp del: minus_add_distrib)
qed

lemma slot_mapping_distinct:
  assumes b: "0 < e_block_size e" and t: "0 \<le> t" and n: "0 \<le> n"
    and out: "slot_mapping e bs n t s = (Inr slots, s')" and d: "distinct (bs ! 0)"
  shows "distinct slots"
proof (subst distinct_conv_nth, intro allI impI)
  note sm = slot_mapping_Inr [OF b t n out]
  fix i j assume "i < length slots" "j < length slots" and ne: "i \<noteq> j"
  then have i: "i < nat n" and j: "j < nat n" by (simp_all add: sm(3))
  let ?b = "e_block_size e"
  let ?q = "\<lambda>i. nat ((t + int i) div ?b)" and ?r = "\<lambda>i. nat ((t + int i) mod ?b)"
  have r: "?r k < nat ?b" for k using b by simp
  show "slots ! i \<noteq> slots ! j"
  proof
    assume eq: "slots ! i = slots ! j"
    have "(bs ! 0 ! ?q i * nat ?b + ?r i) div nat ?b = (bs ! 0 ! ?q j * nat ?b + ?r j) div nat ?b"
      "(bs ! 0 ! ?q i * nat ?b + ?r i) mod nat ?b = (bs ! 0 ! ?q j * nat ?b + ?r j) mod nat ?b"
      using eq unfolding sm(5) [OF i] sm(5) [OF j] by simp_all
    then have "bs ! 0 ! ?q i = bs ! 0 ! ?q j" "?r i = ?r j" using r b by simp_all
    then have "?q i = ?q j" "?r i = ?r j"
      using nth_eq_iff_index_eq [OF d sm(4) [OF i] sm(4) [OF j]] by simp_all
    then have "(t + int i) div ?b = (t + int j) div ?b" "(t + int i) mod ?b = (t + int j) mod ?b"
      using b t by (simp_all add: eq_nat_nat_iff pos_imp_zdiv_nonneg_iff)
    then have "t + int i = t + int j" by (metis div_mult_mod_eq)
    then show False using ne by simp
  qed
qed

text \<open>
  Gathering and scattering only need that a row written at a slot is read there and nowhere else. The
  contract is stated once, for rows of any type, and interpreted here on the cells of a page and in
  \<open>Layouts\<close> on the tensor layouts of the attention backends.
\<close>

locale row_store =
  fixes get :: "'m \<Rightarrow> nat \<Rightarrow> 'r" and put :: "nat \<Rightarrow> 'r \<Rightarrow> 'm \<Rightarrow> 'm" and fits :: "'r \<Rightarrow> bool"
  assumes get_put: "fits r \<Longrightarrow> get (put s r m) s' = (if s' = s then r else get m s')"
begin

lemma get_puts_other:
  "\<forall>r \<in> set rows. fits r \<Longrightarrow> s \<notin> set slots \<Longrightarrow>
     get (fold (\<lambda>sr. put (fst sr) (snd sr)) (zip slots rows) m) s = get m s"
proof (induction slots arbitrary: rows m)
  case (Cons x slots)
  then show ?case by (cases rows) (simp_all add: get_put)
qed simp

lemma gets_puts:
  "distinct slots \<Longrightarrow> length rows = length slots \<Longrightarrow> \<forall>r \<in> set rows. fits r \<Longrightarrow>
     map (get (fold (\<lambda>sr. put (fst sr) (snd sr)) (zip slots rows) m)) slots = rows"
proof (induction slots arbitrary: rows m)
  case (Cons x slots)
  then obtain r rs where "rows = r # rs" by (cases rows) simp_all
  then show ?case using Cons by (simp add: get_puts_other get_put)
qed simp

end

lemma cell_write_cell: "0 < p \<Longrightarrow> cell p (write_cell p (x, r) c) y = (if y = x then r else cell p c y)"
  by (auto simp: cell_def write_cell_def) (metis div_mult_mod_eq)

interpretation page_cells: row_store "cell (Suc p)" "\<lambda>s r. write_cell (Suc p) (s, r)" "\<lambda>_. True" for p
  by unfold_locales (simp add: cell_write_cell)

lemma cell_fold_write:
  assumes "0 < p"
  shows "y \<notin> set slots \<Longrightarrow> cell p (fold (write_cell p) (zip slots rows) c) y = cell p c y"
    and "distinct slots \<Longrightarrow> length rows = length slots
      \<Longrightarrow> map (cell p (fold (write_cell p) (zip slots rows) c)) slots = rows"
proof -
  obtain q where q: "p = Suc q" using assms by (cases p) simp_all
  show "y \<notin> set slots \<Longrightarrow> cell p (fold (write_cell p) (zip slots rows) c) y = cell p c y"
    using page_cells.get_puts_other [of rows y slots q c] by (simp add: q)
  show "distinct slots \<Longrightarrow> length rows = length slots
      \<Longrightarrow> map (cell p (fold (write_cell p) (zip slots rows) c)) slots = rows"
    using page_cells.gets_puts [of slots rows q c] by (simp add: q)
qed

text \<open>The slot of position \<open>i\<close> of a request whose blocks are \<open>g\<close>.\<close>

definition slot_at :: "int \<Rightarrow> nat list \<Rightarrow> nat \<Rightarrow> nat" where
  "slot_at b g i = g ! (i div nat b) * nat b + i mod nat b"

lemma slot_mapping_slots:
  assumes b: "0 < e_block_size e" and t: "0 \<le> t" and n: "0 \<le> n"
    and out: "slot_mapping e bs n t s = (Inr slots, s')"
  shows "slots = map (slot_at (e_block_size e) (bs ! 0)) [nat t..<nat (t + n)]"
proof (rule nth_equalityI)
  note sm = slot_mapping_Inr [OF b t n out]
  show "length slots = length (map (slot_at (e_block_size e) (bs ! 0)) [nat t..<nat (t + n)])"
    using t n by (simp add: sm(3) nat_add_distrib)
  fix i assume "i < length slots"
  then have i: "i < nat n" by (simp add: sm(3))
  have "nat ((t + int i) div e_block_size e) = (nat t + i) div nat (e_block_size e)"
    "nat ((t + int i) mod e_block_size e) = (nat t + i) mod nat (e_block_size e)"
    using t b by (simp_all add: nat_div_distrib nat_mod_distrib nat_add_distrib)
  then show "slots ! i = map (slot_at (e_block_size e) (bs ! 0)) [nat t..<nat (t + n)] ! i"
    using sm(5) [OF i] i t n by (simp add: slot_at_def nat_add_distrib)
qed

lemma slot_at_inj:
  assumes d: "distinct g" and b: "0 < b" and ij: "i < length g * nat b" "j < length g * nat b"
    and eq: "slot_at b g i = slot_at b g j"
  shows "i = j"
proof -
  have "slot_at b g i div nat b = slot_at b g j div nat b" "slot_at b g i mod nat b = slot_at b g j mod nat b"
    by (simp_all add: eq)
  then have "g ! (i div nat b) = g ! (j div nat b)" and r: "i mod nat b = j mod nat b"
    using b by (simp_all add: slot_at_def)
  moreover have "i div nat b < length g" "j div nat b < length g"
    using ij b by (simp_all add: less_mult_imp_div_less)
  ultimately have "i div nat b = j div nat b" using d by (simp add: nth_eq_iff_index_eq)
  then show ?thesis using r by (metis div_mult_mod_eq)
qed

lemma slot_mapping_bound:
  assumes b: "0 < e_block_size e" and t: "0 \<le> t" and n: "0 < n"
    and out: "slot_mapping e bs n t s = (Inr slots, s')"
  shows "nat (t + n) \<le> length (bs ! 0) * nat (e_block_size e)"
proof -
  have "t + n \<le> len (bs ! 0) * e_block_size e"
    using slot_mapping_isl [OF b t n, of bs s] by (simp add: out)
  also have "\<dots> = int (length (bs ! 0) * nat (e_block_size e))" using b by simp
  finally show ?thesis by linarith
qed

text \<open>
  The destination of a load or the source of a capture is exactly its window. A window of at
  least one token is refused, and nothing is read or written, just when the KV cache has several groups
  or the request's blocks end before the window does; otherwise position \<open>i\<close> of the window is slot
  \<open>i mod block_size\<close> of the request's block \<open>i div block_size\<close>, counted from the start of the request.
\<close>

theorem slots_are_the_window:
  assumes "0 < e_block_size e" and "0 \<le> t" and "0 < n"
  shows "case slot_mapping e bs n t s of
      (Inl _, s') \<Rightarrow> (length bs \<noteq> 1 \<or> len (bs ! 0) * e_block_size e < t + n)
    | (Inr slots, s') \<Rightarrow> length bs = 1 \<and> t + n \<le> len (bs ! 0) * e_block_size e \<and> s' = s
        \<and> slots = map (slot_at (e_block_size e) (bs ! 0)) [nat t..<nat (t + n)]"
proof (cases "fst (slot_mapping e bs n t s)")
  case (Inl x)
  then show ?thesis using slot_mapping_isl [OF assms, of bs s] by (simp add: split_beta)
next
  case (Inr slots)
  have n: "0 \<le> n" using assms(3) by simp
  have out: "slot_mapping e bs n t s = (Inr slots, snd (slot_mapping e bs n t s))" using Inr by (metis prod.collapse)
  have "length bs = 1" "t + n \<le> len (bs ! 0) * e_block_size e"
    using slot_mapping_isl [OF assms, of bs s] by (simp_all add: Inr)
  then show ?thesis
    using slot_mapping_slots [OF assms(1,2) n out] slot_mapping_Inr(1) [OF assms(1,2) n out]
    by (simp add: split_beta Inr)
qed

text \<open>
  A load writes its window and nothing else. On the slots of a window of a request whose
  blocks are distinct, the scatter succeeds for a source of one row per token, the gather over the
  same slots then reads back exactly that source, and every other cell keeps its row: those of other
  requests' pages, and those of this request before the window, the shared exact prefix, or after it.
\<close>

theorem load_writes_exactly_its_window:
  assumes b: "0 < e_block_size e" and t: "0 \<le> t" and n: "0 < n" and d: "distinct (bs ! 0)"
    and out: "slot_mapping e bs n t s = (Inr slots, s')" and rows: "len rows = n"
  shows "\<exists>c'. inject_kv (nat (e_block_size e)) c rows slots = Inr c'
    \<and> extract_kv (nat (e_block_size e)) c' slots = rows
    \<and> (\<forall>i < length (bs ! 0) * nat (e_block_size e). int i < t \<or> t + n \<le> int i \<longrightarrow>
          cell (nat (e_block_size e)) c' (slot_at (e_block_size e) (bs ! 0) i)
            = cell (nat (e_block_size e)) c (slot_at (e_block_size e) (bs ! 0) i))
    \<and> (\<forall>slot. slot div nat (e_block_size e) \<notin> set (bs ! 0) \<longrightarrow>
          cell (nat (e_block_size e)) c' slot = cell (nat (e_block_size e)) c slot)"
proof -
  let ?b = "e_block_size e" and ?p = "nat (e_block_size e)" and ?g = "bs ! 0"
  have n0: "0 \<le> n" using n by simp
  note sl = slot_mapping_slots [OF b t n0 out] and bound = slot_mapping_bound [OF b t n out]
  have dist: "distinct slots" by (rule slot_mapping_distinct [OF b t n0 out d])
  have p: "0 < ?p" using b by simp
  have l: "length rows = length slots" using slot_mapping_Inr(3) [OF b t n0 out] rows by simp
  define c' where "c' = fold (write_cell ?p) (zip slots rows) c"
  have same: "cell ?p c' y = cell ?p c y" if "y \<notin> set slots" for y
    unfolding c'_def using cell_fold_write(1) [OF p that] .
  have own: "slot_at ?b ?g i \<notin> set slots" if "i < length ?g * ?p" "int i < t \<or> t + n \<le> int i" for i
  proof
    assume "slot_at ?b ?g i \<in> set slots"
    then obtain j where j: "nat t \<le> j" "j < nat (t + n)" "slot_at ?b ?g i = slot_at ?b ?g j"
      by (auto simp: sl)
    then have "i = j" using slot_at_inj [OF d b that(1) _ j(3)] bound by linarith
    then show False using j(1,2) that(2) t by linarith
  qed
  have other: "y \<notin> set slots" if "y div ?p \<notin> set ?g" for y
  proof
    assume "y \<in> set slots"
    then obtain j where j: "j < nat (t + n)" "y = slot_at ?b ?g j" by (auto simp: sl)
    then have "y div ?p = ?g ! (j div ?p)" "j div ?p < length ?g"
      using p bound by (simp_all add: slot_at_def less_mult_imp_div_less)
    then show False using that by simp
  qed
  have "inject_kv ?p c rows slots = Inr c'" using l by (simp add: inject_kv_def c'_def)
  moreover have "extract_kv ?p c' slots = rows"
    using cell_fold_write(2) [OF p dist l] by (simp add: extract_kv_def c'_def)
  ultimately show ?thesis using own other same by blast
qed

subsection \<open>Witnesses\<close>

abbreviation "slots_env \<equiv> sample_env silent_provider default_config"

lemma sample_slots:
  "slot_mapping slots_env [[3, 0, 2]] 4 30 init_audit = (Inr [14, 15, 32, 33], init_audit)"
proof -
  have r: "fst (slot_mapping slots_env [[3, 0, 2]] 4 30 init_audit) = Inr [14, 15, 32, 33]" by code_simp
  obtain s' where out: "slot_mapping slots_env [[3, 0, 2]] 4 30 init_audit = (Inr [14, 15, 32, 33], s')"
    using r by (metis prod.collapse)
  then show ?thesis using slot_mapping_Inr(1) [OF _ _ _ out] by (simp add: sample_env_def)
qed

theorem slots_are_the_window_witness:
  "[14, 15, 32, 33] = map (slot_at 16 [3, 0, 2]) [30..<34]"
  using slots_are_the_window [of slots_env 30 4 "[[3, 0, 2]]" init_audit]
  unfolding sample_slots by (simp add: sample_env_def)

theorem load_writes_exactly_its_window_witness:
  "\<exists>c'. inject_kv 16 (\<lambda>_ _. 0) [7, 8, 9, 10] [14, 15, 32, 33] = Inr c'
     \<and> extract_kv 16 c' [14, 15, 32, 33] = [7, 8, 9, 10] \<and> cell 16 c' (slot_at 16 [3, 0, 2] 29) = 0"
proof -
  have bs: "e_block_size slots_env = 16" by (simp add: sample_env_def)
  show ?thesis
    using load_writes_exactly_its_window [of slots_env 30 4 "[[3, 0, 2]]", OF _ _ _ _ sample_slots,
        where rows = "[7, 8, 9, 10]" and c = "\<lambda>_ _. 0"]
    unfolding bs by (auto simp: cell_def)
qed

end
