(* ===== verification/Worker.thy ===== *)
theory Worker
  imports Slots Capture "HOL-Library.List_Lexorder" "HOL-Library.Char_ord"
begin

text \<open>
  The worker's side of a donor capture: \<open>save_kv_layer\<close>, \<open>_capture_layer\<close>, the jobs the capture writer
  runs, the join at the end of a step that publishes what is durable, and the finish and shutdown hooks.

  The writer thread runs jobs of its queue one after the other, each of them indivisible. How many it
  runs before the forward thread next touches what they share is read off the oracle \<open>writer_turns\<close>, and
  what becomes of a write off \<open>write_results\<close>; both lists are arbitrary, and an exhausted one reads as
  ``none'' and ``lands''. \<open>CaptureWriter\<close> models the queue itself. The wall-clock accounting
  is \<open>CaptureCost\<close>, a state that nothing here reads; the device to host copy is left out: whoever reads a
  copy in flight waits for it first.
\<close>

subsection \<open>Jobs\<close>

record write_job =
  wj_request_id :: string
  wj_namespace :: string
  wj_kind :: job_kind
  wj_layer_name :: "string option"
  wj_payload :: kv_rows
  wj_token_count :: int
  wj_layer_names :: "string list"

text \<open>What a write does: it lands, it raises and leaves what was there, or it raises part-way through.\<close>

datatype write_result = Lands | Fails string | Truncates string

subsection \<open>State\<close>

datatype writer_stat =
    Capture_layer_writes_total
  | Capture_metadata_writes_total
  | Capture_metadata_skipped_evicted
  | Memory_store_evictions
  | Memory_store_eviction_retract_errors
  | Capture_write_errors_total

record worker_st = storage_st +
  disk :: volume
  capture_progress :: "string \<rightharpoonup> (string, int) odict"
  capture_base_missing_noted :: "string \<rightharpoonup> int"
  worker_skipped_reasons :: "string \<rightharpoonup> skip_reason"
  inflight_layers :: "string \<times> string \<rightharpoonup> kv_rows"
  write_queue :: "write_job list"
  writer_started :: bool
  writer_closed :: bool
  writer_turns :: "nat list"
  write_results :: "write_result list"
  capture_namespaces :: "(string, string) odict"
  finalized_donors :: "string \<rightharpoonup> int"
  finalize_pending :: "string list"
  capture_write_failed :: "string set"
  queue_blocked_noted :: "string set"
  writer_stats :: "writer_stat \<Rightarrow> int"
  writer_events :: "(string \<times> worker_event) list"
  writer_failed_requests :: "string set"
  writer_evicted :: "string list"

definition writer_count :: "writer_stat \<Rightarrow> 'z worker_st_scheme \<Rightarrow> 'z worker_st_scheme" where
  "writer_count k s = s\<lparr>writer_stats := (writer_stats s)(k := writer_stats s k + 1)\<rparr>"

definition take_result :: "'z worker_st_scheme \<Rightarrow> write_result \<times> 'z worker_st_scheme" where
  "take_result s =
     (case write_results s of [] \<Rightarrow> (Lands, s) | r # rs \<Rightarrow> (r, s\<lparr>write_results := rs\<rparr>))"

definition take_turn :: "'z worker_st_scheme \<Rightarrow> nat \<times> 'z worker_st_scheme" where
  "take_turn s = (case writer_turns s of [] \<Rightarrow> (0, s) | n # ns \<Rightarrow> (n, s\<lparr>writer_turns := ns\<rparr>))"

text \<open>A directory is made on the first write into it.\<close>

definition no_files :: donor_dir where
  "no_files = \<lparr>dd_record = None, dd_layers = [], dd_temp = False\<rparr>"

definition dir_of :: "volume \<Rightarrow> string \<Rightarrow> donor_dir" where
  "dir_of vol k = (case vol k of None \<Rightarrow> no_files | Some d \<Rightarrow> d)"

subsection \<open>The writer's jobs\<close>

definition mem_backend :: "'p env \<Rightarrow> bool" where
  "mem_backend e = (c_kv_storage_backend (e_config e) = ''memory'')"

definition evict_memory_donor :: "'z worker_st_scheme \<Rightarrow> 'z worker_st_scheme" where
  "evict_memory_donor s =
     (case memory_store s of
        [] \<Rightarrow> s
      | (k, entry) # rest \<Rightarrow>
          (let s1 = writer_count Memory_store_evictions
                      (s\<lparr>memory_store := rest, writer_evicted := writer_evicted s @ [me_request_id entry]\<rparr>)
           in case disk s1 k of
                None \<Rightarrow> s1
              | Some d \<Rightarrow>
                  (let (r, s2) = (if dd_record d = None then (Lands, s1) else take_result s1);
                       d' = d\<lparr>dd_record := None\<rparr>
                   in if r \<noteq> Lands then writer_count Memory_store_eviction_retract_errors s2
                      else s2\<lparr>disk := (disk s2)(k := (if d' = no_files then None else Some d'))\<rparr>)))"

lemma evict_shrinks:
  "memory_store s \<noteq> [] \<Longrightarrow> length (memory_store (evict_memory_donor s)) < length (memory_store s)"
  by (auto simp: evict_memory_donor_def writer_count_def take_result_def Let_def split: list.splits
      option.splits prod.splits if_splits)

text \<open>\<open>while len(self._memory_store) > max(1, kv_memory_max_donors)\<close>.\<close>

function evict_to_cap :: "nat \<Rightarrow> 'z worker_st_scheme \<Rightarrow> 'z worker_st_scheme" where
  "evict_to_cap cap s =
     (if cap < length (memory_store s) then evict_to_cap cap (evict_memory_donor s) else s)"
  by pat_completeness auto

termination
proof (relation "measure (\<lambda>(cap, s). length (memory_store s))")
  fix cap and s :: "'z worker_st_scheme"
  assume "cap < length (memory_store s)"
  then have "memory_store s \<noteq> []" by auto
  then show "((cap, evict_memory_donor s), (cap, s)) \<in> measure (\<lambda>(cap, s). length (memory_store s))"
    using evict_shrinks [of s] by simp
qed simp

declare evict_to_cap.simps [simp del]

definition memory_cap :: "'p env \<Rightarrow> nat" where
  "memory_cap e = nat (max 1 (c_kv_memory_max_donors (e_config e)))"

definition job_layer :: "write_job \<Rightarrow> string" where
  "job_layer j = (case wj_layer_name j of None \<Rightarrow> ''None'' | Some l \<Rightarrow> l)"

definition job_key :: "'p env \<Rightarrow> write_job \<Rightarrow> string" where
  "job_key e j = storage_key e (wj_request_id j) (wj_namespace j)"

text \<open>\<open>entry\<close> is a reference: a layer set on an entry that is no longer in the store is lost.\<close>

definition memory_write :: "'p env \<Rightarrow> write_job \<Rightarrow> 'z worker_st_scheme \<Rightarrow> 'z worker_st_scheme" where
  "memory_write e j s =
     (let k = job_key e j;
          s1 = (case od_get (memory_store s) k of
                  None \<Rightarrow>
                    evict_to_cap (memory_cap e)
                      (s\<lparr>memory_store := od_set (memory_store s) k
                           \<lparr>me_request_id = wj_request_id j, me_token_count = wj_token_count j,
                            me_layers = Map.empty\<rparr>\<rparr>)
                | Some entry \<Rightarrow>
                    s\<lparr>memory_store := od_move_to_end
                        (od_set (memory_store s) k (entry\<lparr>me_token_count := wj_token_count j\<rparr>)) k\<rparr>);
          s2 = (case od_get (memory_store s1) k of
                  None \<Rightarrow> s1
                | Some entry \<Rightarrow>
                    s1\<lparr>memory_store := od_set (memory_store s1) k
                        (entry\<lparr>me_layers := (me_layers entry)(job_layer j \<mapsto> wj_payload j)\<rparr>)\<rparr>)
      in s2\<lparr>inflight_layers := (inflight_layers s2)((k, job_layer j) := None)\<rparr>)"

text \<open>The result is the type name of what was raised, if anything was.\<close>

definition write_captured_layer ::
  "'p env \<Rightarrow> write_job \<Rightarrow> 'z worker_st_scheme \<Rightarrow> string option \<times> 'z worker_st_scheme" where
  "write_captured_layer e j s =
     (if mem_backend e then (None, writer_count Capture_layer_writes_total (memory_write e j s))
      else let k = job_key e j;
               d = dir_of (disk s) k;
               (r, s1) = take_result s;
               put = (\<lambda>f. s1\<lparr>disk := (disk s1)(k \<mapsto> d\<lparr>dd_layers := od_set (dd_layers d) (job_layer j) f\<rparr>)\<rparr>)
           in case r of
                Fails x \<Rightarrow> (Some x, s1)
              | Truncates x \<Rightarrow> (Some x, put Truncated)
              | Lands \<Rightarrow>
                  (let s2 = put (Rows (wj_payload j))
                   in (None, writer_count Capture_layer_writes_total
                         (s2\<lparr>inflight_layers := (inflight_layers s2)((k, job_layer j) := None)\<rparr>))))"

text \<open>\<open>os.path.isfile\<close> does not open the file, so a truncated layer counts as there.\<close>

definition layer_present :: "'p env \<Rightarrow> 'z worker_st_scheme \<Rightarrow> string \<Rightarrow> string \<Rightarrow> bool" where
  "layer_present e s k layer =
     (if mem_backend e
      then (case od_get (memory_store s) k of None \<Rightarrow> False | Some entry \<Rightarrow> me_layers entry layer \<noteq> None)
      else layer \<in> set (od_keys (dd_layers (dir_of (disk s) k))))"

definition write_donor_metadata ::
  "'p env \<Rightarrow> write_job \<Rightarrow> 'z worker_st_scheme \<Rightarrow> string option \<times> 'z worker_st_scheme" where
  "write_donor_metadata e j s =
     (let k = job_key e j
      in if mem_backend e \<and> od_get (memory_store s) k = None
         then (None, writer_count Capture_metadata_skipped_evicted s)
         else if \<exists>layer \<in> set (wj_layer_names j). \<not> layer_present e s k layer
         then (Some ''FileNotFoundError'', s)
         else let (r, s1) = take_result s; d = dir_of (disk s1) k
              in case r of
                   Fails x \<Rightarrow> (Some x, s1)
                 | Truncates x \<Rightarrow> (Some x, s1\<lparr>disk := (disk s1)(k \<mapsto> d\<lparr>dd_temp := True\<rparr>)\<rparr>)
                 | Lands \<Rightarrow>
                     (None, writer_count Capture_metadata_writes_total
                        (s1\<lparr>disk := (disk s1)(k \<mapsto> d\<lparr>dd_record := Some (Some (wj_token_count j)),
                                                     dd_temp := False\<rparr>)\<rparr>)))"

definition run_write_job ::
  "'p env \<Rightarrow> write_job \<Rightarrow> 'z worker_st_scheme \<Rightarrow> string option \<times> 'z worker_st_scheme" where
  "run_write_job e j s =
     (case wj_kind j of Metadata_job \<Rightarrow> write_donor_metadata e j s | Layer_job \<Rightarrow> write_captured_layer e j s)"

definition record_write_error ::
  "'p env \<Rightarrow> write_job \<Rightarrow> string \<Rightarrow> 'z worker_st_scheme \<Rightarrow> 'z worker_st_scheme" where
  "record_write_error e j x s =
     (let s1 = (writer_count Capture_write_errors_total s)
                 \<lparr>writer_events := writer_events s @
                    [(wj_request_id j, Ev_donor_capture_write_failed (wj_kind j) (wj_layer_name j) x
                        (c_kv_storage_backend (e_config e)))],
                  writer_failed_requests := insert (wj_request_id j) (writer_failed_requests s)\<rparr>
      in case wj_layer_name j of
           None \<Rightarrow> s1
         | Some layer \<Rightarrow> s1\<lparr>inflight_layers := (inflight_layers s1)((job_key e j, layer) := None)\<rparr>)"

subsection \<open>The writer thread\<close>

definition writer_step :: "'p env \<Rightarrow> 'z worker_st_scheme \<Rightarrow> 'z worker_st_scheme" where
  "writer_step e s =
     (case write_queue s of
        [] \<Rightarrow> s
      | j # q \<Rightarrow>
          (case run_write_job e j (s\<lparr>write_queue := q\<rparr>) of
             (None, s1) \<Rightarrow> s1
           | (Some x, s1) \<Rightarrow> record_write_error e j x s1))"

definition run_jobs :: "'p env \<Rightarrow> nat \<Rightarrow> 'z worker_st_scheme \<Rightarrow> 'z worker_st_scheme" where
  "run_jobs e n s = (writer_step e ^^ n) s"

definition writer_turn :: "'p env \<Rightarrow> 'z worker_st_scheme \<Rightarrow> 'z worker_st_scheme" where
  "writer_turn e s = (let (n, s1) = take_turn s in run_jobs e n s1)"

text \<open>\<open>join\<close>: nothing is submitted while the one submitting thread waits.\<close>

definition writer_join :: "'p env \<Rightarrow> 'z worker_st_scheme \<Rightarrow> 'z worker_st_scheme" where
  "writer_join e s =
     (if \<not> writer_started s \<or> writer_closed s then s else run_jobs e (length (write_queue s)) s)"

subsection \<open>The writer's reports\<close>

definition forget_evicted :: "string \<Rightarrow> 'z worker_st_scheme \<Rightarrow> 'z worker_st_scheme" where
  "forget_evicted rid s =
     s\<lparr>capture_progress := (capture_progress s)(rid := None),
       finalized_donors := (finalized_donors s)(rid := None),
       capture_base_missing_noted := (capture_base_missing_noted s)(rid := None)\<rparr>"

definition drain_writer_reports :: "'p env \<Rightarrow> 'z worker_st_scheme \<Rightarrow> 'z worker_st_scheme" where
  "drain_writer_reports e s =
     (let s1 = s\<lparr>writer_events := [], writer_failed_requests := {}, writer_evicted := [],
                 capture_write_failed := capture_write_failed s \<union> writer_failed_requests s\<rparr>;
          s2 = fold forget_evicted (writer_evicted s) s1
      in fold (\<lambda>(rid, ev). audit e (Some rid) (EW ev)) (writer_events s) s2)"

subsection \<open>Submitting\<close>

definition queue_depth :: "'p env \<Rightarrow> nat" where
  "queue_depth e = nat (max 1 (c_capture_write_queue_depth (e_config e)))"

definition note_write_queue_blocked ::
  "'p env \<Rightarrow> write_job \<Rightarrow> 'z worker_st_scheme \<Rightarrow> 'z worker_st_scheme" where
  "note_write_queue_blocked e j s =
     (let rid = wj_request_id j;
          s1 = bump (SW Capture_write_queue_blocked_total) s
      in if rid \<in> queue_blocked_noted s then s1
         else audit e (Some rid)
                (EW (Ev_capture_write_queue_full (c_capture_write_queue_depth (e_config e))
                       (c_kv_storage_backend (e_config e))))
                (s1\<lparr>queue_blocked_noted := insert rid (queue_blocked_noted s1)\<rparr>))"

text \<open>
  \<open>timed\<close>: the caller waits for room only for so long. A caller without a deadline returns when the
  writer has taken a job; one with a deadline gives up if the writer takes none.
\<close>

definition refused :: "'p env \<Rightarrow> write_job \<Rightarrow> string \<Rightarrow> 'z worker_st_scheme \<Rightarrow> 'z worker_st_scheme" where
  "refused e j x s = drain_writer_reports e (record_write_error e j x s)"

definition put_job :: "write_job \<Rightarrow> 'z worker_st_scheme \<Rightarrow> 'z worker_st_scheme" where
  "put_job j s = s\<lparr>write_queue := write_queue s @ [j]\<rparr>"

definition submit_write ::
  "'p env \<Rightarrow> bool \<Rightarrow> write_job \<Rightarrow> 'z worker_st_scheme \<Rightarrow> 'z worker_st_scheme" where
  "submit_write e timed j s =
     (if writer_closed s then refused e j ''RuntimeError'' s
      else let s1 = writer_turn e (s\<lparr>writer_started := True\<rparr>)
           in if length (write_queue s1) < queue_depth e then put_job j s1
              else let (n, s2) = take_turn s1;
                       s3 = run_jobs e (if timed then n else max 1 n) s2
                   in if length (write_queue s3) < queue_depth e
                      then note_write_queue_blocked e j (put_job j s3)
                      else refused e j ''Full'' s3)"

definition layer_job :: "pending_store \<Rightarrow> string \<Rightarrow> kv_rows \<Rightarrow> int \<Rightarrow> write_job" where
  "layer_job st layer rows n =
     \<lparr>wj_request_id = ps_request_id st, wj_namespace = ps_namespace st, wj_kind = Layer_job,
      wj_layer_name = Some layer, wj_payload = rows, wj_token_count = n, wj_layer_names = []\<rparr>"

definition submit_captured_layer ::
  "'p env \<Rightarrow> pending_store \<Rightarrow> string \<Rightarrow> kv_rows \<Rightarrow> int \<Rightarrow> 'z worker_st_scheme \<Rightarrow> 'z worker_st_scheme" where
  "submit_captured_layer e st layer rows n s =
     submit_write e False (layer_job st layer rows n)
       (s\<lparr>inflight_layers :=
            (inflight_layers s)((storage_key e (ps_request_id st) (ps_namespace st), layer) \<mapsto> rows)\<rparr>)"

subsection \<open>Capturing one layer\<close>

definition captured_layer ::
  "'p env \<Rightarrow> pending_store \<Rightarrow> string \<Rightarrow> 'z worker_st_scheme \<Rightarrow> kv_rows option \<times> 'z worker_st_scheme" where
  "captured_layer e st layer s =
     (if ps_request_id st \<in> capture_write_failed s then (None, s)
      else let s1 = writer_turn e s;
               k = storage_key e (ps_request_id st) (ps_namespace st)
           in (case inflight_layers s1 (k, layer) of
                 Some rows \<Rightarrow> Some rows
               | None \<Rightarrow>
                   if mem_backend e
                   then (case od_get (memory_store s1) k of None \<Rightarrow> None | Some entry \<Rightarrow> me_layers entry layer)
                   else (case od_get (dd_layers (dir_of (disk s1) k)) layer of
                           Some (Rows rows) \<Rightarrow> Some rows | _ \<Rightarrow> None),
               s1))"

definition note_capture_base_missing ::
  "'p env \<Rightarrow> pending_store \<Rightarrow> string \<Rightarrow> int \<Rightarrow> 'z worker_st_scheme \<Rightarrow> 'z worker_st_scheme" where
  "note_capture_base_missing e st layer start s =
     (let rid = ps_request_id st
      in if capture_base_missing_noted s rid = Some (ps_token_count st) then s
         else audit e (Some rid) (EW (Ev_capture_base_missing layer start (ps_token_count st)))
                (s\<lparr>capture_base_missing_noted := (capture_base_missing_noted s)(rid \<mapsto> ps_token_count st)\<rparr>))"

definition progress_of :: "'z worker_st_scheme \<Rightarrow> string \<Rightarrow> (string, int) odict" where
  "progress_of s rid = (case capture_progress s rid of None \<Rightarrow> [] | Some p \<Rightarrow> p)"

definition layer_start :: "'z worker_st_scheme \<Rightarrow> string \<Rightarrow> string \<Rightarrow> int" where
  "layer_start s rid layer = (case od_get (progress_of s rid) layer of None \<Rightarrow> 0 | Some n \<Rightarrow> n)"

definition capture_layer ::
  "'p env \<Rightarrow> pending_store \<Rightarrow> block_table \<Rightarrow> string \<Rightarrow> nat \<times> layer_cache \<Rightarrow> 'z worker_st_scheme
     \<Rightarrow> (py_error + unit) \<times> 'z worker_st_scheme" where
  "capture_layer e st blocks layer kv s =
     (let rid = ps_request_id st;
          progress = progress_of s rid;
          start = layer_start s rid layer
      in if ps_token_count st \<le> start
         then (Inr (), bump (SW Layer_capture_skipped_nothing_new) s)
         else let (base, s1) = (if 0 < start then captured_layer e st layer s else (None, s));
                  missing = (0 < start \<and> base = None);
                  s2 = (if missing
                        then note_capture_base_missing e st layer start (bump (SW Layer_capture_base_missing) s1)
                        else s1);
                  start' = (if missing then 0 else start)
              in case slot_mapping e blocks (ps_token_count st - start') start' s2 of
                   (Inl x, s3) \<Rightarrow> (Inl x, s3)
                 | (Inr slots, s3) \<Rightarrow>
                     (let rows = opt_list base @ extract_kv (fst kv) (snd kv) slots;
                          n = start' + len slots;
                          s4 = submit_captured_layer e st layer rows n s3
                      in (Inr (), s4\<lparr>capture_namespaces := od_set (capture_namespaces s4) rid (ps_namespace st),
                                     capture_progress := (capture_progress s4)(rid \<mapsto> od_set progress layer n)\<rparr>)))"

subsection \<open>Publication\<close>

definition shortest_layer :: "(string, int) odict \<Rightarrow> int" where
  "shortest_layer p = Min (set (map snd p))"

definition queue_finalize :: "string \<Rightarrow> 'z worker_st_scheme \<Rightarrow> 'z worker_st_scheme" where
  "queue_finalize rid s =
     (if rid \<in> capture_write_failed s then s
      else if progress_of s rid = [] then s
      else if finalized_donors s rid = Some (shortest_layer (progress_of s rid)) then s
      else s\<lparr>finalize_pending := List.insert rid (finalize_pending s)\<rparr>)"

definition metadata_job :: "string \<Rightarrow> string \<Rightarrow> (string, int) odict \<Rightarrow> write_job" where
  "metadata_job rid ns p =
     \<lparr>wj_request_id = rid, wj_namespace = ns, wj_kind = Metadata_job, wj_layer_name = None,
      wj_payload = [], wj_token_count = shortest_layer p, wj_layer_names = sort (od_keys p)\<rparr>"

definition submit_finalize :: "'p env \<Rightarrow> bool \<Rightarrow> string \<Rightarrow> 'z worker_st_scheme \<Rightarrow> 'z worker_st_scheme" where
  "submit_finalize e timed rid s =
     (case od_get (capture_namespaces s) rid of
        None \<Rightarrow> s
      | Some ns \<Rightarrow>
          (let p = progress_of s rid
           in if p = [] then s
              else if rid \<in> capture_write_failed s then bump (SW Capture_finalize_skipped_write_failed) s
              else submit_write e timed (metadata_job rid ns p)
                     (s\<lparr>finalized_donors := (finalized_donors s)(rid \<mapsto> shortest_layer p)\<rparr>)))"

definition submit_pending_finalizes :: "'p env \<Rightarrow> bool \<Rightarrow> 'z worker_st_scheme \<Rightarrow> 'z worker_st_scheme" where
  "submit_pending_finalizes e timed s =
     (fold (submit_finalize e timed) (sort (finalize_pending s)) s)\<lparr>finalize_pending := []\<rparr>"

text \<open>\<open>_flush_captures\<close>, which is \<open>wait_for_save\<close>. Whether there is a writer is read once, before.\<close>

definition flush_captures :: "'p env \<Rightarrow> 'z worker_st_scheme \<Rightarrow> 'z worker_st_scheme" where
  "flush_captures e s =
     (let join = (if writer_started s then writer_join e else id);
          s1 = drain_writer_reports e (join s);
          s2 = submit_pending_finalizes e False s1
      in drain_writer_reports e (join s2))"

subsection \<open>\<open>save_kv_layer\<close>\<close>

definition save_store ::
  "'p env \<Rightarrow> string \<Rightarrow> nat \<times> layer_cache \<Rightarrow> pending_store \<Rightarrow> 'z worker_st_scheme
     \<Rightarrow> (py_error + unit) \<times> 'z worker_st_scheme" where
  "save_store e layer kv st s =
     (case ps_block_ids st of
        None \<Rightarrow>
          (Inr (),
           audit e (Some (ps_request_id st))
             (EC (Ev_capture_skipped Store_without_block_ids (c_kv_storage_backend (e_config e))
                    (At_store_without_blocks layer (ps_token_count st))))
             (bump (SC (Capture_skipped Store_without_block_ids))
               (s\<lparr>worker_skipped_reasons :=
                    (worker_skipped_reasons s)(ps_request_id st \<mapsto> Store_without_block_ids)\<rparr>)))
      | Some blocks \<Rightarrow>
          (case capture_layer e st blocks layer kv s of
             (Inl x, s1) \<Rightarrow> (Inl x, s1)
           | (Inr _, s1) \<Rightarrow> (Inr (), if ps_final st then queue_finalize (ps_request_id st) s1 else s1)))"

fun save_stores ::
  "'p env \<Rightarrow> string \<Rightarrow> nat \<times> layer_cache \<Rightarrow> pending_store list \<Rightarrow> 'z worker_st_scheme
     \<Rightarrow> (py_error + unit) \<times> 'z worker_st_scheme" where
  "save_stores e layer kv [] s = (Inr (), s)"
| "save_stores e layer kv (st # sts) s =
     (case save_store e layer kv st s of
        (Inl x, s1) \<Rightarrow> (Inl x, s1)
      | (Inr _, s1) \<Rightarrow> save_stores e layer kv sts s1)"

text \<open>The metadata is \<open>Inl\<close> of its type's name when it is another connector's.\<close>

definition save_kv_layer ::
  "'p env \<Rightarrow> string + connector_metadata \<Rightarrow> string \<Rightarrow> nat \<times> layer_cache \<Rightarrow> 'z worker_st_scheme
     \<Rightarrow> (py_error + unit) \<times> 'z worker_st_scheme" where
  "save_kv_layer e metadata layer kv s =
     (case metadata of
        Inl tn \<Rightarrow>
          (let first = (stats s (SW Capture_metadata_unexpected_type_layers) = 0);
               s1 = bump (SW Capture_metadata_unexpected_type_layers) s
           in (Inr (), if first then audit e None (EW (Ev_capture_metadata_unexpected_type tn)) s1 else s1))
      | Inr md \<Rightarrow> save_stores e layer kv (cm_stores md) (fold queue_finalize (cm_finalize md) s))"

subsection \<open>The finish hook and shutdown\<close>

text \<open>
  A deletion that fails part-way (\<open>Truncates\<close>) has removed the first file.
\<close>

definition discard_unpublished_capture ::
  "'p env \<Rightarrow> string \<Rightarrow> string \<Rightarrow> 'z worker_st_scheme \<Rightarrow> 'z worker_st_scheme" where
  "discard_unpublished_capture e rid ns s =
     (let k = storage_key e rid ns
      in if ns = [] \<or> c_kv_storage_backend (e_config e) \<noteq> ''disk'' then s
         else if has_stored_donor e (disk s) rid ns then s
         else case disk s k of
                None \<Rightarrow> s
              | Some d \<Rightarrow>
                  (let (r, s1) = take_result s;
                       failed = bump (SW Capture_orphan_discard_errors) s1
                   in case r of
                        Fails _ \<Rightarrow> failed
                      | Truncates _ \<Rightarrow>
                          failed\<lparr>disk := (disk failed)(k \<mapsto> d\<lparr>dd_layers := tl (dd_layers d)\<rparr>)\<rparr>
                      | Lands \<Rightarrow>
                          audit e (Some rid)
                            (EW (Ev_capture_orphan_discarded
                                   (len (dd_layers d) + (if dd_temp d then 1 else 0))
                                   (c_kv_storage_backend (e_config e))))
                            (bump (SW Capture_orphans_discarded_total)
                              (s1\<lparr>disk := (disk s1)(k := None)\<rparr>))))"

definition finish_one :: "'p env \<Rightarrow> string \<Rightarrow> 'z worker_st_scheme \<Rightarrow> 'z worker_st_scheme" where
  "finish_one e rid s =
     (let ns = (case od_get (capture_namespaces s) rid of None \<Rightarrow> [] | Some ns \<Rightarrow> ns);
          s1 = discard_unpublished_capture e rid ns s
      in forget_request_join_key rid
           (s1\<lparr>capture_progress := (capture_progress s1)(rid := None),
               capture_base_missing_noted := (capture_base_missing_noted s1)(rid := None),
               worker_skipped_reasons := (worker_skipped_reasons s1)(rid := None),
               capture_namespaces := od_pop (capture_namespaces s1) rid,
               finalized_donors := (finalized_donors s1)(rid := None),
               capture_write_failed := capture_write_failed s1 - {rid},
               queue_blocked_noted := queue_blocked_noted s1 - {rid}\<rparr>))"

text \<open>The set of finished ids is iterated in some order: the list.\<close>

definition get_finished :: "'p env \<Rightarrow> string list \<Rightarrow> 'z worker_st_scheme \<Rightarrow> 'z worker_st_scheme" where
  "get_finished e rids s =
     fold (finish_one e) rids (flush_captures e (fold queue_finalize rids s))"

text \<open>
  \<open>close\<close>: the writer runs what it can before the deadline. A queue that still has no room for the
  sentinel is abandoned; otherwise a slow writer keeps what is left and stays alive.
\<close>

definition writer_close :: "'p env \<Rightarrow> 'z worker_st_scheme \<Rightarrow> bool \<times> 'z worker_st_scheme" where
  "writer_close e s =
     (if writer_closed s then (write_queue s \<noteq> [], s)
      else let s1 = writer_turn e (s\<lparr>writer_closed := True\<rparr>);
               rest = write_queue s1
           in if length rest < queue_depth e then (rest \<noteq> [], s1)
              else (True, fold (\<lambda>j. record_write_error e j ''RuntimeError'') rest (s1\<lparr>write_queue := []\<rparr>)))"

definition shutdown_worker :: "'p env \<Rightarrow> 'z worker_st_scheme \<Rightarrow> 'z worker_st_scheme" where
  "shutdown_worker e s =
     (if \<not> writer_started s then s
      else let (running, s1) = writer_close e (submit_pending_finalizes e True s);
               s2 = drain_writer_reports e s1
           in if running then s2
              else fold (\<lambda>(rid, ns). discard_unpublished_capture e rid ns) (capture_namespaces s2) s2)"

end
