(* ===== verification/Load.thy ===== *)
theory Load
  imports Numbers Worker
begin

text \<open>
  The worker's side of a load: \<open>register_kv_caches\<close>, \<open>_iter_kv_layers\<close>, \<open>start_load_kv\<close>,
  \<open>_semantic_span_slice_with_reason\<close>, \<open>_rope_params\<close>, \<open>_model_head_size\<close> and
  \<open>get_block_ids_with_load_errors\<close>, with the rope helpers of the module.

  The engine's KV tensors are an explicit store, \<open>gpu\<close>: the caches vLLM registered and those a forward
  context carries are references into it, and two layers may share a tensor. A load writes into it in
  place. The writer thread takes its turn between two loads, not within one. The re-rotation of the keys
  of a span is the argument \<open>ll_rotate\<close>, since a row is opaque here; \<open>Rope\<close> models it. The width check of a packed page
  (\<open>ContentDim\<close>) is taken to pass: where it raises, the load raises there.
\<close>

subsection \<open>Rope parameters\<close>

text \<open>
  What the code asks other packages: vLLM's own test for rope parameters keyed by layer type and
  transformers' layer type names, when they can be imported, and the rotation of a list of rows by
  (theta, head size), donor start and target start.
\<close>

record load_lib =
  ll_rope_nested :: "((string \<times> pyval) list \<Rightarrow> bool) option"
  ll_layer_types :: "string list option"
  ll_rotate :: "pyfloat \<times> int \<Rightarrow> int \<Rightarrow> int \<Rightarrow> kv_rows \<Rightarrow> kv_rows"

definition is_mapping :: "pyval \<Rightarrow> bool" where
  "is_mapping v = (case v of PMap _ _ \<Rightarrow> True | _ \<Rightarrow> False)"

definition rope_keys_are_layer_types :: "load_lib \<Rightarrow> (string \<times> pyval) list \<Rightarrow> bool" where
  "rope_keys_are_layer_types lib rope =
     (case ll_layer_types lib of None \<Rightarrow> False | Some ts \<Rightarrow> set (map fst rope) \<subseteq> set ts)"

definition is_nested_rope_parameters :: "load_lib \<Rightarrow> (string \<times> pyval) list \<Rightarrow> bool" where
  "is_nested_rope_parameters lib rope =
     (if rope = [] then False
      else case ll_rope_nested lib of
             Some vllm \<Rightarrow> vllm rope
           | None \<Rightarrow> list_all (\<lambda>kv. is_mapping (snd kv)) rope \<or> rope_keys_are_layer_types lib rope)"

fun mappings_of :: "(string \<times> pyval) list \<Rightarrow> (string \<times> pyval) list list" where
  "mappings_of [] = []"
| "mappings_of ((_, PMap _ d) # kvs) = d # mappings_of kvs"
| "mappings_of (_ # kvs) = mappings_of kvs"

definition rope_parameter_sets ::
  "load_lib \<Rightarrow> (string \<times> pyval) list \<Rightarrow> (string \<times> pyval) list list option" where
  "rope_parameter_sets lib rope =
     (if \<not> is_nested_rope_parameters lib rope then Some [rope]
      else let sets = mappings_of rope in if length sets \<noteq> length rope then None else Some sets)"

definition full_rotary :: "pyval \<Rightarrow> py_error + bool" where
  "full_rotary factor =
     (if factor = PNone then Inr True
      else case py_float factor of Inl x \<Rightarrow> Inl x | Inr f \<Rightarrow> Inr (f = Finite 1))"

fun plain_rope_sets :: "(string \<times> pyval) list list \<Rightarrow> py_error + bool" where
  "plain_rope_sets [] = Inr True"
| "plain_rope_sets (rope # ropes) =
     (if py_str (py_or (py_or (get_item rope ''rope_type'') (get_item rope ''type'')) (PStr ''default''))
           \<noteq> ''default''
      then Inr False
      else case full_rotary (get_item rope ''partial_rotary_factor'') of
             Inl x \<Rightarrow> Inl x
           | Inr full \<Rightarrow> if full then plain_rope_sets ropes else Inr False)"

fun rope_thetas :: "(string \<times> pyval) list list \<Rightarrow> py_error + pyfloat list" where
  "rope_thetas [] = Inr []"
| "rope_thetas (rope # ropes) =
     (if get_item rope ''rope_theta'' = PNone then rope_thetas ropes
      else case py_float (get_item rope ''rope_theta'') of
             Inl x \<Rightarrow> Inl x
           | Inr f \<Rightarrow> (case rope_thetas ropes of Inl x \<Rightarrow> Inl x | Inr fs \<Rightarrow> Inr (List.insert f fs)))"

text \<open>\<open>a // b\<close>; the text of a float quotient is not read.\<close>

definition py_floordiv :: "pyval \<Rightarrow> pyval \<Rightarrow> py_error + pyval" where
  "py_floordiv a b =
     (case (num_of a, num_of b) of
        (Some x, Some y) \<Rightarrow>
          (let q = floor (x / y)
           in Inr (if is_float a \<or> is_float b then PFloat (of_int q) [] else PInt q))
      | _ \<Rightarrow> Inl TypeError)"

definition hf_config :: "'p env \<Rightarrow> pyval" where
  "hf_config e = getattr (getattr (e_vllm_config e) ''model_config'') ''hf_config''"

definition model_head_size :: "'p env \<Rightarrow> py_error + int option" where
  "model_head_size e =
     (let hf = hf_config e;
          hidden = getattr hf ''hidden_size'';
          heads = getattr hf ''num_attention_heads'';
          head_dim =
            (if getattr hf ''head_dim'' \<noteq> PNone then Inr (getattr hf ''head_dim'')
             else if truthy hidden \<and> truthy heads then py_floordiv hidden heads
             else Inr PNone)
      in case head_dim of
           Inl x \<Rightarrow> Inl x
         | Inr v \<Rightarrow> if truthy v then map_sum id Some (py_int v) else Inr None)"

definition rope_source :: "'p env \<Rightarrow> (string \<times> pyval) list option" where
  "rope_source e =
     (case getattr (hf_config e) ''rope_parameters'' of
        PMap _ (kv # kvs) \<Rightarrow> Some (kv # kvs)
      | _ \<Rightarrow> (case getattr (hf_config e) ''rope_scaling'' of PMap _ (kv # kvs) \<Rightarrow> Some (kv # kvs) | _ \<Rightarrow> None))"

text \<open>\<open>rope_params\<close> with the rope dicts to inspect, none when the model has no rope mapping.\<close>

definition rope_params_from ::
  "'p env \<Rightarrow> (string \<times> pyval) list list \<Rightarrow> py_error + (pyfloat \<times> int) option" where
  "rope_params_from e sets =
     (case plain_rope_sets sets of
        Inl x \<Rightarrow> Inl x
      | Inr plain \<Rightarrow>
          if \<not> plain then Inr None
          else case full_rotary (getattr (hf_config e) ''partial_rotary_factor'') of
                 Inl x \<Rightarrow> Inl x
               | Inr full \<Rightarrow>
                   if \<not> full then Inr None
                   else case rope_thetas sets of
                          Inl x \<Rightarrow> Inl x
                        | Inr thetas \<Rightarrow>
                            if 1 < length thetas then Inr None
                            else let theta = (case thetas of
                                       f # _ \<Rightarrow> Some (Inr f)
                                     | [] \<Rightarrow> (let v = getattr (hf_config e) ''rope_theta''
                                             in if v = PNone then None else Some (py_float v)))
                                 in case model_head_size e of
                                      Inl x \<Rightarrow> Inl x
                                    | Inr head_dim \<Rightarrow>
                                        (case (theta, head_dim) of
                                           (Some f, Some d) \<Rightarrow> map_sum id (\<lambda>f. Some (f, d)) f
                                         | _ \<Rightarrow> Inr None))"

definition rope_params :: "'p env \<Rightarrow> load_lib \<Rightarrow> py_error + (pyfloat \<times> int) option" where
  "rope_params e lib =
     (case rope_source e of
        None \<Rightarrow> rope_params_from e []
      | Some rope \<Rightarrow>
          (case rope_parameter_sets lib rope of None \<Rightarrow> Inr None | Some sets \<Rightarrow> rope_params_from e sets))"

subsection \<open>State\<close>

record kv_tensor =
  kt_page :: nat
  kt_cells :: layer_cache

text \<open>
  Attention metadata: a layer's own (is it the MLA class), a dictionary of those by layer name, or the
  list of such dictionaries of microbatching.
\<close>

datatype attn_meta =
    Layer_meta bool
  | Meta_by_layer "(string \<times> bool) list"
  | Microbatches "attn_meta list"

record forward_context =
  fc_attn :: "attn_meta option"
  fc_layers :: "(string \<times> nat option) list"

record load_st = worker_st +
  gpu :: "nat \<Rightarrow> kv_tensor"
  registered_kv_caches :: "(string, nat) odict"
  last_attn_metadata :: "attn_meta option"
  load_error_blocks :: "nat set"

definition register_kv_caches :: "'p env \<Rightarrow> (string, nat) odict \<Rightarrow> 'z load_st_scheme \<Rightarrow> 'z load_st_scheme" where
  "register_kv_caches e caches s =
     audit e None (EL (Ev_kv_caches_registered (len caches))) (s\<lparr>registered_kv_caches := caches\<rparr>)"

definition iter_kv_layers :: "forward_context \<Rightarrow> 'z load_st_scheme \<Rightarrow> (string \<times> nat) list" where
  "iter_kv_layers fc s =
     (if registered_kv_caches s \<noteq> [] then registered_kv_caches s
      else List.map_filter (\<lambda>(layer, kv). map_option (Pair layer) kv) (fc_layers fc))"

definition is_mla_metadata :: "attn_meta option \<Rightarrow> bool" where
  "is_mla_metadata md = (md = Some (Layer_meta True))"

fun layer_meta_of :: "attn_meta \<Rightarrow> string \<Rightarrow> attn_meta option" where
  "layer_meta_of (Meta_by_layer d) layer = map_option Layer_meta (map_of d layer)"
| "layer_meta_of md layer = Some md"

definition layer_attn_metadata :: "attn_meta option \<Rightarrow> string \<Rightarrow> attn_meta option" where
  "layer_attn_metadata md layer =
     (case md of
        None \<Rightarrow> None
      | Some (Microbatches []) \<Rightarrow> None
      | Some (Microbatches (m # _)) \<Rightarrow> layer_meta_of m layer
      | Some m \<Rightarrow> layer_meta_of m layer)"

definition get_block_ids_with_load_errors :: "'z load_st_scheme \<Rightarrow> nat set \<times> 'z load_st_scheme" where
  "get_block_ids_with_load_errors s = (load_error_blocks s, s\<lparr>load_error_blocks := {}\<rparr>)"

subsection \<open>One layer of a load\<close>

definition span_decline_stat :: "span_decline \<Rightarrow> load_stat" where
  "span_decline_stat r =
     (case r of Mla_layout \<Rightarrow> Semantic_span_declined_mla | No_rope_params \<Rightarrow> Semantic_span_declined_no_rope_params
      | Short_donor \<Rightarrow> Semantic_span_declined_short_donor)"

definition span_slice ::
  "'p env \<Rightarrow> load_lib \<Rightarrow> kv_rows \<Rightarrow> pending_load \<Rightarrow> attn_meta option \<Rightarrow> py_error + (span_decline + kv_rows)" where
  "span_slice e lib src l md =
     (if is_mla_metadata md then Inr (Inl Mla_layout)
      else case rope_params e lib of
             Inl x \<Rightarrow> Inl x
           | Inr params \<Rightarrow>
               (case (params, pl_donor_start l, pl_target_start l) of
                  (Some p, Some d, Some t) \<Rightarrow>
                    (let window = py_slice src d (d + pl_token_count l)
                     in if len window < pl_token_count l then Inr (Inl Short_donor)
                        else Inr (Inr (ll_rotate lib p d t window)))
                | _ \<Rightarrow> Inr (Inl No_rope_params)))"

definition semantic_span_slice ::
  "'p env \<Rightarrow> load_lib \<Rightarrow> kv_rows \<Rightarrow> pending_load \<Rightarrow> attn_meta option \<Rightarrow> py_error + kv_rows option" where
  "semantic_span_slice e lib src l md =
     map_sum id (case_sum (\<lambda>_. None) Some) (span_slice e lib src l md)"

text \<open>The assignment into an MLA layer broadcasts a single source row; elsewhere the reshape raises.\<close>

definition inject_into_layer :: "kv_tensor \<Rightarrow> kv_rows \<Rightarrow> nat list \<Rightarrow> attn_meta option \<Rightarrow> py_error + kv_tensor" where
  "inject_into_layer t rows slots md =
     (let rows' = (if is_mla_metadata md \<and> length rows = 1 then replicate (length slots) (hd rows) else rows)
      in map_sum id (\<lambda>c. t\<lparr>kt_cells := c\<rparr>) (inject_kv (kt_page t) (kt_cells t) rows' slots))"

datatype layer_outcome = Donor_gone | Layer_declined span_decline | Layer_written

text \<open>The layer's rows: from the entry the load looked up, else from the layer's file.\<close>

definition donor_layer ::
  "'p env \<Rightarrow> mem_entry option \<Rightarrow> pending_load \<Rightarrow> string \<Rightarrow> 'z load_st_scheme \<Rightarrow> kv_rows option" where
  "donor_layer e entry l layer s =
     (case (case entry of None \<Rightarrow> None | Some en \<Rightarrow> me_layers en layer) of
        Some rows \<Rightarrow> Some rows
      | None \<Rightarrow>
          (case od_get (dd_layers (dir_of (disk s) (storage_key e (pl_donor_id l) (pl_namespace l)))) layer of
             Some (Rows rows) \<Rightarrow> Some rows
           | _ \<Rightarrow> None))"

definition start_or_zero :: "int option \<Rightarrow> int" where
  "start_or_zero x = (case x of None \<Rightarrow> 0 | Some n \<Rightarrow> n)"

definition source_rows ::
  "'p env \<Rightarrow> load_lib \<Rightarrow> kv_rows \<Rightarrow> pending_load \<Rightarrow> attn_meta option \<Rightarrow> py_error + (span_decline + kv_rows)" where
  "source_rows e lib src l md =
     (if pl_kind l = K_SEMANTIC_SPAN then span_slice e lib src l md
      else let d = start_or_zero (pl_donor_start l) in Inr (Inr (py_slice src d (d + pl_token_count l))))"

definition write_layer ::
  "'p env \<Rightarrow> block_table \<Rightarrow> pending_load \<Rightarrow> nat \<Rightarrow> attn_meta option \<Rightarrow> kv_rows \<Rightarrow> 'z load_st_scheme
     \<Rightarrow> (py_error + layer_outcome) \<times> 'z load_st_scheme" where
  "write_layer e blocks l tid md rows s =
     (case slot_mapping e blocks (pl_token_count l) (start_or_zero (pl_target_start l)) s of
        (Inl x, s1) \<Rightarrow> (Inl x, s1)
      | (Inr slots, s1) \<Rightarrow>
          (case inject_into_layer (gpu s1 tid) rows slots md of
             Inl x \<Rightarrow> (Inl x, s1)
           | Inr t \<Rightarrow> (Inr Layer_written, s1\<lparr>gpu := (gpu s1)(tid := t)\<rparr>)))"

definition load_layer ::
  "'p env \<Rightarrow> load_lib \<Rightarrow> block_table \<Rightarrow> pending_load \<Rightarrow> mem_entry option \<Rightarrow> attn_meta option
     \<Rightarrow> string \<times> nat \<Rightarrow> 'z load_st_scheme \<Rightarrow> (py_error + layer_outcome) \<times> 'z load_st_scheme" where
  "load_layer e lib blocks l entry attn lt s =
     (let md = layer_attn_metadata attn (fst lt);
          s1 = (if md = None then bump (SL Layer_attn_metadata_missing) s else s)
      in case donor_layer e entry l (fst lt) s of
           None \<Rightarrow> (Inr Donor_gone, s1)
         | Some src \<Rightarrow>
             (case source_rows e lib src l md of
                Inl x \<Rightarrow> (Inl x, s1)
              | Inr (Inl r) \<Rightarrow> (Inr (Layer_declined r), bump (SL (span_decline_stat r)) s1)
              | Inr (Inr rows) \<Rightarrow> write_layer e blocks l (snd lt) md rows s1))"

subsection \<open>One load\<close>

record load_tally =
  lt_written :: int
  lt_no_metadata :: int
  lt_declines :: "(span_decline, int) odict"
  lt_gone :: bool

definition no_layers_yet :: load_tally where
  "no_layers_yet = \<lparr>lt_written = 0, lt_no_metadata = 0, lt_declines = [], lt_gone = False\<rparr>"

definition count_decline :: "span_decline \<Rightarrow> (span_decline, int) odict \<Rightarrow> (span_decline, int) odict" where
  "count_decline r d = od_set d r ((case od_get d r of None \<Rightarrow> 0 | Some n \<Rightarrow> n) + 1)"

fun load_layers ::
  "'p env \<Rightarrow> load_lib \<Rightarrow> block_table \<Rightarrow> pending_load \<Rightarrow> mem_entry option \<Rightarrow> attn_meta option
     \<Rightarrow> (string \<times> nat) list \<Rightarrow> load_tally \<Rightarrow> 'z load_st_scheme
     \<Rightarrow> (py_error + load_tally) \<times> 'z load_st_scheme" where
  "load_layers e lib blocks l entry attn [] tally s = (Inr tally, s)"
| "load_layers e lib blocks l entry attn (lt # lts) tally s =
     (let tally1 = (if layer_attn_metadata attn (fst lt) = None
                    then tally\<lparr>lt_no_metadata := lt_no_metadata tally + 1\<rparr> else tally)
      in case load_layer e lib blocks l entry attn lt s of
           (Inl x, s1) \<Rightarrow> (Inl x, s1)
         | (Inr Donor_gone, s1) \<Rightarrow> (Inr (tally1\<lparr>lt_gone := True\<rparr>), s1)
         | (Inr (Layer_declined r), s1) \<Rightarrow>
             load_layers e lib blocks l entry attn lts
               (tally1\<lparr>lt_declines := count_decline r (lt_declines tally1)\<rparr>) s1
         | (Inr Layer_written, s1) \<Rightarrow>
             load_layers e lib blocks l entry attn lts (tally1\<lparr>lt_written := lt_written tally1 + 1\<rparr>) s1)"

definition report_blocks :: "'p env \<Rightarrow> pending_load \<Rightarrow> 'z load_st_scheme \<Rightarrow> 'z load_st_scheme" where
  "report_blocks e l s =
     (let failed = destination_block_ids e l
      in audit e (Some (pl_request_id l)) (EL (Ev_load_error_blocks_reported (pl_donor_id l) (int (card failed))))
           (bump_by (SL Load_error_blocks_reported) (int (card failed))
             (s\<lparr>load_error_blocks := load_error_blocks s \<union> failed\<rparr>)))"

definition conclude_load ::
  "'p env \<Rightarrow> pending_load \<Rightarrow> load_tally \<Rightarrow> 'z load_st_scheme \<Rightarrow> (py_error + unit) \<times> 'z load_st_scheme" where
  "conclude_load e l tally s =
     (let note = (\<lambda>ev s. audit e (Some (pl_request_id l)) (EL ev) s);
          s1 = (if lt_declines tally \<noteq> []
                then note (Ev_span_layers_declined (pl_donor_id l) (pl_namespace l)
                             (sum_list (map snd (lt_declines tally))) (lt_written tally) (lt_declines tally)) s
                else s);
          s2 = (if lt_gone tally
                then note (Ev_materialization_declined_donor_gone (pl_donor_id l) (pl_namespace l)
                             (pl_token_count l) (pl_kind l) (lt_written tally) (lt_no_metadata tally))
                       (bump (SL Load_declined_donor_gone) s1)
                else s1)
      in if pl_kind l = K_SEMANTIC_SPAN \<and> (lt_gone tally \<or> lt_written tally \<le> 0)
         then (Inl (RuntimeError ''semantic-span load''),
               note (Ev_materialization_failed_loud (pl_donor_id l) (lt_gone tally)) s2)
         else if lt_gone tally then (Inr (), report_blocks e l s2)
         else if lt_written tally \<le> 0
         then (Inr (), note (Ev_materialization_declined_no_layers (pl_donor_id l) (pl_namespace l)
                               (pl_token_count l) (pl_kind l) (lt_no_metadata tally))
                         (bump (SL Loads_rejected_no_kv_layers) s2))
         else (Inr (), note (Ev_materialized (pl_donor_id l) (pl_namespace l) (pl_token_count l) (pl_kind l)
                               (lt_written tally) (lt_no_metadata tally))
                         (bump (SL Loads_materialized_total) s2)))"

definition load_entry :: "'p env \<Rightarrow> pending_load \<Rightarrow> 'z load_st_scheme \<Rightarrow> mem_entry option" where
  "load_entry e l s = od_get (memory_store s) (storage_key e (pl_donor_id l) (pl_namespace l))"

definition load_one ::
  "'p env \<Rightarrow> load_lib \<Rightarrow> forward_context \<Rightarrow> attn_meta option \<Rightarrow> pending_load \<Rightarrow> 'z load_st_scheme
     \<Rightarrow> (py_error + unit) \<times> 'z load_st_scheme" where
  "load_one e lib fc attn l s =
     (case pl_block_ids l of
        None \<Rightarrow> (Inl (RuntimeError ''missing destination blocks''), s)
      | Some blocks \<Rightarrow>
          (let s1 = audit e (Some (pl_request_id l))
                      (EL (Ev_materialization_started (pl_donor_id l) (pl_namespace l) (pl_token_count l) (pl_kind l))) s;
               k = storage_key e (pl_donor_id l) (pl_namespace l);
               s2 = s1\<lparr>memory_store := od_move_to_end (memory_store s1) k\<rparr>
           in case load_layers e lib blocks l (load_entry e l s1) attn (iter_kv_layers fc s2) no_layers_yet s2 of
                (Inl x, s3) \<Rightarrow> (Inl x, s3)
              | (Inr tally, s3) \<Rightarrow> conclude_load e l tally s3))"

subsection \<open>\<open>start_load_kv\<close>\<close>

fun load_all ::
  "'p env \<Rightarrow> load_lib \<Rightarrow> forward_context \<Rightarrow> attn_meta option \<Rightarrow> pending_load list \<Rightarrow> 'z load_st_scheme
     \<Rightarrow> (py_error + unit) \<times> 'z load_st_scheme" where
  "load_all e lib fc attn [] s = (Inr (), s)"
| "load_all e lib fc attn (l # ls) s =
     (case load_one e lib fc attn l (writer_turn e s) of
        (Inl x, s1) \<Rightarrow> (Inl x, s1)
      | (Inr _, s1) \<Rightarrow> load_all e lib fc attn ls s1)"

definition resolve_attn ::
  "'p env \<Rightarrow> forward_context \<Rightarrow> 'z load_st_scheme \<Rightarrow> attn_meta option \<times> 'z load_st_scheme" where
  "resolve_attn e fc s =
     (case fc_attn fc of
        Some md \<Rightarrow> (Some md, s\<lparr>last_attn_metadata := Some md\<rparr>)
      | None \<Rightarrow>
          (let first = (stats s (SL Materialized_without_forward) = 0);
               s1 = bump (SL Materialized_without_forward) s
           in (last_attn_metadata s,
               if first then audit e None (EL (Ev_materialized_without_forward (last_attn_metadata s \<noteq> None))) s1
               else s1)))"

definition start_load_kv ::
  "'p env \<Rightarrow> load_lib \<Rightarrow> string + connector_metadata \<Rightarrow> forward_context \<Rightarrow> 'z load_st_scheme
     \<Rightarrow> (py_error + unit) \<times> 'z load_st_scheme" where
  "start_load_kv e lib metadata fc s =
     (case metadata of
        Inl tn \<Rightarrow>
          (let first = (stats s (SL Load_metadata_unexpected_type_steps) = 0);
               s1 = bump (SL Load_metadata_unexpected_type_steps) s
           in (Inr (), if first then audit e None (EL (Ev_load_metadata_unexpected_type tn)) s1 else s1))
      | Inr md \<Rightarrow>
          if cm_loads md = [] then (Inr (), s)
          else let (attn, s1) = resolve_attn e fc s in load_all e lib fc attn (cm_loads md) s1)"

end
