(* ===== verification/WorkerProps.thy ===== *)
theory WorkerProps
  imports Worker
begin

text \<open>
  Correctness of the worker's captures. \<open>key_of\<close> and \<open>stored\<close> name what a capture is stored under and
  what a reader finds there; the first lemmas say what each job of the writer changes; \<open>copies_ok\<close> is the
  invariant that ties the copies in flight, in the queue and in the store to what the forward thread
  believes it has captured.
\<close>

subsection \<open>What is stored\<close>

definition key_of :: "'p env \<Rightarrow> (string \<Rightarrow> string) \<Rightarrow> string \<Rightarrow> string" where
  "key_of e N rid = storage_key e rid (N rid)"

definition stored :: "bool \<Rightarrow> volume \<Rightarrow> (string, mem_entry) odict \<Rightarrow> string \<Rightarrow> string \<Rightarrow> kv_rows option" where
  "stored mb vol mem k layer =
     (if mb then (case od_get mem k of None \<Rightarrow> None | Some entry \<Rightarrow> me_layers entry layer)
      else (case od_get (dd_layers (dir_of vol k)) layer of Some (Rows rows) \<Rightarrow> Some rows | _ \<Rightarrow> None))"

abbreviation copy_at :: "'p env \<Rightarrow> 'z worker_st_scheme \<Rightarrow> string \<Rightarrow> string \<Rightarrow> kv_rows option" where
  "copy_at e s \<equiv> stored (mem_backend e) (disk s) (memory_store s)"

abbreviation record_at :: "'z worker_st_scheme \<Rightarrow> string \<Rightarrow> int option option" where
  "record_at s k \<equiv> dd_record (dir_of (disk s) k)"

definition same_capture :: "'z worker_st_scheme \<Rightarrow> 'z worker_st_scheme \<Rightarrow> bool" where
  "same_capture s s' \<longleftrightarrow>
     write_queue s' = write_queue s \<and> capture_progress s' = capture_progress s
     \<and> capture_base_missing_noted s' = capture_base_missing_noted s
     \<and> worker_skipped_reasons s' = worker_skipped_reasons s
     \<and> writer_started s' = writer_started s \<and> writer_closed s' = writer_closed s
     \<and> writer_turns s' = writer_turns s \<and> capture_namespaces s' = capture_namespaces s
     \<and> finalized_donors s' = finalized_donors s \<and> finalize_pending s' = finalize_pending s
     \<and> capture_write_failed s' = capture_write_failed s \<and> queue_blocked_noted s' = queue_blocked_noted s"

lemma same_capture_trans: "same_capture s t \<Longrightarrow> same_capture t u \<Longrightarrow> same_capture s u"
  by (simp add: same_capture_def)

lemma same_capture_refl [simp]: "same_capture s s"
  by (simp add: same_capture_def)

lemma writer_count_fields [simp]:
  "disk (writer_count k s) = disk s" "memory_store (writer_count k s) = memory_store s"
  "inflight_layers (writer_count k s) = inflight_layers s" "writer_evicted (writer_count k s) = writer_evicted s"
  "writer_failed_requests (writer_count k s) = writer_failed_requests s"
  "writer_events (writer_count k s) = writer_events s" "write_results (writer_count k s) = write_results s"
  "same_capture s (writer_count k t) = same_capture s t"
  by (simp_all add: writer_count_def same_capture_def)

lemma same_capture_upd [simp]:
  "same_capture s (t\<lparr>inflight_layers := x\<rparr>) = same_capture s t" "same_capture s (t\<lparr>disk := y\<rparr>) = same_capture s t"
  "same_capture s (t\<lparr>memory_store := z\<rparr>) = same_capture s t"
  by (simp_all add: same_capture_def)

lemma take_result_fields:
  assumes "take_result s = (r, s')"
  shows "disk s' = disk s" "memory_store s' = memory_store s" "inflight_layers s' = inflight_layers s"
    "writer_evicted s' = writer_evicted s" "writer_failed_requests s' = writer_failed_requests s"
    "writer_events s' = writer_events s" "same_capture s s'" "writer_stats s' = writer_stats s"
  using assms by (auto simp: take_result_def same_capture_def split: list.splits)

lemma dir_of_upd [simp]: "dir_of (vol(k := v)) k' = (if k' = k then (case v of None \<Rightarrow> no_files | Some d \<Rightarrow> d) else dir_of vol k')"
  by (simp add: dir_of_def)

lemma dir_of_Some: "vol k = Some d \<Longrightarrow> dir_of vol k = d"
  by (simp add: dir_of_def)

subsection \<open>Eviction\<close>

lemma evict_memory_donor_spec:
  assumes "memory_store s = (k, entry) # rest"
  shows "memory_store (evict_memory_donor s) = rest"
    and "writer_evicted (evict_memory_donor s) = writer_evicted s @ [me_request_id entry]"
    and "inflight_layers (evict_memory_donor s) = inflight_layers s"
    and "writer_failed_requests (evict_memory_donor s) = writer_failed_requests s"
    and "same_capture s (evict_memory_donor s)"
    and "dd_layers (dir_of (disk (evict_memory_donor s)) k') = dd_layers (dir_of (disk s) k')"
    and "record_at (evict_memory_donor s) k' = (if k' = k \<and>
           writer_stats (evict_memory_donor s) Memory_store_eviction_retract_errors
             = writer_stats s Memory_store_eviction_retract_errors then None else record_at s k')"
    and "writer_stats s Memory_store_eviction_retract_errors
           \<le> writer_stats (evict_memory_donor s) Memory_store_eviction_retract_errors"
proof -
  define s1 where "s1 = writer_count Memory_store_evictions
      (s\<lparr>memory_store := rest, writer_evicted := writer_evicted s @ [me_request_id entry]\<rparr>)"
  have s1: "memory_store s1 = rest" "writer_evicted s1 = writer_evicted s @ [me_request_id entry]"
    "inflight_layers s1 = inflight_layers s" "writer_failed_requests s1 = writer_failed_requests s"
    "same_capture s s1" "disk s1 = disk s"
    "writer_stats s1 Memory_store_eviction_retract_errors = writer_stats s Memory_store_eviction_retract_errors"
    by (simp_all add: s1_def writer_count_def same_capture_def)
  have ev: "evict_memory_donor s = (case disk s k of
       None \<Rightarrow> s1
     | Some d \<Rightarrow> (let (r, s2) = (if dd_record d = None then (Lands, s1) else take_result s1);
                       d' = d\<lparr>dd_record := None\<rparr>
                   in if r \<noteq> Lands then writer_count Memory_store_eviction_retract_errors s2
                      else s2\<lparr>disk := (disk s2)(k := (if d' = no_files then None else Some d'))\<rparr>))"
    unfolding evict_memory_donor_def assms list.case prod.case by (simp only: s1_def [symmetric] Let_def s1(6))
  let ?stat = "\<lambda>t. writer_stats t Memory_store_eviction_retract_errors"
  have "(memory_store t = rest \<and> writer_evicted t = writer_evicted s @ [me_request_id entry]
      \<and> inflight_layers t = inflight_layers s \<and> writer_failed_requests t = writer_failed_requests s
      \<and> same_capture s t \<and> (\<forall>k'. dd_layers (dir_of (disk t) k') = dd_layers (dir_of (disk s) k'))
      \<and> (\<forall>k'. record_at t k' = (if k' = k \<and> ?stat t = ?stat s then None else record_at s k'))
      \<and> ?stat s \<le> ?stat t)" if t: "t = evict_memory_donor s" for t
  proof (cases "disk s k")
    case None
    then have "t = s1" "dir_of (disk s) k = no_files" by (simp_all add: ev t dir_of_def)
    then show ?thesis using s1 by (auto simp: no_files_def)
  next
    case (Some d)
    obtain r s2 where rs: "(if dd_record d = None then (Lands, s1) else take_result s1) = (r, s2)" by fastforce
    have s2: "memory_store s2 = rest" "writer_evicted s2 = writer_evicted s @ [me_request_id entry]"
      "inflight_layers s2 = inflight_layers s" "writer_failed_requests s2 = writer_failed_requests s"
      "same_capture s s2" "disk s2 = disk s" "?stat s2 = ?stat s"
    proof -
      have "s2 = s1 \<or> take_result s1 = (r, s2)" using rs by (auto split: if_splits)
      then have "memory_store s2 = memory_store s1 \<and> writer_evicted s2 = writer_evicted s1
          \<and> inflight_layers s2 = inflight_layers s1 \<and> writer_failed_requests s2 = writer_failed_requests s1
          \<and> same_capture s1 s2 \<and> disk s2 = disk s1 \<and> ?stat s2 = ?stat s1"
        using take_result_fields [of s1 r s2] by (elim disjE) simp_all
      then show "memory_store s2 = rest" "writer_evicted s2 = writer_evicted s @ [me_request_id entry]"
        "inflight_layers s2 = inflight_layers s" "writer_failed_requests s2 = writer_failed_requests s"
        "same_capture s s2" "disk s2 = disk s" "?stat s2 = ?stat s"
        using s1 same_capture_trans [of s s1 s2] by metis+
    qed
    have d: "dir_of (disk s) k = d" using Some by (rule dir_of_Some)
    have nf: "dd_layers d = []" "dd_record no_files = None" if "d\<lparr>dd_record := None\<rparr> = no_files"
      using arg_cong [OF that, of dd_layers] by (simp_all add: no_files_def)
    have t': "t = (if r \<noteq> Lands then writer_count Memory_store_eviction_retract_errors s2
        else s2\<lparr>disk := (disk s2)(k := (if d\<lparr>dd_record := None\<rparr> = no_files then None
                                             else Some (d\<lparr>dd_record := None\<rparr>)))\<rparr>)"
      by (simp add: t ev Some rs Let_def)
    show ?thesis
    proof (cases "r = Lands")
      case False
      then have "t = writer_count Memory_store_eviction_retract_errors s2" by (simp add: t')
      then show ?thesis using s2 by (simp add: writer_count_def [of _ s2] same_capture_def)
    next
      case True
      define v where "v = (if d\<lparr>dd_record := None\<rparr> = no_files then None else Some (d\<lparr>dd_record := None\<rparr>))"
      have t2: "t = s2\<lparr>disk := (disk s2)(k := v)\<rparr>" using True by (simp add: t' v_def)
      have v: "dd_record (case v of None \<Rightarrow> no_files | Some x \<Rightarrow> x) = None"
        "dd_layers (case v of None \<Rightarrow> no_files | Some x \<Rightarrow> x) = dd_layers d"
        by (cases "d\<lparr>dd_record := None\<rparr> = no_files"; simp add: v_def nf; simp add: no_files_def)+
      have disk: "disk t = (disk s)(k := v)" and frame: "memory_store t = rest"
        "writer_evicted t = writer_evicted s @ [me_request_id entry]"
        "inflight_layers t = inflight_layers s" "writer_failed_requests t = writer_failed_requests s"
        "same_capture s t" "?stat t = ?stat s"
        using s2 by (simp_all add: t2 same_capture_def)
      show ?thesis by (simp add: frame disk v d)
    qed
  qed
  from this [OF refl]
  show "memory_store (evict_memory_donor s) = rest"
    "writer_evicted (evict_memory_donor s) = writer_evicted s @ [me_request_id entry]"
    "inflight_layers (evict_memory_donor s) = inflight_layers s"
    "writer_failed_requests (evict_memory_donor s) = writer_failed_requests s"
    "same_capture s (evict_memory_donor s)"
    "dd_layers (dir_of (disk (evict_memory_donor s)) k') = dd_layers (dir_of (disk s) k')"
    "record_at (evict_memory_donor s) k' = (if k' = k \<and> ?stat (evict_memory_donor s) = ?stat s then None
        else record_at s k')"
    "?stat s \<le> ?stat (evict_memory_donor s)"
    by blast+
qed

text \<open>Eviction drops a prefix of the store: the least recently used donors.\<close>

lemma evict_to_cap_spec:
  "memory_store (evict_to_cap cap s) = drop (length (memory_store s) - cap) (memory_store s)
   \<and> writer_evicted (evict_to_cap cap s)
       = writer_evicted s @ map (me_request_id \<circ> snd) (take (length (memory_store s) - cap) (memory_store s))
   \<and> inflight_layers (evict_to_cap cap s) = inflight_layers s
   \<and> writer_failed_requests (evict_to_cap cap s) = writer_failed_requests s
   \<and> same_capture s (evict_to_cap cap s)
   \<and> (\<forall>k. dd_layers (dir_of (disk (evict_to_cap cap s)) k) = dd_layers (dir_of (disk s) k))
   \<and> (\<forall>k. record_at (evict_to_cap cap s) k = record_at s k \<or> record_at (evict_to_cap cap s) k = None)"
proof (induction cap s rule: evict_to_cap.induct)
  case (1 cap s)
  show ?case
  proof (cases "cap < length (memory_store s)")
    case False
    then show ?thesis by (subst (1 2 3 4 5 6 7 8) evict_to_cap.simps) simp
  next
    case True
    then obtain k entry rest where m: "memory_store s = (k, entry) # rest" by (cases "memory_store s") auto
    note sp = evict_memory_donor_spec [OF m]
    have step: "evict_to_cap cap s = evict_to_cap cap (evict_memory_donor s)"
      using True by (subst evict_to_cap.simps) simp
    have l: "length (memory_store s) - cap = Suc (length rest - cap)" using True m by simp
    have sc: "same_capture s (evict_to_cap cap (evict_memory_donor s))"
      using same_capture_trans [OF sp(5)] 1 [OF True] by blast
    show ?thesis using 1 [OF True] sc
      unfolding step l by (simp add: sp(1,2,3,4,6) m) (metis sp(7))
  qed
qed

subsection \<open>Writing a layer\<close>

lemma od_set_absent: "k \<notin> set (od_keys d) \<Longrightarrow> od_set d k v = d @ [(k, v)]"
  by (induction d k v rule: od_set.induct) (auto simp: od_keys_def)

lemma od_set_length: "length (od_set d k v) = length d + (if k \<in> set (od_keys d) then 0 else 1)"
  by (induction d k v rule: od_set.induct) (auto simp: od_keys_def)

lemma od_get_drop:
  assumes "od_wf d"
  shows "od_get (drop n d) k = (if k \<in> set (od_keys (take n d)) then None else od_get d k)"
proof -
  have d: "map_of d = map_of (drop n d) ++ map_of (take n d)"
    by (metis append_take_drop_id map_of_append)
  have "k \<notin> set (od_keys (drop n d))" if "k \<in> set (od_keys (take n d))"
  proof -
    have "distinct (od_keys (take n d) @ od_keys (drop n d))"
      using assms by (simp add: od_wf_def od_keys_def flip: map_append)
    then show ?thesis using that by auto
  qed
  moreover have "map_of (take n d) k = None" if "k \<notin> set (od_keys (take n d))"
    using that by (simp add: od_keys_def map_of_eq_None_iff)
  moreover have "map_of (drop n d) k = None" if "k \<notin> set (od_keys (drop n d))"
    using that by (simp add: od_keys_def map_of_eq_None_iff)
  ultimately show ?thesis
    using fun_cong [OF d, of k] by (auto simp: od_get_def map_add_def)
qed

lemma length_move: "length (od_move_to_end d k) = length d" if "od_wf d"
  using that
proof (induction d)
  case (Cons x d)
  then have wf: "od_wf d" "fst x \<notin> set (od_keys d)" by (auto simp: od_wf_def od_keys_def)
  show ?case
  proof (cases "fst x = k")
    case True
    then show ?thesis using od_pop_absent [of k d] wf by (auto simp: od_move_to_end_def od_pop_def)
  next
    case False
    then show ?thesis using Cons.IH [OF wf(1)]
      by (auto simp: od_move_to_end_def od_pop_def split: option.splits if_splits)
  qed
qed (simp add: od_move_to_end_def)

definition mem_inv :: "'p env \<Rightarrow> (string \<Rightarrow> string) \<Rightarrow> 'z worker_st_scheme \<Rightarrow> bool" where
  "mem_inv e N s \<longleftrightarrow> od_wf (memory_store s) \<and> length (memory_store s) \<le> memory_cap e
     \<and> (\<forall>k entry. od_get (memory_store s) k = Some entry \<longrightarrow> k = key_of e N (me_request_id entry))"

lemma memory_cap_pos: "0 < memory_cap e"
  by (simp add: memory_cap_def)

text \<open>
  What a layer write to the memory tier does: it sets one layer of one donor, and may drop other
  donors, which it then names as evicted; it retracts no record but theirs.
\<close>

text \<open>
  A write first makes sure of an entry: the donor's own, now the most recent, or a fresh one, for which
  the store is cut to its cap. \<open>reserved\<close> says what that leaves.
\<close>

definition fresh_entry :: "write_job \<Rightarrow> mem_entry" where
  "fresh_entry j = \<lparr>me_request_id = wj_request_id j, me_token_count = wj_token_count j, me_layers = Map.empty\<rparr>"

definition reserve_entry :: "'p env \<Rightarrow> write_job \<Rightarrow> 'z worker_st_scheme \<Rightarrow> 'z worker_st_scheme" where
  "reserve_entry e j s =
     (case od_get (memory_store s) (job_key e j) of
        None \<Rightarrow> evict_to_cap (memory_cap e) (s\<lparr>memory_store := od_set (memory_store s) (job_key e j) (fresh_entry j)\<rparr>)
      | Some entry \<Rightarrow> s\<lparr>memory_store := od_move_to_end
          (od_set (memory_store s) (job_key e j) (entry\<lparr>me_token_count := wj_token_count j\<rparr>)) (job_key e j)\<rparr>)"

definition reserved ::
  "'p env \<Rightarrow> (string \<Rightarrow> string) \<Rightarrow> write_job \<Rightarrow> 'z worker_st_scheme \<Rightarrow> 'z worker_st_scheme \<Rightarrow> bool" where
  "reserved e N j s s1 \<longleftrightarrow> same_capture s s1 \<and> writer_failed_requests s1 = writer_failed_requests s
     \<and> (\<exists>ev. writer_evicted s1 = writer_evicted s @ ev) \<and> inflight_layers s1 = inflight_layers s
     \<and> mem_inv e N s1
     \<and> (\<exists>entry. od_get (memory_store s1) (job_key e j) = Some entry
           \<and> me_request_id entry
               = me_request_id (case od_get (memory_store s) (job_key e j) of None \<Rightarrow> fresh_entry j | Some x \<Rightarrow> x)
           \<and> me_layers entry
               = me_layers (case od_get (memory_store s) (job_key e j) of None \<Rightarrow> fresh_entry j | Some x \<Rightarrow> x))
     \<and> (\<forall>rid. rid \<notin> set (writer_evicted s1) \<longrightarrow> key_of e N rid \<noteq> job_key e j \<longrightarrow>
           od_get (memory_store s1) (key_of e N rid) = od_get (memory_store s) (key_of e N rid))
     \<and> (\<forall>k'. record_at s1 k' = record_at s k' \<or> record_at s1 k' = None)"

lemma reserve_known:
  assumes inv: "mem_inv e N s" and Some: "od_get (memory_store s) (job_key e j) = Some x"
  shows "reserved e N j s (reserve_entry e j s)"
proof -
  let ?k = "job_key e j" and ?m = "memory_store s"
  have wf: "od_wf ?m" and le: "length ?m \<le> memory_cap e"
    and keys: "\<And>k entry. od_get ?m k = Some entry \<Longrightarrow> k = key_of e N (me_request_id entry)"
    using inv by (auto simp: mem_inv_def)
  define s1 where "s1 = reserve_entry e j s"
  define x' where "x' = x\<lparr>me_token_count := wj_token_count j\<rparr>"
  define m1 where "m1 = od_move_to_end (od_set ?m ?k x') ?k"
  have s1e: "s1 = s\<lparr>memory_store := m1\<rparr>" by (simp add: s1_def reserve_entry_def Some x'_def m1_def)
  have "?k \<in> set (od_keys ?m)" using Some od_get_None_iff [of ?m ?k] by auto
  then have m1: "od_wf m1" "length m1 = length ?m" "od_get m1 = (od_get ?m)(?k \<mapsto> x')"
    using wf by (simp_all add: m1_def length_move od_set_length)
  have x': "me_request_id x' = me_request_id x" "me_layers x' = me_layers x" by (simp_all add: x'_def)
  have "k' = key_of e N (me_request_id entry)" if "od_get m1 k' = Some entry" for k' entry
    using that keys Some x'(1) by (auto simp: m1(3) split: if_splits)
  then have "mem_inv e N s1" using m1 le by (simp add: mem_inv_def s1e)
  then show ?thesis using m1 x' unfolding s1_def [symmetric]
    by (auto simp: reserved_def s1e Some same_capture_def)
qed

lemma reserve_new:
  assumes inv: "mem_inv e N s" and ns: "wj_namespace j = N (wj_request_id j)" and inj: "inj (key_of e N)"
    and None: "od_get (memory_store s) (job_key e j) = None"
  shows "reserved e N j s (reserve_entry e j s)"
proof -
  let ?k = "job_key e j" and ?m = "memory_store s" and ?fresh = "fresh_entry j"
  have k: "?k = key_of e N (wj_request_id j)" by (simp add: job_key_def key_of_def ns)
  have wf: "od_wf ?m" and le: "length ?m \<le> memory_cap e"
    and keys: "\<And>k entry. od_get ?m k = Some entry \<Longrightarrow> k = key_of e N (me_request_id entry)"
    using inv by (auto simp: mem_inv_def)
  define s1 where "s1 = reserve_entry e j s"
  have absent: "?k \<notin> set (od_keys ?m)" by (simp add: od_get_None_iff [symmetric] None)
  define m1 where "m1 = ?m @ [(?k, ?fresh)]"
  have m1: "od_set ?m ?k ?fresh = m1" using od_set_absent [OF absent] by (simp add: m1_def)
  have wf1: "od_wf m1" using od_wf_set [OF wf, of ?k ?fresh] by (simp add: m1)
  have get1: "od_get m1 = (od_get ?m)(?k \<mapsto> ?fresh)" by (simp flip: m1)
  define n where "n = length m1 - memory_cap e"
  have s1e: "s1 = evict_to_cap (memory_cap e) (s\<lparr>memory_store := m1\<rparr>)" by (simp add: s1_def reserve_entry_def None m1)
  have sp: "memory_store s1 = drop n m1"
      "writer_evicted s1 = writer_evicted s @ map (me_request_id \<circ> snd) (take n m1)"
      "inflight_layers s1 = inflight_layers s" "writer_failed_requests s1 = writer_failed_requests s"
      "same_capture s s1" "\<forall>k. record_at s1 k = record_at s k \<or> record_at s1 k = None"
    using evict_to_cap_spec [of "memory_cap e" "s\<lparr>memory_store := m1\<rparr>"] unfolding s1e [symmetric] n_def
    by (simp_all add: same_capture_def)
  have n: "n \<le> length ?m" using le memory_cap_pos [of e] by (simp add: n_def m1_def)
  then have tk: "take n m1 = take n ?m" by (simp add: m1_def)
  have get: "od_get (drop n m1) k' = (if k' \<in> set (od_keys (take n ?m)) then None else od_get m1 k')" for k'
    using od_get_drop [OF wf1, of n k'] by (simp add: tk)
  have kn: "?k \<notin> set (od_keys (take n ?m))"
    using absent by (auto simp: od_keys_def dest: in_set_takeD)
  have fid: "me_request_id ?fresh = wj_request_id j" by (simp add: fresh_entry_def)
  have "k' = key_of e N (me_request_id entry)" if "od_get m1 k' = Some entry" for k' entry
    using that keys k fid by (auto simp: get1 split: if_splits)
  then have "mem_inv e N s1"
    using od_wf_drop [OF wf1, of n] by (auto simp: mem_inv_def sp(1) get split: if_splits) (simp add: n_def)
  moreover have "od_get (memory_store s1) (key_of e N rid) = od_get ?m (key_of e N rid)"
    if "rid \<notin> set (writer_evicted s1)" "key_of e N rid \<noteq> ?k" for rid
  proof -
    have "key_of e N rid \<notin> set (od_keys (take n ?m))"
    proof
      assume "key_of e N rid \<in> set (od_keys (take n ?m))"
      then obtain entry where en: "(key_of e N rid, entry) \<in> set (take n ?m)" by (auto simp: od_keys_def)
      then have "od_get ?m (key_of e N rid) = Some entry" using od_wf_get [OF wf] in_set_takeD by fast
      then have "rid = me_request_id entry" using keys inj by (metis injD)
      moreover have "me_request_id entry \<in> set (writer_evicted s1)" unfolding sp(2) tk using en by force
      ultimately show False using that(1) by simp
    qed
    then show ?thesis using that(2) by (simp add: sp(1) get get1)
  qed
  ultimately show ?thesis using sp(2,3,4,5,6) kn unfolding s1_def [symmetric]
    by (simp add: reserved_def None sp(1) get get1)
qed

lemma memory_write_spec:
  assumes inv: "mem_inv e N s" and ns: "wj_namespace j = N (wj_request_id j)" and inj: "inj (key_of e N)"
  defines "t \<equiv> memory_write e j s"
  shows "mem_inv e N t"
    and "same_capture s t" and "writer_failed_requests t = writer_failed_requests s"
    and "\<exists>ev. writer_evicted t = writer_evicted s @ ev"
    and "inflight_layers t = (inflight_layers s)((job_key e j, job_layer j) := None)"
    and "rid \<notin> set (writer_evicted t) \<Longrightarrow>
      stored True (disk t) (memory_store t) (key_of e N rid) layer =
        (if rid = wj_request_id j \<and> layer = job_layer j then Some (wj_payload j)
         else stored True (disk s) (memory_store s) (key_of e N rid) layer)"
    and "record_at t k' = record_at s k' \<or> record_at t k' = None"
proof -
  let ?k = "job_key e j" and ?m = "memory_store s"
  have k: "?k = key_of e N (wj_request_id j)" by (simp add: job_key_def key_of_def ns)
  define s1 where "s1 = reserve_entry e j s"
  have "reserved e N j s s1"
    unfolding s1_def using reserve_known [OF inv, of j] reserve_new [OF inv ns inj] by (cases "od_get ?m ?k") auto
  note s1 = this [unfolded reserved_def]
  obtain entry where en: "od_get (memory_store s1) ?k = Some entry"
    "me_request_id entry = me_request_id (case od_get ?m ?k of None \<Rightarrow> fresh_entry j | Some x \<Rightarrow> x)"
    "me_layers entry = me_layers (case od_get ?m ?k of None \<Rightarrow> fresh_entry j | Some x \<Rightarrow> x)"
    using s1 by blast
  define en' where "en' = entry\<lparr>me_layers := (me_layers entry)(job_layer j \<mapsto> wj_payload j)\<rparr>"
  have t: "t = s1\<lparr>memory_store := od_set (memory_store s1) ?k en',
                  inflight_layers := (inflight_layers s1)((?k, job_layer j) := None)\<rparr>"
    unfolding t_def memory_write_def Let_def fresh_entry_def [symmetric] reserve_entry_def [symmetric]
      s1_def [symmetric]
    by (simp add: en(1) en'_def)
  have kin: "?k \<in> set (od_keys (memory_store s1))" using en(1) od_get_None_iff [of "memory_store s1" ?k] by auto
  have inv1: "mem_inv e N s1" using s1 by blast
  have "k' = key_of e N (me_request_id x)" if "od_get (od_set (memory_store s1) ?k en') k' = Some x" for k' x
    using that inv1 en(1) by (auto simp: mem_inv_def en'_def split: if_splits)
  then show "mem_inv e N t" using inv1 kin by (simp add: mem_inv_def t od_set_length)
  show "same_capture s t" "writer_failed_requests t = writer_failed_requests s"
    "\<exists>ev. writer_evicted t = writer_evicted s @ ev"
    "inflight_layers t = (inflight_layers s)((?k, job_layer j) := None)"
    "record_at t k' = record_at s k' \<or> record_at t k' = None"
    using s1 by (simp_all add: t same_capture_def)
  show "stored True (disk t) (memory_store t) (key_of e N rid) layer =
        (if rid = wj_request_id j \<and> layer = job_layer j then Some (wj_payload j)
         else stored True (disk s) (memory_store s) (key_of e N rid) layer)"
    if "rid \<notin> set (writer_evicted t)"
  proof (cases "rid = wj_request_id j")
    case True
    then show ?thesis
      by (cases "od_get ?m ?k") (simp_all add: stored_def t k [symmetric] en'_def en(3) fresh_entry_def)
  next
    case False
    then have ne: "key_of e N rid \<noteq> ?k" using inj by (auto simp: k dest: injD)
    have "rid \<notin> set (writer_evicted s1)" using that by (simp add: t)
    then have "od_get (memory_store s1) (key_of e N rid) = od_get ?m (key_of e N rid)" using s1 ne by blast
    then show ?thesis using False ne by (simp add: stored_def t)
  qed
qed

text \<open>A layer job of either tier: with it landed, readers of its donor see its payload.\<close>

lemma write_layer_effect:
  assumes inv: "mem_inv e N s" and ns: "wj_namespace j = N (wj_request_id j)" and inj: "inj (key_of e N)"
    and out: "write_captured_layer e j s = (r, t)"
  shows "mem_inv e N t" and "same_capture s t" and "writer_failed_requests t = writer_failed_requests s"
    and "\<exists>ev. writer_evicted t = writer_evicted s @ ev"
    and "r = None \<Longrightarrow> inflight_layers t = (inflight_layers s)((job_key e j, job_layer j) := None)"
    and "r \<noteq> None \<Longrightarrow> inflight_layers t = inflight_layers s"
    and "rid \<notin> set (writer_evicted t) \<Longrightarrow> r = None \<or> rid \<noteq> wj_request_id j \<Longrightarrow>
      copy_at e t (key_of e N rid) layer =
        (if rid = wj_request_id j \<and> layer = job_layer j then Some (wj_payload j)
         else copy_at e s (key_of e N rid) layer)"
    and "record_at t k' = record_at s k' \<or> record_at t k' = None"
proof -
  have k: "job_key e j = key_of e N (wj_request_id j)" by (simp add: job_key_def key_of_def ns)
  have all: "mem_inv e N t \<and> same_capture s t \<and> writer_failed_requests t = writer_failed_requests s
    \<and> (\<exists>ev. writer_evicted t = writer_evicted s @ ev)
    \<and> (r = None \<longrightarrow> inflight_layers t = (inflight_layers s)((job_key e j, job_layer j) := None))
    \<and> (r \<noteq> None \<longrightarrow> inflight_layers t = inflight_layers s)
    \<and> (\<forall>rid layer. rid \<notin> set (writer_evicted t) \<longrightarrow> r = None \<or> rid \<noteq> wj_request_id j \<longrightarrow>
        copy_at e t (key_of e N rid) layer =
          (if rid = wj_request_id j \<and> layer = job_layer j then Some (wj_payload j)
           else copy_at e s (key_of e N rid) layer))
    \<and> (\<forall>k'. record_at t k' = record_at s k' \<or> record_at t k' = None)"
  proof (cases "mem_backend e")
    case True
    have rt: "r = None" "t = writer_count Capture_layer_writes_total (memory_write e j s)"
      using out True by (simp_all add: write_captured_layer_def)
    note sp = memory_write_spec [OF inv ns inj]
    show ?thesis using sp True by (simp add: rt mem_inv_def)
  next
    case False
    define d where "d = dir_of (disk s) (job_key e j)"
    obtain res s1 where res: "take_result s = (res, s1)" by fastforce
    note s1 = take_result_fields [OF res]
    define put where "put f = s1\<lparr>disk := (disk s1)(job_key e j \<mapsto> d\<lparr>dd_layers := od_set (dd_layers d) (job_layer j) f\<rparr>)\<rparr>"
      for f
    have inv1: "mem_inv e N s1" using inv by (simp add: mem_inv_def s1(2))
    have put: "memory_store (put f) = memory_store s" "writer_evicted (put f) = writer_evicted s"
      "inflight_layers (put f) = inflight_layers s" "writer_failed_requests (put f) = writer_failed_requests s"
      "same_capture s (put f)" "record_at (put f) k' = record_at s k'"
      "rid \<noteq> wj_request_id j \<Longrightarrow> dir_of (disk (put f)) (key_of e N rid) = dir_of (disk s) (key_of e N rid)"
      "dd_layers (dir_of (disk (put f)) (job_key e j)) = od_set (dd_layers d) (job_layer j) f" for f k' rid
      using s1 inj by (auto simp: put_def same_capture_def d_def k dest: injD)
    have o: "(r, t) = (case res of
          Fails x \<Rightarrow> (Some x, s1)
        | Truncates x \<Rightarrow> (Some x, put Truncated)
        | Lands \<Rightarrow> (let s2 = put (Rows (wj_payload j))
             in (None, writer_count Capture_layer_writes_total
                  (s2\<lparr>inflight_layers := (inflight_layers s2)((job_key e j, job_layer j) := None)\<rparr>))))"
      using out False by (cases res) (simp_all add: write_captured_layer_def res d_def put_def Let_def)
    show ?thesis
    proof (cases res)
      case (Fails x)
      then have "r = Some x" "t = s1" using o by simp_all
      then show ?thesis using s1 inv1 False by (auto simp: stored_def)
    next
      case (Truncates x)
      then have rt: "r = Some x" "t = put Truncated" using o by simp_all
      show ?thesis using inv False put by (simp add: rt mem_inv_def stored_def)
    next
      case Lands
      define s2 where "s2 = put (Rows (wj_payload j))"
      have rt: "r = None" "t = writer_count Capture_layer_writes_total
          (s2\<lparr>inflight_layers := (inflight_layers s2)((job_key e j, job_layer j) := None)\<rparr>)"
        using o Lands by (simp_all add: s2_def Let_def)
      have s2: "memory_store s2 = memory_store s" "writer_evicted s2 = writer_evicted s"
        "inflight_layers s2 = inflight_layers s" "writer_failed_requests s2 = writer_failed_requests s"
        "same_capture s s2" "\<And>k'. record_at s2 k' = record_at s k'"
        unfolding s2_def by (rule put)+
      have copy: "copy_at e s2 (key_of e N rid) layer =
          (if rid = wj_request_id j \<and> layer = job_layer j then Some (wj_payload j)
           else copy_at e s (key_of e N rid) layer)" for rid layer
      proof (cases "rid = wj_request_id j")
        case True
        then show ?thesis using False put(8) [of "Rows (wj_payload j)"]
          by (simp add: stored_def s2_def [symmetric] k d_def)
      next
        case ne: False
        then show ?thesis using put(7) [OF ne, of "Rows (wj_payload j)"] s2(1) False
          by (simp add: stored_def s2_def [symmetric])
      qed
      have "same_capture s t" using s2(5) by (simp add: rt)
      then show ?thesis using inv s2 copy by (simp add: rt mem_inv_def)
    qed
  qed
  then show "mem_inv e N t" "same_capture s t" "writer_failed_requests t = writer_failed_requests s"
    "\<exists>ev. writer_evicted t = writer_evicted s @ ev"
    "r = None \<Longrightarrow> inflight_layers t = (inflight_layers s)((job_key e j, job_layer j) := None)"
    "r \<noteq> None \<Longrightarrow> inflight_layers t = inflight_layers s"
    by blast+
  show "record_at t k' = record_at s k' \<or> record_at t k' = None" using all by simp
  show "copy_at e t (key_of e N rid) layer =
        (if rid = wj_request_id j \<and> layer = job_layer j then Some (wj_payload j)
         else copy_at e s (key_of e N rid) layer)"
    if "rid \<notin> set (writer_evicted t)" "r = None \<or> rid \<noteq> wj_request_id j"
    using all that by blast
qed

text \<open>A failed write marks its request and forgets the copy it held for it.\<close>

lemma record_write_error_fields:
  "memory_store (record_write_error e j x s) = memory_store s" "disk (record_write_error e j x s) = disk s"
  "writer_evicted (record_write_error e j x s) = writer_evicted s"
  "writer_failed_requests (record_write_error e j x s) = insert (wj_request_id j) (writer_failed_requests s)"
  "same_capture s (record_write_error e j x s)"
  "inflight_layers (record_write_error e j x s) =
     (case wj_layer_name j of None \<Rightarrow> inflight_layers s
      | Some l \<Rightarrow> (inflight_layers s)((job_key e j, l) := None))"
  by (simp_all add: record_write_error_def Let_def writer_count_def same_capture_def split: option.splits)

subsection \<open>The invariant of the copies\<close>

text \<open>
  Requests whose captures are not relied on: a write failed, or the donor was evicted.
\<close>

definition unreliable :: "'z worker_st_scheme \<Rightarrow> string set" where
  "unreliable s = capture_write_failed s \<union> writer_failed_requests s \<union> set (writer_evicted s)"

abbreviation job_slot :: "write_job \<Rightarrow> string \<times> string" where
  "job_slot j \<equiv> (wj_request_id j, job_layer j)"

text \<open>
  \<open>X\<close> is the copy each layer of each request should have, \<open>P\<close> the layers being handed to the writer. At
  most one job per layer is queued; a queued job of a reliable request carries the copy expected; a
  layer with none queued has it in the store; what is in flight is queued or being handed over.
\<close>

definition copies_ok ::
  "'p env \<Rightarrow> (string \<Rightarrow> string) \<Rightarrow> (string \<Rightarrow> string \<Rightarrow> kv_rows option) \<Rightarrow> (string \<times> string) set
     \<Rightarrow> 'z worker_st_scheme \<Rightarrow> bool" where
  "copies_ok e N X P s \<longleftrightarrow> mem_inv e N s
     \<and> (\<forall>j \<in> set (write_queue s). wj_kind j = Layer_job \<and> wj_layer_name j = Some (job_layer j)
          \<and> wj_namespace j = N (wj_request_id j))
     \<and> distinct (map job_slot (write_queue s))
     \<and> (\<forall>j \<in> set (write_queue s). wj_request_id j \<notin> unreliable s \<longrightarrow>
          X (wj_request_id j) (job_layer j) = Some (wj_payload j))
     \<and> (\<forall>rid layer rows. X rid layer = Some rows \<longrightarrow> rid \<notin> unreliable s \<longrightarrow> (rid, layer) \<notin> P \<longrightarrow>
          (rid, layer) \<notin> job_slot ` set (write_queue s) \<longrightarrow> copy_at e s (key_of e N rid) layer = Some rows)
     \<and> (\<forall>k layer rows. inflight_layers s (k, layer) = Some rows \<longrightarrow>
          (\<exists>rid. k = key_of e N rid \<and> (rid, layer) \<in> P \<union> job_slot ` set (write_queue s)
             \<and> (rid \<notin> unreliable s \<longrightarrow> X rid layer = Some rows)))"

lemma copies_okD:
  assumes "copies_ok e N X P s"
  shows "mem_inv e N s" and "distinct (map job_slot (write_queue s))"
    and "j \<in> set (write_queue s) \<Longrightarrow> wj_kind j = Layer_job \<and> wj_layer_name j = Some (job_layer j)
          \<and> wj_namespace j = N (wj_request_id j)"
    and "j \<in> set (write_queue s) \<Longrightarrow> wj_request_id j \<notin> unreliable s \<Longrightarrow>
          X (wj_request_id j) (job_layer j) = Some (wj_payload j)"
    and "X rid layer = Some rows \<Longrightarrow> rid \<notin> unreliable s \<Longrightarrow> (rid, layer) \<notin> P \<Longrightarrow>
          (rid, layer) \<notin> job_slot ` set (write_queue s) \<Longrightarrow> copy_at e s (key_of e N rid) layer = Some rows"
    and "inflight_layers s (k, layer) = Some rows \<Longrightarrow>
          \<exists>rid. k = key_of e N rid \<and> (rid, layer) \<in> P \<union> job_slot ` set (write_queue s)
             \<and> (rid \<notin> unreliable s \<longrightarrow> X rid layer = Some rows)"
proof -
  note c = assms [unfolded copies_ok_def]
  show "mem_inv e N s" "distinct (map job_slot (write_queue s))" using c by simp_all
  show "wj_kind j = Layer_job \<and> wj_layer_name j = Some (job_layer j) \<and> wj_namespace j = N (wj_request_id j)"
    if "j \<in> set (write_queue s)" using c that by simp
  show "X (wj_request_id j) (job_layer j) = Some (wj_payload j)"
    if "j \<in> set (write_queue s)" "wj_request_id j \<notin> unreliable s" using c that by simp
  show "copy_at e s (key_of e N rid) layer = Some rows"
    if "X rid layer = Some rows" "rid \<notin> unreliable s" "(rid, layer) \<notin> P"
      "(rid, layer) \<notin> job_slot ` set (write_queue s)"
    using c that by blast
  show "\<exists>rid. k = key_of e N rid \<and> (rid, layer) \<in> P \<union> job_slot ` set (write_queue s)
             \<and> (rid \<notin> unreliable s \<longrightarrow> X rid layer = Some rows)"
    if "inflight_layers s (k, layer) = Some rows" using c that by blast
qed

text \<open>The writer runs the job at the head of the queue: what the step does to the state.\<close>

lemma layer_step_effect:
  assumes inv: "mem_inv e N s" and inj: "inj (key_of e N)" and head: "write_queue s = j # q"
    and job: "wj_kind j = Layer_job" "wj_layer_name j = Some (job_layer j)" "wj_namespace j = N (wj_request_id j)"
  defines "u \<equiv> writer_step e s"
  shows "mem_inv e N u" and "same_capture (s\<lparr>write_queue := q\<rparr>) u" and "unreliable s \<subseteq> unreliable u"
    and "inflight_layers u = (inflight_layers s)((job_key e j, job_layer j) := None)"
    and "record_at u k' = record_at s k' \<or> record_at u k' = None"
    and "rid \<notin> unreliable u \<Longrightarrow> copy_at e u (key_of e N rid) layer =
        (if rid = wj_request_id j \<and> layer = job_layer j then Some (wj_payload j)
         else copy_at e s (key_of e N rid) layer)"
proof -
  define s0 where "s0 = s\<lparr>write_queue := q\<rparr>"
  obtain r t where out: "write_captured_layer e j s0 = (r, t)" by fastforce
  have inv0: "mem_inv e N s0" using inv by (simp add: mem_inv_def s0_def)
  note ef = write_layer_effect [OF inv0 job(3) inj out]
  have u: "u = (case r of None \<Rightarrow> t | Some x \<Rightarrow> record_write_error e j x t)"
    by (simp add: u_def writer_step_def head run_write_job_def job(1) s0_def [symmetric] out split: option.splits)
  have f: "mem_inv e N u" "same_capture s0 u" "\<exists>ev. writer_evicted u = writer_evicted s @ ev"
    "writer_failed_requests s \<subseteq> writer_failed_requests u" "writer_evicted u = writer_evicted t"
    "r \<noteq> None \<Longrightarrow> wj_request_id j \<in> writer_failed_requests u"
    "inflight_layers u = (inflight_layers s)((job_key e j, job_layer j) := None)"
    "copy_at e u = copy_at e t" "\<And>k'. record_at u k' = record_at s k' \<or> record_at u k' = None"
    using ef(1-6,8) record_write_error_fields [where e = e and j = j and s = t] job(2)
    by (auto simp: u mem_inv_def s0_def same_capture_def split: option.splits)
  show "mem_inv e N u" "inflight_layers u = (inflight_layers s)((job_key e j, job_layer j) := None)"
    "record_at u k' = record_at s k' \<or> record_at u k' = None" by (fact f)+
  show "same_capture (s\<lparr>write_queue := q\<rparr>) u" using f(2) by (simp add: s0_def)
  have failed: "capture_write_failed u = capture_write_failed s"
    using f(2) by (simp add: same_capture_def s0_def)
  show "unreliable s \<subseteq> unreliable u" using f(3,4) failed by (auto simp: unreliable_def)
  show "copy_at e u (key_of e N rid) layer =
      (if rid = wj_request_id j \<and> layer = job_layer j then Some (wj_payload j)
       else copy_at e s (key_of e N rid) layer)" if "rid \<notin> unreliable u"
  proof -
    have "rid \<notin> set (writer_evicted t)" "r = None \<or> rid \<noteq> wj_request_id j"
      using that f(6) by (auto simp: unreliable_def f(5))
    then have "copy_at e t (key_of e N rid) layer =
      (if rid = wj_request_id j \<and> layer = job_layer j then Some (wj_payload j)
       else copy_at e s0 (key_of e N rid) layer)" by (rule ef(7))
    then show ?thesis by (simp add: f(8) s0_def)
  qed
qed

text \<open>Whatever does that to the state keeps the copies: the layer's rows move from the queue to the store.\<close>

lemma copies_ok_served:
  assumes ok: "copies_ok e N X P s" and head: "write_queue s = j # q" and queue: "write_queue u = q" and inv: "mem_inv e N u"
    and mono: "unreliable s \<subseteq> unreliable u"
    and fly: "inflight_layers u = (inflight_layers s)((job_key e j, job_layer j) := None)"
    and copy: "\<And>rid layer. rid \<notin> unreliable u \<Longrightarrow> copy_at e u (key_of e N rid) layer =
        (if rid = wj_request_id j \<and> layer = job_layer j then Some (wj_payload j)
         else copy_at e s (key_of e N rid) layer)"
  shows "copies_ok e N X P u"
proof -
  have ns: "wj_namespace j = N (wj_request_id j)" using copies_okD(3) [OF ok, of j] by (simp add: head)
  have jX: "X (wj_request_id j) (job_layer j) = Some (wj_payload j)" if "wj_request_id j \<notin> unreliable u"
    using copies_okD(4) [OF ok, of j] that mono by (auto simp: head)
  have inst: "copy_at e u (key_of e N rid) layer = Some rows"
    if "X rid layer = Some rows" "rid \<notin> unreliable u" "(rid, layer) \<notin> P" "(rid, layer) \<notin> job_slot ` set q"
    for rid layer rows
  proof (cases "(rid, layer) = job_slot j")
    case True
    then show ?thesis using copy [OF that(2), of layer] jX that(1,2) by simp
  next
    case False
    have "(rid, layer) \<notin> job_slot ` set (write_queue s)" using False that(4) by (simp add: head)
    moreover have "rid \<notin> unreliable s" using that(2) mono by blast
    ultimately have "copy_at e s (key_of e N rid) layer = Some rows"
      using copies_okD(5) [OF ok that(1) _ that(3)] by blast
    then show ?thesis using copy [OF that(2), of layer] False by auto
  qed
  have staged: "\<exists>rid. k = key_of e N rid \<and> (rid, layer) \<in> P \<union> job_slot ` set q
           \<and> (rid \<notin> unreliable u \<longrightarrow> X rid layer = Some rows)"
    if "inflight_layers u (k, layer) = Some rows" for k layer rows
  proof -
    have ne: "(k, layer) \<noteq> (job_key e j, job_layer j)" and "inflight_layers s (k, layer) = Some rows"
      using that by (auto simp: fly split: if_splits)
    then obtain rid where rid: "k = key_of e N rid" "(rid, layer) \<in> P \<union> job_slot ` set (j # q)"
      "rid \<notin> unreliable s \<longrightarrow> X rid layer = Some rows"
      using copies_okD(6) [OF ok] unfolding head by blast
    moreover have "job_slot j \<noteq> (rid, layer)" using ne rid(1) ns by (auto simp: job_key_def key_of_def)
    ultimately show ?thesis using mono by auto
  qed
  show ?thesis unfolding copies_ok_def queue
  proof (intro conjI)
    show "\<forall>j\<in>set q. wj_kind j = Layer_job \<and> wj_layer_name j = Some (job_layer j)
        \<and> wj_namespace j = N (wj_request_id j)"
      using copies_okD(3) [OF ok] by (simp add: head)
    show "distinct (map job_slot q)" using copies_okD(2) [OF ok] by (simp add: head)
    show "\<forall>j\<in>set q. wj_request_id j \<notin> unreliable u \<longrightarrow>
        X (wj_request_id j) (job_layer j) = Some (wj_payload j)"
      using copies_okD(4) [OF ok] mono by (auto simp: head)
  qed (use inv inst staged in blast)+
qed

lemma copies_ok_step:
  assumes ok: "copies_ok e N X P s" and inj: "inj (key_of e N)"
    and P: "P \<inter> job_slot ` set (write_queue s) = {}"
  shows "copies_ok e N X P (writer_step e s)"
    and "write_queue (writer_step e s) = tl (write_queue s)"
    and "record_at (writer_step e s) k' = record_at s k' \<or> record_at (writer_step e s) k' = None"
    and "unreliable s \<subseteq> unreliable (writer_step e s)"
    and "same_capture (s\<lparr>write_queue := tl (write_queue s)\<rparr>) (writer_step e s)"
proof -
  have all: "copies_ok e N X P (writer_step e s) \<and> write_queue (writer_step e s) = tl (write_queue s)
    \<and> (\<forall>k'. record_at (writer_step e s) k' = record_at s k' \<or> record_at (writer_step e s) k' = None)
    \<and> unreliable s \<subseteq> unreliable (writer_step e s)
    \<and> same_capture (s\<lparr>write_queue := tl (write_queue s)\<rparr>) (writer_step e s)"
  proof (cases "write_queue s")
    case Nil
    then show ?thesis using ok by (simp add: writer_step_def same_capture_def)
  next
    case (Cons j q)
    have job: "wj_kind j = Layer_job" "wj_layer_name j = Some (job_layer j)" "wj_namespace j = N (wj_request_id j)"
      using copies_okD(3) [OF ok, of j] by (simp_all add: Cons)
    note ef = layer_step_effect [OF copies_okD(1) [OF ok] inj Cons job]
    have q: "write_queue (writer_step e s) = q" using ef(2) by (simp add: same_capture_def)
    have "copies_ok e N X P (writer_step e s)" by (rule copies_ok_served [OF ok Cons q ef(1,3,4,6)])
    then show ?thesis using ef(2,3,5) q by (simp add: Cons)
  qed
  then show "copies_ok e N X P (writer_step e s)" "write_queue (writer_step e s) = tl (write_queue s)"
    "record_at (writer_step e s) k' = record_at s k' \<or> record_at (writer_step e s) k' = None"
    "unreliable s \<subseteq> unreliable (writer_step e s)"
    "same_capture (s\<lparr>write_queue := tl (write_queue s)\<rparr>) (writer_step e s)"
    by (blast | simp)+
qed

subsection \<open>The writer's turns\<close>

text \<open>What the writer never touches: the forward thread's own bookkeeping.\<close>

definition kept_capture :: "'z worker_st_scheme \<Rightarrow> 'z worker_st_scheme \<Rightarrow> bool" where
  "kept_capture s s' \<longleftrightarrow>
     capture_progress s' = capture_progress s \<and> capture_base_missing_noted s' = capture_base_missing_noted s
     \<and> worker_skipped_reasons s' = worker_skipped_reasons s
     \<and> (writer_started s \<longrightarrow> writer_started s') \<and> writer_closed s' = writer_closed s
     \<and> capture_namespaces s' = capture_namespaces s
     \<and> finalized_donors s' = finalized_donors s \<and> finalize_pending s' = finalize_pending s
     \<and> capture_write_failed s' = capture_write_failed s"

lemma kept_capture_trans: "kept_capture s t \<Longrightarrow> kept_capture t u \<Longrightarrow> kept_capture s u"
  by (simp add: kept_capture_def)

lemma kept_capture_refl [simp]: "kept_capture s s"
  by (simp add: kept_capture_def)

lemma same_is_kept: "same_capture s t \<Longrightarrow> kept_capture s t"
  by (simp add: same_capture_def kept_capture_def)

lemma worker_fields_eq:
  fixes s t :: "'z worker_st_scheme"
  assumes "audit_st.more t = audit_st.more s"
  shows "memory_store t = memory_store s" "disk t = disk s" "same_capture s t"
    "inflight_layers t = inflight_layers s" "writer_events t = writer_events s"
    "writer_failed_requests t = writer_failed_requests s" "writer_evicted t = writer_evicted s"
    "write_results t = write_results s" "writer_stats t = writer_stats s"
  using assms by (cases s; cases t; simp add: same_capture_def)+

lemma bump_worker [simp]:
  "memory_store (bump k s) = memory_store s" "disk (bump k s) = disk s"
  "inflight_layers (bump k s) = inflight_layers s" "write_queue (bump k s) = write_queue s"
  "writer_failed_requests (bump k s) = writer_failed_requests s" "writer_evicted (bump k s) = writer_evicted s"
  "capture_write_failed (bump k s) = capture_write_failed s" "kept_capture t (bump k s) = kept_capture t s"
  "capture_progress (bump k s) = capture_progress s" "writer_turns (bump k s) = writer_turns s"
  "write_results (bump k s) = write_results s" "finalize_pending (bump k s) = finalize_pending s"
  "queue_blocked_noted (bump k s) = queue_blocked_noted s" "writer_closed (bump k s) = writer_closed s"
  "writer_started (bump k s) = writer_started s" "capture_namespaces (bump k s) = capture_namespaces s"
  "finalized_donors (bump k s) = finalized_donors s"
  "capture_base_missing_noted (bump k s) = capture_base_missing_noted s"
  "worker_skipped_reasons (bump k s) = worker_skipped_reasons s"
  using worker_fields_eq [OF more_bump(1) [of k s]] by (simp_all add: same_capture_def kept_capture_def)

lemma audit_worker [simp]:
  "memory_store (audit e r ev s) = memory_store s" "disk (audit e r ev s) = disk s"
  "inflight_layers (audit e r ev s) = inflight_layers s" "write_queue (audit e r ev s) = write_queue s"
  "writer_failed_requests (audit e r ev s) = writer_failed_requests s"
  "writer_evicted (audit e r ev s) = writer_evicted s"
  "capture_write_failed (audit e r ev s) = capture_write_failed s"
  "kept_capture t (audit e r ev s) = kept_capture t s"
  "capture_progress (audit e r ev s) = capture_progress s" "writer_turns (audit e r ev s) = writer_turns s"
  "write_results (audit e r ev s) = write_results s" "finalize_pending (audit e r ev s) = finalize_pending s"
  "writer_closed (audit e r ev s) = writer_closed s" "writer_started (audit e r ev s) = writer_started s"
  "capture_namespaces (audit e r ev s) = capture_namespaces s"
  "finalized_donors (audit e r ev s) = finalized_donors s"
  "capture_base_missing_noted (audit e r ev s) = capture_base_missing_noted s"
  "worker_skipped_reasons (audit e r ev s) = worker_skipped_reasons s"
  using worker_fields_eq [OF more_audit [of e r ev s]] by (simp_all add: same_capture_def kept_capture_def)

lemma unreliable_cong:
  "capture_write_failed t = capture_write_failed s \<Longrightarrow> writer_failed_requests t = writer_failed_requests s
     \<Longrightarrow> writer_evicted t = writer_evicted s \<Longrightarrow> unreliable t = unreliable s"
  by (simp add: unreliable_def)

lemma copies_ok_keep:
  assumes "copies_ok e N X P s"
    and "memory_store t = memory_store s" and "disk t = disk s" and "inflight_layers t = inflight_layers s"
    and "write_queue t = write_queue s" and "capture_write_failed t = capture_write_failed s"
    and "writer_failed_requests t = writer_failed_requests s" and "writer_evicted t = writer_evicted s"
  shows "copies_ok e N X P t"
  using assms(1) by (simp add: copies_ok_def mem_inv_def unreliable_cong [OF assms(6-8)] assms(2-))

lemma copies_ok_run_jobs:
  assumes "copies_ok e N X P s" and inj: "inj (key_of e N)" and "P \<inter> job_slot ` set (write_queue s) = {}"
  shows "copies_ok e N X P (run_jobs e n s) \<and> write_queue (run_jobs e n s) = drop n (write_queue s)
    \<and> (\<forall>k. record_at (run_jobs e n s) k = record_at s k \<or> record_at (run_jobs e n s) k = None)
    \<and> unreliable s \<subseteq> unreliable (run_jobs e n s) \<and> kept_capture s (run_jobs e n s)
    \<and> writer_turns (run_jobs e n s) = writer_turns s"
proof (induction n)
  case 0
  then show ?case using assms by (simp add: run_jobs_def)
next
  case (Suc n)
  define t where "t = run_jobs e n s"
  have t: "copies_ok e N X P t" "write_queue t = drop n (write_queue s)"
    "\<And>k. record_at t k = record_at s k \<or> record_at t k = None" "unreliable s \<subseteq> unreliable t"
    "kept_capture s t" "writer_turns t = writer_turns s"
    using Suc by (simp_all add: t_def)
  have "P \<inter> job_slot ` set (write_queue t) = {}" using assms(3) set_drop_subset [of n "write_queue s"] t(2) by auto
  note st = copies_ok_step [OF t(1) inj this]
  have sc: "kept_capture t (writer_step e t)" "writer_turns (writer_step e t) = writer_turns t"
    using st(5) by (simp_all add: same_capture_def kept_capture_def)
  have "record_at (writer_step e t) k = record_at s k \<or> record_at (writer_step e t) k = None" for k
    using st(3) [of k] t(3) [of k] by metis
  moreover have "run_jobs e (Suc n) s = writer_step e t" by (simp add: run_jobs_def t_def)
  ultimately show ?case
    using st(1,2,4) sc kept_capture_trans [OF t(5) sc(1)] t(2,4,6) by (simp add: tl_drop drop_Suc)
qed

lemma take_turn_fields:
  assumes "take_turn s = (n, t)"
  shows "t = s\<lparr>writer_turns := tl (writer_turns s)\<rparr>"
  using assms by (auto simp: take_turn_def split: list.splits)

text \<open>Any number of the writer's jobs, before whatever the forward thread does next.\<close>

lemma copies_ok_turn:
  assumes ok: "copies_ok e N X P s" and inj: "inj (key_of e N)" and P: "P \<inter> job_slot ` set (write_queue s) = {}"
  shows "copies_ok e N X P (writer_turn e s)" and "\<exists>n. write_queue (writer_turn e s) = drop n (write_queue s)"
    and "record_at (writer_turn e s) k = record_at s k \<or> record_at (writer_turn e s) k = None"
    and "unreliable s \<subseteq> unreliable (writer_turn e s)" and "kept_capture s (writer_turn e s)"
proof -
  obtain n t where turn: "take_turn s = (n, t)" by fastforce
  note t = take_turn_fields [OF turn]
  have same: "unreliable t = unreliable s" "kept_capture s t"
    by (simp_all add: t unreliable_def kept_capture_def)
  have okt: "copies_ok e N X P t" by (rule copies_ok_keep [OF ok]) (simp_all add: t)
  have Pt: "P \<inter> job_slot ` set (write_queue t) = {}" using P by (simp add: t)
  have w: "writer_turn e s = run_jobs e n t" by (simp add: writer_turn_def turn)
  note r = copies_ok_run_jobs [OF okt inj Pt, of n]
  show "copies_ok e N X P (writer_turn e s)" "unreliable s \<subseteq> unreliable (writer_turn e s)"
    "kept_capture s (writer_turn e s)"
    using r same kept_capture_trans [OF same(2)] by (auto simp: w)
  have "write_queue (writer_turn e s) = drop n (write_queue s)" using r by (simp add: w t)
  then show "\<exists>n. write_queue (writer_turn e s) = drop n (write_queue s)" ..
  have "record_at (writer_turn e s) k = record_at t k \<or> record_at (writer_turn e s) k = None"
    using r unfolding w by simp
  then show "record_at (writer_turn e s) k = record_at s k \<or> record_at (writer_turn e s) k = None"
    by (simp add: t)
qed

subsection \<open>Handing a layer over\<close>

lemma copies_ok_put:
  assumes ok: "copies_ok e N X P s" and new: "job_slot j \<notin> job_slot ` set (write_queue s)"
    and job: "wj_kind j = Layer_job" "wj_layer_name j = Some (job_layer j)" "wj_namespace j = N (wj_request_id j)"
    and X: "wj_request_id j \<notin> unreliable s \<Longrightarrow> X (wj_request_id j) (job_layer j) = Some (wj_payload j)"
  shows "copies_ok e N X (P - {job_slot j}) (put_job j s)"
proof -
  let ?q = "write_queue s"
  have u: "unreliable (put_job j s) = unreliable s" by (simp add: put_job_def unreliable_def)
  have q: "write_queue (put_job j s) = ?q @ [j]" by (simp add: put_job_def)
  have set: "job_slot ` set (?q @ [j]) = insert (job_slot j) (job_slot ` set ?q)" by simp
  have m: "mem_inv e N (put_job j s)" using copies_okD(1) [OF ok] by (simp add: put_job_def mem_inv_def)
  have inst: "copy_at e (put_job j s) (key_of e N rid) layer = Some rows"
    if "X rid layer = Some rows" "rid \<notin> unreliable s" "(rid, layer) \<notin> P - {job_slot j}"
      "(rid, layer) \<notin> insert (job_slot j) (job_slot ` set ?q)" for rid layer rows
    using copies_okD(5) [OF ok that(1,2)] that(3,4) by (auto simp: put_job_def)
  have fly: "\<exists>rid. k = key_of e N rid \<and> (rid, layer) \<in> (P - {job_slot j}) \<union> insert (job_slot j) (job_slot ` set ?q)
             \<and> (rid \<notin> unreliable s \<longrightarrow> X rid layer = Some rows)"
    if "inflight_layers (put_job j s) (k, layer) = Some rows" for k layer rows
    using copies_okD(6) [OF ok, of k layer rows] that by (auto simp: put_job_def)
  show ?thesis
    unfolding copies_ok_def q u set
  proof (intro conjI)
    show "\<forall>j' \<in> set (?q @ [j]). wj_kind j' = Layer_job \<and> wj_layer_name j' = Some (job_layer j')
          \<and> wj_namespace j' = N (wj_request_id j')"
      using copies_okD(3) [OF ok] job by simp
    show "distinct (map job_slot (?q @ [j]))" using copies_okD(2) [OF ok] new by simp
    show "\<forall>j' \<in> set (?q @ [j]). wj_request_id j' \<notin> unreliable s \<longrightarrow>
          X (wj_request_id j') (job_layer j') = Some (wj_payload j')"
      using copies_okD(4) [OF ok] X by simp
  qed (use m inst fly in blast)+
qed

text \<open>What a submission leaves: the job queued behind what is left of the queue, and every copy still good.\<close>

definition submitted ::
  "'p env \<Rightarrow> (string \<Rightarrow> string) \<Rightarrow> (string \<Rightarrow> string \<Rightarrow> kv_rows option) \<Rightarrow> (string \<times> string) set
     \<Rightarrow> write_job \<Rightarrow> 'z worker_st_scheme \<Rightarrow> 'z worker_st_scheme \<Rightarrow> bool" where
  "submitted e N X P j s u \<longleftrightarrow> copies_ok e N X (P - {job_slot j}) u \<and> length (write_queue u) \<le> queue_depth e
     \<and> (\<exists>n. write_queue u = drop n (write_queue s) @ [j])
     \<and> (\<forall>k. record_at u k = record_at s k \<or> record_at u k = None)
     \<and> unreliable s \<subseteq> unreliable u \<and> kept_capture s u \<and> (writer_started s \<longrightarrow> writer_started u)"

text \<open>There is room: the job is put.\<close>

lemma submitted_put:
  assumes ok: "copies_ok e N X P s" and new: "job_slot j \<notin> job_slot ` set (write_queue s)"
    and job: "wj_kind j = Layer_job" "wj_layer_name j = Some (job_layer j)" "wj_namespace j = N (wj_request_id j)"
    and X: "wj_request_id j \<notin> unreliable s \<Longrightarrow> X (wj_request_id j) (job_layer j) = Some (wj_payload j)"
    and room: "length (write_queue s) < queue_depth e"
  shows "submitted e N X P j s (put_job j s)"
proof -
  have "copies_ok e N X (P - {job_slot j}) (put_job j s)" by (rule copies_ok_put [OF ok new job X])
  moreover have "unreliable (put_job j s) = unreliable s" by (simp add: put_job_def unreliable_def)
  ultimately show ?thesis
    using room by (auto simp: submitted_def put_job_def kept_capture_def intro: exI [of _ 0])
qed

lemma submitted_noted:
  assumes "submitted e N X P j s u"
  shows "submitted e N X P j s (note_write_queue_blocked e j u)" (is "submitted _ _ _ _ _ _ ?t")
proof -
  have t: "memory_store ?t = memory_store u" "disk ?t = disk u" "inflight_layers ?t = inflight_layers u"
    "write_queue ?t = write_queue u" "capture_write_failed ?t = capture_write_failed u"
    "writer_failed_requests ?t = writer_failed_requests u" "writer_evicted ?t = writer_evicted u"
    "kept_capture u ?t"
    by (simp_all add: note_write_queue_blocked_def Let_def kept_capture_def)
  have "copies_ok e N X (P - {job_slot j}) ?t"
    by (rule copies_ok_keep [of _ _ _ _ u]) (use assms in \<open>simp_all add: submitted_def t(1-7)\<close>)
  moreover have "unreliable ?t = unreliable u" by (rule unreliable_cong [OF t(5-7)])
  moreover have "kept_capture s ?t" using assms kept_capture_trans [OF _ t(8)] by (simp add: submitted_def)
  ultimately show ?thesis using assms t(8) by (simp add: submitted_def t(2,4)) (simp add: kept_capture_def)
qed

lemma submitted_after:
  assumes sub: "submitted e N X P j s' u"
    and q: "write_queue s' = drop n (write_queue s)"
    and r: "\<And>k. record_at s' k = record_at s k \<or> record_at s' k = None"
    and un: "unreliable s \<subseteq> unreliable s'" and kept: "kept_capture s s'"
  shows "submitted e N X P j s u"
proof -
  have "record_at u k = record_at s k \<or> record_at u k = None" for k
  proof -
    have "record_at u k = record_at s' k \<or> record_at u k = None" using sub unfolding submitted_def by (elim conjE allE)
    then show ?thesis using r [of k] by (elim disjE) simp_all
  qed
  moreover have "kept_capture s u" using kept_capture_trans [OF kept] sub by (simp add: submitted_def)
  moreover have "\<exists>n. write_queue u = drop n (write_queue s) @ [j]" using sub q by (auto simp: submitted_def)
  ultimately show ?thesis using sub un kept by (auto simp: submitted_def kept_capture_def)
qed

text \<open>The queue is full: the forward thread waits, the writer runs a job, and there is room.\<close>

lemma submitted_blocked:
  assumes ok: "copies_ok e N X P s" and inj: "inj (key_of e N)" and P: "P \<inter> job_slot ` set (write_queue s) = {}"
    and new: "job_slot j \<notin> job_slot ` set (write_queue s)"
    and job: "wj_kind j = Layer_job" "wj_layer_name j = Some (job_layer j)" "wj_namespace j = N (wj_request_id j)"
    and X: "wj_request_id j \<notin> unreliable s \<Longrightarrow> X (wj_request_id j) (job_layer j) = Some (wj_payload j)"
    and len: "length (write_queue s) \<le> queue_depth e" and turn: "take_turn s = (n, s2)"
  defines "s3 \<equiv> run_jobs e (max 1 n) s2"
  shows "length (write_queue s3) < queue_depth e"
    and "submitted e N X P j s (note_write_queue_blocked e j (put_job j s3))"
proof -
  note s2 = take_turn_fields [OF turn]
  have ok2: "copies_ok e N X P s2" by (rule copies_ok_keep [OF ok]) (simp_all add: s2)
  have P2: "P \<inter> job_slot ` set (write_queue s2) = {}" using P by (simp add: s2)
  have u2: "unreliable s2 = unreliable s" by (simp add: s2 unreliable_def)
  note r = copies_ok_run_jobs [OF ok2 inj P2, of "max 1 n", folded s3_def]
  have q3: "write_queue s3 = drop (max 1 n) (write_queue s)" using r by (simp add: s2)
  show room: "length (write_queue s3) < queue_depth e" using len by (simp add: q3 queue_depth_def)
  have new3: "job_slot j \<notin> job_slot ` set (write_queue s3)"
    using new set_drop_subset [of "max 1 n" "write_queue s"] unfolding q3 by blast
  have ok3: "copies_ok e N X P s3" and u3: "unreliable s \<subseteq> unreliable s3" using r u2 by simp_all
  have X3: "X (wj_request_id j) (job_layer j) = Some (wj_payload j)" if "wj_request_id j \<notin> unreliable s3"
    using X that u3 by blast
  have k3: "kept_capture s s3" by (rule kept_capture_trans [of _ s2]) (use r in \<open>auto simp: s2 kept_capture_def\<close>)
  have r3: "record_at s3 k = record_at s k \<or> record_at s3 k = None" for k using r by (simp add: s2)
  show "submitted e N X P j s (note_write_queue_blocked e j (put_job j s3))"
    by (rule submitted_noted [OF submitted_after [OF submitted_put [OF ok3 new3 job X3 room] q3 r3 u3 k3]])
qed

text \<open>While the writer is open, submitting a layer never fails: a full queue waits for a job to run.\<close>

lemma submit_write_open:
  assumes ok: "copies_ok e N X P s" and inj: "inj (key_of e N)" and P: "P \<inter> job_slot ` set (write_queue s) = {}"
    and new: "job_slot j \<notin> job_slot ` set (write_queue s)"
    and job: "wj_kind j = Layer_job" "wj_layer_name j = Some (job_layer j)" "wj_namespace j = N (wj_request_id j)"
    and X: "wj_request_id j \<notin> unreliable s \<Longrightarrow> X (wj_request_id j) (job_layer j) = Some (wj_payload j)"
    and len: "length (write_queue s) \<le> queue_depth e" and opened: "\<not> writer_closed s"
  defines "u \<equiv> submit_write e False j s"
  shows "copies_ok e N X (P - {job_slot j}) u" and "length (write_queue u) \<le> queue_depth e"
    and "\<exists>n. write_queue u = drop n (write_queue s) @ [j]"
    and "record_at u k = record_at s k \<or> record_at u k = None"
    and "unreliable s \<subseteq> unreliable u" and "kept_capture s u" and "writer_started u"
proof -
  define s0 where "s0 = s\<lparr>writer_started := True\<rparr>"
  have s0: "copies_ok e N X P s0" "write_queue s0 = write_queue s" "unreliable s0 = unreliable s"
    "kept_capture s s0" "disk s0 = disk s" "writer_started s0"
    by (rule copies_ok_keep [OF ok]) (simp_all add: s0_def unreliable_def kept_capture_def)
  have P0: "P \<inter> job_slot ` set (write_queue s0) = {}" using P by (simp add: s0(2))
  define s1 where "s1 = writer_turn e s0"
  note t1 = copies_ok_turn [OF s0(1) inj P0, folded s1_def]
  obtain n1 where q1: "write_queue s1 = drop n1 (write_queue s)" using t1(2) s0(2) by auto
  have sub1: "set (write_queue s1) \<subseteq> set (write_queue s)" by (simp add: q1 set_drop_subset)
  have new1: "job_slot j \<notin> job_slot ` set (write_queue s1)" and P1: "P \<inter> job_slot ` set (write_queue s1) = {}"
    using new P sub1 by blast+
  have k1: "kept_capture s s1" by (rule kept_capture_trans [OF s0(4) t1(5)])
  have u1: "unreliable s \<subseteq> unreliable s1" using t1(4) s0(3) by simp
  have r1: "record_at s1 k = record_at s k \<or> record_at s1 k = None" for k using t1(3) [of k] s0(5) by simp
  have X1: "X (wj_request_id j) (job_layer j) = Some (wj_payload j)" if "wj_request_id j \<notin> unreliable s1"
    using X that u1 by blast
  have len1: "length (write_queue s1) \<le> queue_depth e" using len by (simp add: q1)
  obtain n s2 where turn: "take_turn s1 = (n, s2)" by fastforce
  note blocked = submitted_blocked [OF t1(1) inj P1 new1 job X1 len1 turn]
  have "u = (if length (write_queue s1) < queue_depth e then put_job j s1
             else note_write_queue_blocked e j (put_job j (run_jobs e (max 1 n) s2)))"
    using opened blocked(1) by (simp add: u_def submit_write_def s1_def s0_def Let_def turn [unfolded s1_def s0_def])
  then have "submitted e N X P j s1 u"
    using submitted_put [OF t1(1) new1 job X1] blocked(2) by simp
  then have sub: "submitted e N X P j s u" by (rule submitted_after [OF _ q1 r1 u1 k1])
  show "copies_ok e N X (P - {job_slot j}) u" "length (write_queue u) \<le> queue_depth e"
    "\<exists>n. write_queue u = drop n (write_queue s) @ [j]" "unreliable s \<subseteq> unreliable u" "kept_capture s u"
    using sub unfolding submitted_def by blast+
  show "record_at u k = record_at s k \<or> record_at u k = None" using sub unfolding submitted_def by (elim conjE allE)
  have "writer_started s1" using t1(5) s0(6) by (simp add: kept_capture_def)
  then show "writer_started u" using \<open>submitted e N X P j s1 u\<close> by (simp add: submitted_def)
qed

subsection \<open>Capturing a layer\<close>

text \<open>
  \<open>T rid layer i\<close> is the row the model computed for token \<open>i\<close>. A layer captured up to \<open>n\<close> tokens is
  expected to hold the first \<open>n\<close> of them.
\<close>

type_synonym kv_truth = "string \<Rightarrow> string \<Rightarrow> nat \<Rightarrow> int"

definition expect ::
  "kv_truth \<Rightarrow> (string \<rightharpoonup> (string, int) odict) \<Rightarrow> string \<Rightarrow> string \<Rightarrow> kv_rows option" where
  "expect T pr rid layer =
     (case pr rid of None \<Rightarrow> None
      | Some p \<Rightarrow> map_option (\<lambda>n. map (T rid layer) [0..<nat n]) (od_get p layer))"

definition named_by :: "(string \<Rightarrow> string) \<Rightarrow> (string, string) odict \<Rightarrow> bool" where
  "named_by N m \<longleftrightarrow> (\<forall>rid ns. od_get m rid = Some ns \<longrightarrow> ns = N rid)"

lemma named_by_set: "named_by N m \<Longrightarrow> named_by N (od_set m rid (N rid))"
  by (simp add: named_by_def)

lemma named_by_pop: "named_by N m \<Longrightarrow> named_by N (od_pop m rid)"
  by (simp add: named_by_def)

definition capture_inv :: "'p env \<Rightarrow> (string \<Rightarrow> string) \<Rightarrow> kv_truth \<Rightarrow> 'z worker_st_scheme \<Rightarrow> bool" where
  "capture_inv e N T s \<longleftrightarrow> copies_ok e N (expect T (capture_progress s)) {} s
     \<and> length (write_queue s) \<le> queue_depth e \<and> \<not> writer_closed s
     \<and> (\<forall>rid p layer n. capture_progress s rid = Some p \<longrightarrow> od_get p layer = Some n \<longrightarrow> 0 < n)
     \<and> (\<forall>rid p. capture_progress s rid = Some p \<longrightarrow> od_wf p \<and> p \<noteq> []
          \<and> od_get (capture_namespaces s) rid = Some (N rid))
     \<and> (writer_started s \<or> write_queue s = [] \<and> capture_progress s = Map.empty)
     \<and> named_by N (capture_namespaces s)"

text \<open>The cache holds, at the slots of the store's tokens, the rows the model computed for them.\<close>

definition cache_holds ::
  "'p env \<Rightarrow> kv_truth \<Rightarrow> pending_store \<Rightarrow> block_table \<Rightarrow> string \<Rightarrow> nat \<times> layer_cache \<Rightarrow> bool" where
  "cache_holds e T st blocks layer kv \<longleftrightarrow>
     (\<forall>i < nat (ps_token_count st).
        cell (fst kv) (snd kv) (slot_at (e_block_size e) (blocks ! 0) i) = T (ps_request_id st) layer i)"

lemma copies_ok_stage:
  assumes ok: "copies_ok e N X {} s" and new: "(rid, layer) \<notin> job_slot ` set (write_queue s)"
    and inj: "inj (key_of e N)" and v: "rid \<notin> unreliable s \<Longrightarrow> v = Some rows"
  shows "copies_ok e N (X(rid := (X rid)(layer := v))) {(rid, layer)}
      (s\<lparr>inflight_layers := (inflight_layers s)((key_of e N rid, layer) \<mapsto> rows)\<rparr>)"
proof -
  let ?X = "X(rid := (X rid)(layer := v))"
  let ?t = "s\<lparr>inflight_layers := (inflight_layers s)((key_of e N rid, layer) \<mapsto> rows)\<rparr>"
  have u: "unreliable ?t = unreliable s" by (simp add: unreliable_def)
  have other: "?X r l = X r l" if "(r, l) \<noteq> (rid, layer)" for r l using that by auto
  have "?X (wj_request_id j) (job_layer j) = X (wj_request_id j) (job_layer j)" if "j \<in> set (write_queue s)" for j
    by (rule other) (use new that in force)
  moreover have "copy_at e ?t (key_of e N r) l = Some x"
    if "?X r l = Some x" "r \<notin> unreliable s" "(r, l) \<notin> {(rid, layer)}" "(r, l) \<notin> job_slot ` set (write_queue s)" for r l x
    using copies_okD(5) [OF ok, of r l x] that other [of r l] by simp
  moreover have "\<exists>r. k = key_of e N r \<and> (r, l) \<in> {(rid, layer)} \<union> job_slot ` set (write_queue s)
      \<and> (r \<notin> unreliable s \<longrightarrow> ?X r l = Some x)" if "inflight_layers ?t (k, l) = Some x" for k l x
  proof (cases "(k, l) = (key_of e N rid, layer)")
    case True
    then show ?thesis using that v by (intro exI [of _ rid]) auto
  next
    case False
    then have "inflight_layers s (k, l) = Some x" using that by auto
    then obtain r where r: "k = key_of e N r" "(r, l) \<in> job_slot ` set (write_queue s)"
      "r \<notin> unreliable s \<longrightarrow> X r l = Some x"
      using copies_okD(6) [OF ok] by blast
    then have "(r, l) \<noteq> (rid, layer)" using new by auto
    then show ?thesis using r other [of r l] by (intro exI [of _ r]) simp
  qed
  ultimately show ?thesis
    using ok unfolding copies_ok_def u by (simp add: mem_inv_def)
qed

lemma captured_layer_base:
  assumes ok: "copies_ok e N X {} s" and inj: "inj (key_of e N)"
    and new: "(ps_request_id st, layer) \<notin> job_slot ` set (write_queue s)"
    and ns: "ps_namespace st = N (ps_request_id st)"
    and out: "captured_layer e st layer s = (base, t)"
    and X: "X (ps_request_id st) layer = Some rows"
  shows "copies_ok e N X {} t" and "\<exists>n. write_queue t = drop n (write_queue s)"
    and "record_at t k = record_at s k \<or> record_at t k = None"
    and "unreliable s \<subseteq> unreliable t" and "kept_capture s t"
    and "ps_request_id st \<notin> unreliable t \<Longrightarrow> base = Some rows"
proof -
  let ?rid = "ps_request_id st"
  have all: "copies_ok e N X {} t \<and> (\<exists>n. write_queue t = drop n (write_queue s))
      \<and> (\<forall>k. record_at t k = record_at s k \<or> record_at t k = None)
      \<and> unreliable s \<subseteq> unreliable t \<and> kept_capture s t \<and> (?rid \<notin> unreliable t \<longrightarrow> base = Some rows)"
  proof (cases "?rid \<in> capture_write_failed s")
    case True
    then have "t = s" "?rid \<in> unreliable s" using out by (simp_all add: captured_layer_def unreliable_def)
    then show ?thesis using ok by (auto intro: exI [of _ 0])
  next
    case False
    have P: "{} \<inter> job_slot ` set (write_queue s) = {}" by simp
    note w = copies_ok_turn [OF ok inj P]
    have k: "storage_key e ?rid (ps_namespace st) = key_of e N ?rid" by (simp add: key_of_def ns)
    have t: "t = writer_turn e s" and base: "base = (case inflight_layers t (key_of e N ?rid, layer) of
         Some rows \<Rightarrow> Some rows | None \<Rightarrow> copy_at e t (key_of e N ?rid) layer)"
      using out False unfolding captured_layer_def Let_def k stored_def by auto
    obtain n where q: "write_queue t = drop n (write_queue s)" using w(2) by (auto simp: t)
    have new': "(?rid, layer) \<notin> job_slot ` set (write_queue t)"
      using new set_drop_subset [of n "write_queue s"] unfolding q by blast
    have okt: "copies_ok e N X {} t" using w(1) by (simp add: t)
    have none: "inflight_layers t (key_of e N ?rid, layer) = None"
    proof (rule ccontr)
      assume "inflight_layers t (key_of e N ?rid, layer) \<noteq> None"
      then obtain r where "inflight_layers t (key_of e N ?rid, layer) = Some r" by blast
      then obtain rid where "key_of e N ?rid = key_of e N rid" "(rid, layer) \<in> job_slot ` set (write_queue t)"
        using copies_okD(6) [OF okt] by blast
      then show False using inj new' by (auto dest: injD)
    qed
    have "?rid \<notin> unreliable t \<Longrightarrow> base = Some rows"
      using copies_okD(5) [OF okt X] new' by (simp add: base none)
    then show ?thesis using w q okt by (auto simp: t)
  qed
  then show "copies_ok e N X {} t" "\<exists>n. write_queue t = drop n (write_queue s)"
    "unreliable s \<subseteq> unreliable t" "kept_capture s t" "?rid \<notin> unreliable t \<Longrightarrow> base = Some rows"
    "record_at t k = record_at s k \<or> record_at t k = None"
    by (blast | simp)+
qed

lemma note_base_missing_fields:
  "memory_store (note_capture_base_missing e st layer n s) = memory_store s"
  "disk (note_capture_base_missing e st layer n s) = disk s"
  "inflight_layers (note_capture_base_missing e st layer n s) = inflight_layers s"
  "write_queue (note_capture_base_missing e st layer n s) = write_queue s"
  "capture_write_failed (note_capture_base_missing e st layer n s) = capture_write_failed s"
  "writer_failed_requests (note_capture_base_missing e st layer n s) = writer_failed_requests s"
  "writer_evicted (note_capture_base_missing e st layer n s) = writer_evicted s"
  "capture_progress (note_capture_base_missing e st layer n s) = capture_progress s"
  "capture_namespaces (note_capture_base_missing e st layer n s) = capture_namespaces s"
  "writer_closed (note_capture_base_missing e st layer n s) = writer_closed s"
  "writer_started (note_capture_base_missing e st layer n s) = writer_started s"
  "finalize_pending (note_capture_base_missing e st layer n s) = finalize_pending s"
  "finalized_donors (note_capture_base_missing e st layer n s) = finalized_donors s"
  by (simp_all add: note_capture_base_missing_def Let_def)

text \<open>The rows of a layer after a chunk: what was there, and the window it adds.\<close>

lemma captured_rows:
  assumes b: "0 < e_block_size e" and s0: "0 \<le> start" and n: "start < ps_token_count st"
    and sm: "slot_mapping e blocks (ps_token_count st - start) start s = (Inr slots, s')"
    and holds: "cache_holds e T st blocks layer kv"
  shows "map (T (ps_request_id st) layer) [0..<nat start] @ extract_kv (fst kv) (snd kv) slots
      = map (T (ps_request_id st) layer) [0..<nat (ps_token_count st)]"
    and "start + len slots = ps_token_count st" and "s' = s"
proof -
  let ?n = "ps_token_count st"
  have n0: "0 \<le> ?n - start" using n by simp
  have sl: "slots = map (slot_at (e_block_size e) (blocks ! 0)) [nat start..<nat ?n]"
    using slot_mapping_slots [OF b s0 n0 sm] by simp
  show "s' = s" by (rule slot_mapping_Inr(1) [OF b s0 n0 sm])
  show "start + len slots = ?n" using s0 n by (simp add: sl)
  have "extract_kv (fst kv) (snd kv) slots = map (T (ps_request_id st) layer) [nat start..<nat ?n]"
    using holds by (simp add: sl extract_kv_def cache_holds_def)
  moreover have "[0..<nat ?n] = [0..<nat start] @ [nat start..<nat ?n]"
    using upt_add_eq_append [of 0 "nat start" "nat ?n - nat start"] n s0 by simp
  ultimately show "map (T (ps_request_id st) layer) [0..<nat start] @ extract_kv (fst kv) (snd kv) slots
      = map (T (ps_request_id st) layer) [0..<nat ?n]" by simp
qed

lemma expect_upd:
  shows "expect T (pr(rid \<mapsto> od_set (case pr rid of None \<Rightarrow> [] | Some p \<Rightarrow> p) layer n))
    = (expect T pr)(rid := (expect T pr rid)(layer := Some (map (T rid layer) [0..<nat n])))"
  by (auto simp: expect_def fun_eq_iff od_get_def [of "[]"] split: option.splits)

lemma capture_invD:
  assumes "capture_inv e N T s"
  shows "copies_ok e N (expect T (capture_progress s)) {} s" and "length (write_queue s) \<le> queue_depth e"
    and "\<not> writer_closed s"
    and "capture_progress s rid = Some p \<Longrightarrow> od_get p layer = Some n \<Longrightarrow> 0 < n"
    and "capture_progress s rid = Some p \<Longrightarrow> od_wf p \<and> p \<noteq> [] \<and> od_get (capture_namespaces s) rid = Some (N rid)"
    and "writer_started s \<or> write_queue s = [] \<and> capture_progress s = Map.empty"
    and "named_by N (capture_namespaces s)"
  using assms unfolding capture_inv_def by blast+

text \<open>
  The pieces of \<open>capture_layer\<close> the proof names: the rows the layer already has, the state after a missing base
  is noted, the token the capture starts again from, and the progress recorded at the end.
\<close>

definition capture_base ::
  "'p env \<Rightarrow> pending_store \<Rightarrow> string \<Rightarrow> 'z worker_st_scheme \<Rightarrow> kv_rows option \<times> 'z worker_st_scheme" where
  "capture_base e st layer s =
     (if 0 < layer_start s (ps_request_id st) layer then captured_layer e st layer s else (None, s))"

definition note_base ::
  "'p env \<Rightarrow> pending_store \<Rightarrow> string \<Rightarrow> int \<Rightarrow> kv_rows option \<Rightarrow> 'z worker_st_scheme \<Rightarrow> 'z worker_st_scheme" where
  "note_base e st layer start base s =
     (if 0 < start \<and> base = None
      then note_capture_base_missing e st layer start (bump (SW Layer_capture_base_missing) s) else s)"

definition restart_at :: "int \<Rightarrow> kv_rows option \<Rightarrow> int" where
  "restart_at start base = (if 0 < start \<and> base = None then 0 else start)"

definition note_progress ::
  "pending_store \<Rightarrow> string \<Rightarrow> int \<Rightarrow> (string, int) odict \<Rightarrow> 'z worker_st_scheme \<Rightarrow> 'z worker_st_scheme" where
  "note_progress st layer n p s =
     s\<lparr>capture_namespaces := od_set (capture_namespaces s) (ps_request_id st) (ps_namespace st),
       capture_progress := (capture_progress s)(ps_request_id st \<mapsto> od_set p layer n)\<rparr>"

lemma note_base_same:
  "memory_store (note_base e st layer start base s) = memory_store s"
  "disk (note_base e st layer start base s) = disk s"
  "inflight_layers (note_base e st layer start base s) = inflight_layers s"
  "write_queue (note_base e st layer start base s) = write_queue s"
  "capture_write_failed (note_base e st layer start base s) = capture_write_failed s"
  "writer_failed_requests (note_base e st layer start base s) = writer_failed_requests s"
  "writer_evicted (note_base e st layer start base s) = writer_evicted s"
  "unreliable (note_base e st layer start base s) = unreliable s"
  "capture_progress (note_base e st layer start base s) = capture_progress s"
  "capture_namespaces (note_base e st layer start base s) = capture_namespaces s"
  "writer_closed (note_base e st layer start base s) = writer_closed s"
  "writer_started (note_base e st layer start base s) = writer_started s"
  "finalize_pending (note_base e st layer start base s) = finalize_pending s"
  "finalized_donors (note_base e st layer start base s) = finalized_donors s"
  by (simp_all add: note_base_def note_base_missing_fields unreliable_def)

lemma layer_start_expected:
  assumes inv: "capture_inv e N T s"
  shows "0 \<le> layer_start s rid layer"
    and "0 < layer_start s rid layer \<Longrightarrow>
      expect T (capture_progress s) rid layer = Some (map (T rid layer) [0..<nat (layer_start s rid layer)])"
  using capture_invD(4) [OF inv, of rid _ layer "layer_start s rid layer"]
  by (auto simp: layer_start_def progress_of_def expect_def od_get_def [of "[]"]
      dest: capture_invD(4) [OF inv] less_imp_le split: option.splits)

lemma capture_base_spec:
  assumes inv: "capture_inv e N T s" and inj: "inj (key_of e N)"
    and new: "(ps_request_id st, layer) \<notin> job_slot ` set (write_queue s)"
    and ns: "ps_namespace st = N (ps_request_id st)"
    and base: "capture_base e st layer s = (base, s1)"
  defines "rid \<equiv> ps_request_id st" and "start \<equiv> layer_start s (ps_request_id st) layer"
  shows "copies_ok e N (expect T (capture_progress s)) {} s1"
    and "\<exists>n. write_queue s1 = drop n (write_queue s)"
    and "record_at s1 k = record_at s k \<or> record_at s1 k = None"
    and "unreliable s \<subseteq> unreliable s1" and "kept_capture s s1"
    and "rid \<notin> unreliable s1 \<Longrightarrow> opt_list base = map (T rid layer) [0..<nat (restart_at start base)]"
proof -
  have "copies_ok e N (expect T (capture_progress s)) {} s1 \<and> (\<exists>n. write_queue s1 = drop n (write_queue s))
      \<and> (\<forall>k. record_at s1 k = record_at s k \<or> record_at s1 k = None)
      \<and> unreliable s \<subseteq> unreliable s1 \<and> kept_capture s s1
      \<and> (rid \<notin> unreliable s1 \<longrightarrow> opt_list base = map (T rid layer) [0..<nat (restart_at start base)])"
  proof (cases "0 < start")
    case True
    then have o: "captured_layer e st layer s = (base, s1)" using base by (simp add: capture_base_def start_def)
    note X = layer_start_expected(2) [OF inv True [unfolded start_def], folded start_def]
    note cb = captured_layer_base [OF capture_invD(1) [OF inv] inj new ns o X]
    have "opt_list base = map (T rid layer) [0..<nat (restart_at start base)]" if "rid \<notin> unreliable s1"
      using cb(6) that by (simp add: restart_at_def rid_def)
    then show ?thesis using cb(1-5) by auto
  next
    case False
    then have "s1 = s" "base = None" using base by (simp_all add: capture_base_def start_def)
    then show ?thesis using capture_invD(1) [OF inv] False by (auto simp: restart_at_def intro: exI [of _ 0])
  qed
  note goal = this
  show "record_at s1 k = record_at s k \<or> record_at s1 k = None" using goal by (elim conjE allE)
  show "copies_ok e N (expect T (capture_progress s)) {} s1"
    and "\<exists>n. write_queue s1 = drop n (write_queue s)"
    and "unreliable s \<subseteq> unreliable s1" and "kept_capture s s1"
    and "rid \<notin> unreliable s1 \<Longrightarrow> opt_list base = map (T rid layer) [0..<nat (restart_at start base)]"
    using goal by blast+
qed

text \<open>A capture that has something new to write maps the new tokens to slots and submits the grown layer.\<close>

lemma capture_layer_run:
  assumes b: "0 < e_block_size e" and start: "0 \<le> start" "start = layer_start s (ps_request_id st) layer"
    and grows: "start < ps_token_count st" and base: "capture_base e st layer s = (base, s1)"
    and out: "capture_layer e st blocks layer kv s = (Inr x, t)"
  obtains slots where
    "slot_mapping e blocks (ps_token_count st - restart_at start base) (restart_at start base)
       (note_base e st layer start base s1) = (Inr slots, note_base e st layer start base s1)"
    "t = note_progress st layer (restart_at start base + len slots) (progress_of s (ps_request_id st))
       (submit_captured_layer e st layer (opt_list base @ extract_kv (fst kv) (snd kv) slots)
          (restart_at start base + len slots) (note_base e st layer start base s1))"
proof -
  define s2 where "s2 = note_base e st layer start base s1"
  define start' where "start' = restart_at start base"
  have base': "(if 0 < start then captured_layer e st layer s else (None, s)) = (base, s1)"
    using base by (simp add: capture_base_def start(2))
  note s2 = s2_def [unfolded note_base_def] and start' = start'_def [unfolded restart_at_def]
  obtain y s3 where sm: "slot_mapping e blocks (ps_token_count st - start') start' s2 = (y, s3)" by fastforce
  have o: "(Inr x, t) = (case slot_mapping e blocks (ps_token_count st - start') start' s2 of
               (Inl x, s3) \<Rightarrow> (Inl x, s3)
             | (Inr slots, s3) \<Rightarrow>
                 (Inr (), note_progress st layer (start' + len slots) (progress_of s (ps_request_id st))
                    (submit_captured_layer e st layer (opt_list base @ extract_kv (fst kv) (snd kv) slots)
                       (start' + len slots) s3)))"
    using out grows unfolding capture_layer_def Let_def start(2) [symmetric] base' prod.case
      s2 [symmetric] start' [symmetric] note_progress_def by simp
  have pre: "0 \<le> start'" "0 \<le> ps_token_count st - start'"
    using start(1) grows by (simp_all add: start'_def restart_at_def)
  obtain slots where y: "y = Inr slots" using o by (cases y) (simp_all add: sm)
  have "s3 = s2" using slot_mapping_Inr(1) [OF b pre sm [unfolded y]] .
  then show thesis using that [of slots] o sm y by (simp add: s2_def start'_def)
qed

text \<open>Submitting the grown layer: its rows are the expected ones from now on.\<close>

lemma submit_captured_ok:
  fixes n :: int
  assumes ok: "copies_ok e N X {} s" and inj: "inj (key_of e N)"
    and new: "(ps_request_id st, layer) \<notin> job_slot ` set (write_queue s)"
    and ns: "ps_namespace st = N (ps_request_id st)"
    and v: "ps_request_id st \<notin> unreliable s \<Longrightarrow> rows = v"
    and len: "length (write_queue s) \<le> queue_depth e" and opened: "\<not> writer_closed s"
  defines "rid \<equiv> ps_request_id st" and "u \<equiv> submit_captured_layer e st layer rows n s"
  shows "copies_ok e N (X(rid := (X rid)(layer := Some v))) {} u"
    and "length (write_queue u) \<le> queue_depth e"
    and "job_slot ` set (write_queue u) \<subseteq> insert (rid, layer) (job_slot ` set (write_queue s))"
    and "record_at u k = record_at s k \<or> record_at u k = None"
    and "unreliable s \<subseteq> unreliable u" and "kept_capture s u" and "writer_started u"
proof -
  let ?X = "X(rid := (X rid)(layer := Some v))"
  let ?s = "s\<lparr>inflight_layers := (inflight_layers s)((key_of e N rid, layer) \<mapsto> rows)\<rparr>"
  define j where "j = layer_job st layer rows n"
  have j: "wj_kind j = Layer_job" "wj_layer_name j = Some (job_layer j)" "wj_namespace j = N (wj_request_id j)"
    "job_slot j = (rid, layer)" "wj_payload j = rows"
    by (simp_all add: j_def layer_job_def job_layer_def ns rid_def)
  have same: "write_queue ?s = write_queue s" "unreliable ?s = unreliable s" by (simp_all add: unreliable_def)
  have staged: "copies_ok e N ?X {(rid, layer)} ?s"
    by (rule copies_ok_stage [OF ok new [folded rid_def] inj]) (use v in \<open>simp add: rid_def\<close>)
  have disj: "{(rid, layer)} \<inter> job_slot ` set (write_queue ?s) = {}" using new by (simp add: rid_def)
  have newj: "job_slot j \<notin> job_slot ` set (write_queue ?s)" using new by (simp add: j(4) rid_def)
  have Xj: "?X (wj_request_id j) (job_layer j) = Some (wj_payload j)" if "wj_request_id j \<notin> unreliable ?s"
  proof -
    have r: "wj_request_id j = rid" "job_layer j = layer" using j(4) by simp_all
    have "rid \<notin> unreliable s" using that unfolding r same .
    then have "rows = v" using v by (simp add: rid_def)
    then show ?thesis by (simp add: r j(5))
  qed
  have len': "length (write_queue ?s) \<le> queue_depth e" and open': "\<not> writer_closed ?s"
    using len opened by simp_all
  have u: "u = submit_write e False j ?s"
    by (simp add: u_def submit_captured_layer_def j_def key_of_def ns rid_def)
  note sw = submit_write_open [OF staged inj disj newj j(1-3) Xj len' open', folded u]
  have "copies_ok e N ?X ({(rid, layer)} - {job_slot j}) u" by (rule sw(1))
  then show "copies_ok e N ?X {} u" by (simp only: j(4) Diff_cancel)
  show "length (write_queue u) \<le> queue_depth e" by (rule sw(2))
  obtain m where "write_queue u = drop m (write_queue s) @ [j]" using sw(3) same by auto
  then show "job_slot ` set (write_queue u) \<subseteq> insert (rid, layer) (job_slot ` set (write_queue s))"
    using set_drop_subset [of m "write_queue s"] j(4) by auto
  show "record_at u k = record_at s k \<or> record_at u k = None" using sw(4) [of k] by simp
  show "unreliable s \<subseteq> unreliable u" using sw(5) by (simp add: same)
  show "kept_capture s u" using sw(6) by (simp add: kept_capture_def)
  show "writer_started u" by (rule sw(7))
qed

text \<open>Recording the progress restores the invariant, with the layer's rows up to the store's end expected.\<close>

lemma note_progress_ok:
  assumes inv: "capture_inv e N T s" and n: "0 < n" and ns: "ps_namespace st = N (ps_request_id st)"
    and ok: "copies_ok e N ((expect T (capture_progress s))(rid :=
        (expect T (capture_progress s) rid)(layer := Some (map (T rid layer) [0..<nat n])))) {} u"
    and same: "capture_progress u = capture_progress s" "capture_namespaces u = capture_namespaces s"
      "writer_closed u = writer_closed s"
    and len: "length (write_queue u) \<le> queue_depth e" and started: "writer_started u"
    and rid: "rid = ps_request_id st"
  shows "capture_inv e N T (note_progress st layer n (progress_of s rid) u)" (is "capture_inv e N T ?t")
proof -
  have t: "capture_progress ?t = (capture_progress s)(rid \<mapsto> od_set (progress_of s rid) layer n)"
    "capture_namespaces ?t = od_set (capture_namespaces s) rid (N rid)"
    by (simp_all add: note_progress_def same ns rid)
  have "expect T (capture_progress ?t) = (expect T (capture_progress s))(rid :=
        (expect T (capture_progress s) rid)(layer := Some (map (T rid layer) [0..<nat n])))"
    unfolding t unfolding progress_of_def by (rule expect_upd)
  then have "copies_ok e N (expect T (capture_progress ?t)) {} ?t"
    by (simp only:) (rule copies_ok_keep [OF ok], simp_all add: note_progress_def)
  moreover have "0 < m" if "capture_progress ?t r = Some p" "od_get p l = Some m" for r p l m
    using that(1) [unfolded t] that(2) capture_invD(4) [OF inv] n
    by (auto simp: progress_of_def od_get_def [of "[]"] simp del: od_set.simps split: if_splits option.splits)
  moreover have "od_wf p \<and> p \<noteq> [] \<and> od_get (capture_namespaces ?t) r = Some (N r)"
    if "capture_progress ?t r = Some p" for r p
  proof (cases "r = rid")
    case True
    have "od_wf (progress_of s rid)"
      using capture_invD(5) [OF inv, of rid] by (auto simp: progress_of_def od_wf_def od_keys_def split: option.splits)
    moreover have "od_set (progress_of s rid) layer n \<noteq> []" by (cases "progress_of s rid") (auto split: if_splits)
    ultimately show ?thesis using that True by (auto simp: t)
  next
    case False
    then show ?thesis using that capture_invD(5) [OF inv] by (simp add: t)
  qed
  ultimately show ?thesis
    using capture_invD(3,7) [OF inv] len started by (simp add: capture_inv_def t named_by_set)
      (simp add: note_progress_def same)
qed

text \<open>What one captured layer leaves, in the words of the properties that build on it.\<close>

definition layer_captured ::
  "'p env \<Rightarrow> (string \<Rightarrow> string) \<Rightarrow> kv_truth \<Rightarrow> pending_store \<Rightarrow> string \<Rightarrow> 'z worker_st_scheme
     \<Rightarrow> 'z worker_st_scheme \<Rightarrow> bool" where
  "layer_captured e N T st layer s t \<longleftrightarrow> capture_inv e N T t
     \<and> job_slot ` set (write_queue t) \<subseteq> insert (ps_request_id st, layer) (job_slot ` set (write_queue s))
     \<and> (\<forall>k. record_at t k = record_at s k \<or> record_at t k = None) \<and> unreliable s \<subseteq> unreliable t
     \<and> finalize_pending t = finalize_pending s \<and> finalized_donors t = finalized_donors s
     \<and> layer_start t (ps_request_id st) layer = max (layer_start s (ps_request_id st) layer) (ps_token_count st)
     \<and> capture_write_failed t = capture_write_failed s \<and> (writer_started s \<longrightarrow> writer_started t)"

lemma capture_layer_skips:
  assumes inv: "capture_inv e N T s" and le: "ps_token_count st \<le> layer_start s (ps_request_id st) layer"
    and out: "capture_layer e st blocks layer kv s = (Inr x, t)"
  shows "layer_captured e N T st layer s t"
proof -
  have t: "t = bump (SW Layer_capture_skipped_nothing_new) s"
    using out le by (simp add: capture_layer_def Let_def)
  have "copies_ok e N (expect T (capture_progress s)) {} t"
    by (rule copies_ok_keep [OF capture_invD(1) [OF inv]]) (simp_all add: t)
  then have "capture_inv e N T t" using inv by (simp add: capture_inv_def t)
  moreover have "unreliable t = unreliable s" by (simp add: t unreliable_def)
  moreover have "layer_start t rid layer = layer_start s rid layer" for rid
    by (simp add: t layer_start_def progress_of_def)
  ultimately show ?thesis using le by (simp add: t subset_insertI layer_captured_def)
qed

lemma capture_layer_grows:
  assumes inv: "capture_inv e N T s" and inj: "inj (key_of e N)" and b: "0 < e_block_size e"
    and new: "(ps_request_id st, layer) \<notin> job_slot ` set (write_queue s)"
    and ns: "ps_namespace st = N (ps_request_id st)"
    and holds: "cache_holds e T st blocks layer kv"
    and grows: "layer_start s (ps_request_id st) layer < ps_token_count st"
    and out: "capture_layer e st blocks layer kv s = (Inr x, t)"
  shows "layer_captured e N T st layer s t"
proof -
  let ?rid = "ps_request_id st" and ?n = "ps_token_count st"
  define start where "start = layer_start s ?rid layer"
  have start: "0 \<le> start" unfolding start_def by (rule layer_start_expected(1) [OF inv])
  obtain base s1 where base: "capture_base e st layer s = (base, s1)" by fastforce
  note s1 = capture_base_spec [OF inv inj new ns base, folded start_def]
  define s2 where "s2 = note_base e st layer start base s1"
  define first where "first = restart_at start base"
  have first: "0 \<le> first" "first < ?n" using start grows by (simp_all add: first_def restart_at_def start_def)
  obtain slots where sm: "slot_mapping e blocks (?n - first) first s2 = (Inr slots, s2)"
    and t_eq: "t = note_progress st layer (first + len slots) (progress_of s ?rid)
       (submit_captured_layer e st layer (opt_list base @ extract_kv (fst kv) (snd kv) slots) (first + len slots) s2)"
    using capture_layer_run [OF b start start_def grows [folded start_def] base out]
    unfolding s2_def first_def by blast
  define rows where "rows = opt_list base @ extract_kv (fst kv) (snd kv) slots"
  note cr = captured_rows [OF b first sm holds]
  have rows: "rows = map (T ?rid layer) [0..<nat ?n]" if "?rid \<notin> unreliable s2"
    using s1(6) cr(1) that by (simp add: rows_def s2_def note_base_same first_def)
  define u where "u = submit_captured_layer e st layer rows ?n s2"
  have t: "t = note_progress st layer ?n (progress_of s ?rid) u" unfolding t_eq cr(2) u_def rows_def ..
  have ok2: "copies_ok e N (expect T (capture_progress s)) {} s2"
    by (rule copies_ok_keep [OF s1(1)]) (simp_all add: s2_def note_base_same)
  obtain m where q2: "write_queue s2 = drop m (write_queue s)" using s1(2) by (auto simp: s2_def note_base_same)
  have sub2: "job_slot ` set (write_queue s2) \<subseteq> job_slot ` set (write_queue s)"
    using set_drop_subset [of m "write_queue s"] by (simp add: q2 image_mono)
  have new2: "(?rid, layer) \<notin> job_slot ` set (write_queue s2)" using new sub2 by blast
  have len2: "length (write_queue s2) \<le> queue_depth e" using capture_invD(2) [OF inv] by (simp add: q2)
  have open2: "\<not> writer_closed s2"
    using s1(5) capture_invD(3) [OF inv] by (simp add: s2_def note_base_same kept_capture_def)
  note su = submit_captured_ok [OF ok2 inj new2 ns rows len2 open2, of ?n, folded u_def]
  have kept: "capture_progress u = capture_progress s" "capture_namespaces u = capture_namespaces s"
    "writer_closed u = writer_closed s" "finalize_pending u = finalize_pending s"
    "finalized_donors u = finalized_donors s" "capture_write_failed u = capture_write_failed s"
    using su(6) s1(5) by (simp_all add: kept_capture_def s2_def note_base_same)
  have n: "0 < ?n" using first by simp
  have "capture_inv e N T t"
    unfolding t by (rule note_progress_ok [OF inv n ns su(1) kept(1-3) su(2) su(7) refl])
  moreover have "job_slot ` set (write_queue t) \<subseteq> insert (?rid, layer) (job_slot ` set (write_queue s))"
  proof -
    have "write_queue t = write_queue u" by (simp add: t note_progress_def)
    then show ?thesis using su(3) sub2 by (simp only:) blast
  qed
  moreover have "record_at t k = record_at s k \<or> record_at t k = None" for k
    using su(4) [of k] s1(3) [of k] by (auto simp: t note_progress_def s2_def note_base_same)
  moreover have "unreliable s \<subseteq> unreliable t"
    using su(5) s1(4) by (auto simp: t note_progress_def unreliable_def s2_def note_base_same)
  moreover have "layer_start t ?rid layer = ?n"
    by (simp add: t note_progress_def layer_start_def progress_of_def)
  ultimately show ?thesis
    using grows kept su(7) unfolding layer_captured_def by (simp add: t note_progress_def)
qed

text \<open>
  One layer of one store: the invariant holds after it, with the layer's progress at the store's end, unless
  it was there already.
\<close>

lemma capture_layer_ok:
  assumes inv: "capture_inv e N T s" and inj: "inj (key_of e N)" and b: "0 < e_block_size e"
    and new: "(ps_request_id st, layer) \<notin> job_slot ` set (write_queue s)"
    and ns: "ps_namespace st = N (ps_request_id st)"
    and holds: "cache_holds e T st blocks layer kv"
    and out: "capture_layer e st blocks layer kv s = (Inr x, t)"
  shows "capture_inv e N T t"
    and "job_slot ` set (write_queue t) \<subseteq> insert (ps_request_id st, layer) (job_slot ` set (write_queue s))"
    and "record_at t k = record_at s k \<or> record_at t k = None" and "unreliable s \<subseteq> unreliable t"
    and "finalize_pending t = finalize_pending s" and "finalized_donors t = finalized_donors s"
    and "layer_start t (ps_request_id st) layer = max (layer_start s (ps_request_id st) layer) (ps_token_count st)"
    and "capture_write_failed t = capture_write_failed s" and "writer_started s \<longrightarrow> writer_started t"
proof -
  have "layer_captured e N T st layer s t"
  proof (cases "ps_token_count st \<le> layer_start s (ps_request_id st) layer")
    case True
    then show ?thesis using capture_layer_skips [OF inv True out] by simp
  next
    case False
    then show ?thesis by (intro capture_layer_grows [OF inv inj b new ns holds _ out]) simp
  qed
  note goal = this [unfolded layer_captured_def]
  show "record_at t k = record_at s k \<or> record_at t k = None" using goal by (elim conjE allE)
  show "capture_inv e N T t"
    "job_slot ` set (write_queue t) \<subseteq> insert (ps_request_id st, layer) (job_slot ` set (write_queue s))"
    "unreliable s \<subseteq> unreliable t"
    "finalize_pending t = finalize_pending s" "finalized_donors t = finalized_donors s"
    "layer_start t (ps_request_id st) layer = max (layer_start s (ps_request_id st) layer) (ps_token_count st)"
    "capture_write_failed t = capture_write_failed s" "writer_started s \<longrightarrow> writer_started t"
    using goal by blast+
qed

end
