(* ===== verification/Publication.thy ===== *)
theory Publication
  imports WorkerProps
begin

text \<open>
  A step of the worker as a whole: every layer of the model is saved, then the step's captures are
  joined and the donors they complete are published. The join's two halves are \<open>settle_captures\<close>, which
  waits for the layers, and the publication of the pending donors, whose invariant is \<open>publishing\<close>.
\<close>

subsection \<open>The first half of the join\<close>

text \<open>Between steps nothing is queued and the writer's reports have been read.\<close>

definition settled :: "'p env \<Rightarrow> (string \<Rightarrow> string) \<Rightarrow> kv_truth \<Rightarrow> 'z worker_st_scheme \<Rightarrow> bool" where
  "settled e N T s \<longleftrightarrow> capture_inv e N T s \<and> write_queue s = [] \<and> writer_failed_requests s = {}
     \<and> writer_evicted s = []"

lemma fold_audit_worker:
  fixes evs :: "(string \<times> worker_event) list"
  defines "report e \<equiv> fold (\<lambda>(rid, ev). audit e (Some rid) (EW ev))"
  shows "audit_st.more (report e evs s) = audit_st.more s"
  unfolding report_def by (induction evs arbitrary: s) (auto simp: split_beta)

lemma forget_evicted_fold:
  "fold forget_evicted rids s =
     s\<lparr>capture_progress := (\<lambda>r. if r \<in> set rids then None else capture_progress s r),
       finalized_donors := (\<lambda>r. if r \<in> set rids then None else finalized_donors s r),
       capture_base_missing_noted := (\<lambda>r. if r \<in> set rids then None else capture_base_missing_noted s r)\<rparr>"
proof (induction rids arbitrary: s)
  case (Cons r rids)
  have eq: "(\<lambda>x. if x \<in> set rids then None else (f(r := None)) x)
      = (\<lambda>x. if x \<in> set (r # rids) then None else f x)" for f :: "string \<Rightarrow> 'b option"
    by auto
  have eq': "(\<lambda>x. if x \<in> set rids then None else (f(r := None)) x)
      = (\<lambda>x. if x \<in> set (r # rids) then None else f x)" for f :: "string \<Rightarrow> 'c option"
    by auto
  show ?case unfolding fold_simps Cons by (simp add: forget_evicted_def eq eq' del: fun_upd_apply list.set cong: if_cong)
qed simp

lemma drain_fields:
  "memory_store (drain_writer_reports e s) = memory_store s" "disk (drain_writer_reports e s) = disk s"
  "inflight_layers (drain_writer_reports e s) = inflight_layers s"
  "write_queue (drain_writer_reports e s) = write_queue s"
  "writer_started (drain_writer_reports e s) = writer_started s"
  "writer_closed (drain_writer_reports e s) = writer_closed s"
  "capture_namespaces (drain_writer_reports e s) = capture_namespaces s"
  "finalize_pending (drain_writer_reports e s) = finalize_pending s"
  "write_results (drain_writer_reports e s) = write_results s"
  "writer_failed_requests (drain_writer_reports e s) = {}" "writer_evicted (drain_writer_reports e s) = []"
  "capture_write_failed (drain_writer_reports e s) = capture_write_failed s \<union> writer_failed_requests s"
  "capture_progress (drain_writer_reports e s) =
     (\<lambda>r. if r \<in> set (writer_evicted s) then None else capture_progress s r)"
  "finalized_donors (drain_writer_reports e s) =
     (\<lambda>r. if r \<in> set (writer_evicted s) then None else finalized_donors s r)"
proof -
  define s2 where "s2 = fold forget_evicted (writer_evicted s)
      (s\<lparr>writer_events := [], writer_failed_requests := {}, writer_evicted := [],
         capture_write_failed := capture_write_failed s \<union> writer_failed_requests s\<rparr>)"
  have "audit_st.more (drain_writer_reports e s) = audit_st.more s2"
    unfolding drain_writer_reports_def Let_def s2_def [symmetric] by (rule fold_audit_worker)
  note f = worker_fields_eq [OF this]
  show "memory_store (drain_writer_reports e s) = memory_store s" "disk (drain_writer_reports e s) = disk s"
    "inflight_layers (drain_writer_reports e s) = inflight_layers s"
    "write_queue (drain_writer_reports e s) = write_queue s"
    "writer_started (drain_writer_reports e s) = writer_started s"
    "writer_closed (drain_writer_reports e s) = writer_closed s"
    "capture_namespaces (drain_writer_reports e s) = capture_namespaces s"
    "finalize_pending (drain_writer_reports e s) = finalize_pending s"
    "write_results (drain_writer_reports e s) = write_results s"
    "writer_failed_requests (drain_writer_reports e s) = {}" "writer_evicted (drain_writer_reports e s) = []"
    "capture_write_failed (drain_writer_reports e s) = capture_write_failed s \<union> writer_failed_requests s"
    "capture_progress (drain_writer_reports e s) =
       (\<lambda>r. if r \<in> set (writer_evicted s) then None else capture_progress s r)"
    "finalized_donors (drain_writer_reports e s) =
       (\<lambda>r. if r \<in> set (writer_evicted s) then None else finalized_donors s r)"
    using f by (simp_all add: same_capture_def) (simp_all add: s2_def forget_evicted_fold cong: if_cong)
qed

definition settle_captures :: "'p env \<Rightarrow> 'z worker_st_scheme \<Rightarrow> 'z worker_st_scheme" where
  "settle_captures e s =
     drain_writer_reports e (if writer_started s then writer_join e s else s)"

lemma settle_captures_ok:
  assumes inv: "capture_inv e N T s" and inj: "inj (key_of e N)"
  shows "settled e N T (settle_captures e s)"
    and "record_at (settle_captures e s) k = record_at s k \<or> record_at (settle_captures e s) k = None"
    and "finalize_pending (settle_captures e s) = finalize_pending s"
    and "writer_started (settle_captures e s) = writer_started s"
    and "capture_write_failed s \<subseteq> capture_write_failed (settle_captures e s)"
    and "capture_progress (settle_captures e s) rid = Some p \<Longrightarrow> capture_progress s rid = Some p"
proof -
  define t where "t = (if writer_started s then writer_join e s else s)"
  have u: "settle_captures e s = drain_writer_reports e t" by (simp add: settle_captures_def t_def)
  have P: "{} \<inter> job_slot ` set (write_queue s) = {}" by simp
  note r = copies_ok_run_jobs [OF capture_invD(1) [OF inv] inj P, of "length (write_queue s)"]
  have join: "writer_join e s = run_jobs e (length (write_queue s)) s" if "writer_started s"
    using that capture_invD(3) [OF inv] by (simp add: writer_join_def)
  have t: "copies_ok e N (expect T (capture_progress s)) {} t" "write_queue t = []" "kept_capture s t"
    using r join capture_invD(1,6) [OF inv] by (auto simp: t_def)
  have trec: "record_at t k = record_at s k \<or> record_at t k = None" for k
    using r join by (auto simp: t_def)
  have kept: "capture_progress t = capture_progress s" "capture_namespaces t = capture_namespaces s"
    "writer_closed t = writer_closed s" "capture_write_failed t = capture_write_failed s"
    "finalize_pending t = finalize_pending s"
    using t(3) by (simp_all add: kept_capture_def)
  have started: "writer_started t = writer_started s"
    using t(3) by (cases "writer_started s") (simp_all add: kept_capture_def t_def)
  let ?u = "drain_writer_reports e t"
  have fly: "inflight_layers ?u (k, l) \<noteq> Some rows" for k l rows
    using copies_okD(6) [OF t(1), of k l rows] t(2) by (auto simp: drain_fields)
  have copy: "copy_at e ?u (key_of e N rid) layer = Some rows"
    if "expect T (capture_progress ?u) rid layer = Some rows" "rid \<notin> unreliable ?u" for rid layer rows
  proof -
    have ne: "rid \<notin> set (writer_evicted t)" and X: "expect T (capture_progress s) rid layer = Some rows"
      using that(1) by (auto simp: drain_fields expect_def kept(1) split: if_splits)
    have "rid \<notin> unreliable t" using that(2) ne by (simp add: unreliable_def drain_fields)
    then show ?thesis using copies_okD(5) [OF t(1) X] t(2) by (simp add: drain_fields)
  qed
  have "mem_inv e N ?u" using copies_okD(1) [OF t(1)] by (simp add: mem_inv_def drain_fields)
  then have "copies_ok e N (expect T (capture_progress ?u)) {} ?u"
    using fly copy by (simp add: copies_ok_def) (simp add: drain_fields t(2))
  then have "capture_inv e N T ?u"
    using capture_invD(3,4,5,6,7) [OF inv]
    by (auto simp: capture_inv_def drain_fields t(2) kept started split: if_splits)
  then show "settled e N T (settle_captures e s)" by (simp add: u settled_def drain_fields t(2))
  show "record_at (settle_captures e s) k = record_at s k \<or> record_at (settle_captures e s) k = None"
    using trec [of k] by (simp add: u drain_fields)
  show "finalize_pending (settle_captures e s) = finalize_pending s"
    "writer_started (settle_captures e s) = writer_started s"
    "capture_write_failed s \<subseteq> capture_write_failed (settle_captures e s)"
    by (auto simp: u drain_fields kept started)
  show "capture_progress s rid = Some p" if "capture_progress (settle_captures e s) rid = Some p"
    using that by (simp add: u drain_fields kept split: if_splits)
qed

subsection \<open>Publishing\<close>

text \<open>
  From a settled state \<open>b\<close>, while the records of the donors \<open>D\<close> are queued and written: only records
  change; a record that changed is that of a donor whose captures are relied on, at its shortest layer;
  and if no write is going to fail, each of \<open>D\<close> has its record, or the job for it in the queue.
\<close>

definition donor_at :: "'z worker_st_scheme \<Rightarrow> string \<Rightarrow> (string, int) odict \<Rightarrow> bool" where
  "donor_at b rid p \<longleftrightarrow> capture_progress b rid = Some p \<and> rid \<notin> capture_write_failed b"

definition publishing ::
  "'p env \<Rightarrow> (string \<Rightarrow> string) \<Rightarrow> 'z worker_st_scheme \<Rightarrow> string set \<Rightarrow> 'z worker_st_scheme \<Rightarrow> bool" where
  "publishing e N b D s \<longleftrightarrow>
     memory_store s = memory_store b \<and> (\<forall>k. dd_layers (dir_of (disk s) k) = dd_layers (dir_of (disk b) k))
     \<and> inflight_layers s = inflight_layers b \<and> writer_evicted s = []
     \<and> capture_progress s = capture_progress b \<and> capture_namespaces s = capture_namespaces b
     \<and> capture_write_failed s = capture_write_failed b \<and> writer_closed s = writer_closed b
     \<and> (writer_started b \<longrightarrow> writer_started s) \<and> length (write_queue s) \<le> queue_depth e
     \<and> (\<forall>j \<in> set (write_queue s). \<exists>rid p. donor_at b rid p \<and> j = metadata_job rid (N rid) p)
     \<and> (\<forall>k. record_at s k = record_at b k
          \<or> (\<exists>rid p. k = key_of e N rid \<and> donor_at b rid p \<and> record_at s k = Some (Some (shortest_layer p))))
     \<and> (write_results b = [] \<longrightarrow> write_results s = [] \<and> writer_failed_requests s = {}
          \<and> (\<forall>rid \<in> D. \<forall>p. donor_at b rid p \<longrightarrow> metadata_job rid (N rid) p \<in> set (write_queue s)
               \<or> record_at s (key_of e N rid) = Some (Some (shortest_layer p))))"

lemma publishing_start:
  assumes "settled e N T b"
  shows "publishing e N b {} b"
  using assms by (simp add: publishing_def settled_def)

text \<open>A settled donor's layers are all there, so its record is not refused.\<close>

lemma settled_layers:
  assumes b: "settled e N T b" and d: "donor_at b rid p"
  shows "od_get p layer = Some n \<Longrightarrow> copy_at e b (key_of e N rid) layer = Some (map (T rid layer) [0..<nat n])"
    and "p \<noteq> []" and "od_get p layer = Some n \<Longrightarrow> shortest_layer p \<le> n"
    and "od_get (capture_namespaces b) rid = Some (N rid)" and "0 < shortest_layer p"
proof -
  have inv: "capture_inv e N T b" and q: "write_queue b = []" and f: "writer_failed_requests b = {}" "writer_evicted b = []"
    using b by (simp_all add: settled_def)
  have pr: "capture_progress b rid = Some p" "rid \<notin> unreliable b"
    using d by (simp_all add: donor_at_def unreliable_def f)
  show "copy_at e b (key_of e N rid) layer = Some (map (T rid layer) [0..<nat n])" if "od_get p layer = Some n"
    using copies_okD(5) [OF capture_invD(1) [OF inv] _ pr(2), of layer] that by (simp add: expect_def pr(1) q)
  show ne: "p \<noteq> []" and "od_get (capture_namespaces b) rid = Some (N rid)"
    using capture_invD(5) [OF inv pr(1)] by blast+
  show "shortest_layer p \<le> n" if "od_get p layer = Some n"
    using od_get_in [OF that] by (force simp: shortest_layer_def intro: Min_le)
  have "shortest_layer p \<in> set (map snd p)" unfolding shortest_layer_def using ne by (intro Min_in) simp_all
  then obtain l where "(l, shortest_layer p) \<in> set p" by auto
  moreover have "od_wf p" using capture_invD(5) [OF inv pr(1)] by blast
  ultimately have "od_get p l = Some (shortest_layer p)" by (intro od_wf_get)
  then show "0 < shortest_layer p" using capture_invD(4) [OF inv pr(1)] by blast
qed

text \<open>The job at the head of the queue is the record of a settled donor, whose layers are all there.\<close>

lemma metadata_job_fields:
  "wj_kind (metadata_job rid (N rid) p) = Metadata_job" "wj_layer_name (metadata_job rid (N rid) p) = None"
  "wj_request_id (metadata_job rid (N rid) p) = rid" "wj_token_count (metadata_job rid (N rid) p) = shortest_layer p"
  "set (wj_layer_names (metadata_job rid (N rid) p)) = set (od_keys p)"
  "job_key e (metadata_job rid (N rid) p) = key_of e N rid"
  by (simp_all add: metadata_job_def job_key_def key_of_def)

lemma settled_layer_present:
  assumes b: "settled e N T b" and d: "donor_at b rid p" and lay: "layer \<in> set (od_keys p)"
    and mem: "memory_store s = memory_store b" "\<And>k. dd_layers (dir_of (disk s) k) = dd_layers (dir_of (disk b) k)"
  shows "layer_present e s (key_of e N rid) layer"
proof -
  obtain n where "od_get p layer = Some n" using lay od_get_None_iff [of p layer] by auto
  then have c: "copy_at e b (key_of e N rid) layer \<noteq> None" using settled_layers(1) [OF b d] by simp
  have "layer \<in> set (od_keys (dd_layers (dir_of (disk b) (key_of e N rid))))"
    if "od_get (dd_layers (dir_of (disk b) (key_of e N rid))) layer \<noteq> None"
    using that by (simp add: od_get_None_iff)
  then show ?thesis using c by (auto simp: layer_present_def stored_def mem split: option.splits if_splits)
qed

lemma metadata_job_run:
  assumes b: "settled e N T b" and d: "donor_at b rid p" and r: "take_result s = (r, s1)"
    and mem: "memory_store s = memory_store b" "\<And>k. dd_layers (dir_of (disk s) k) = dd_layers (dir_of (disk b) k)"
  defines "k \<equiv> key_of e N rid"
  shows "run_write_job e (metadata_job rid (N rid) p) s = (case r of
      Fails x \<Rightarrow> (Some x, s1)
    | Truncates x \<Rightarrow> (Some x, s1\<lparr>disk := (disk s1)(k \<mapsto> dir_of (disk s1) k\<lparr>dd_temp := True\<rparr>)\<rparr>)
    | Lands \<Rightarrow> (None, writer_count Capture_metadata_writes_total
        (s1\<lparr>disk := (disk s1)(k \<mapsto> dir_of (disk s1) k\<lparr>dd_record := Some (Some (shortest_layer p)), dd_temp := False\<rparr>)\<rparr>)))"
proof -
  let ?j = "metadata_job rid (N rid) p"
  note present = settled_layer_present [OF b d _ mem] and jf = metadata_job_fields [where rid = rid and N = N and p = p]
  obtain l where "l \<in> set (od_keys p)" using settled_layers(2) [OF b d] by (cases p) (auto simp: od_keys_def)
  from present [OF this] have c: "(mem_backend e \<and> od_get (memory_store s) (key_of e N rid) = None) = False"
    by (auto simp: layer_present_def split: option.splits)
  have c': "(\<exists>layer \<in> set (wj_layer_names ?j). \<not> layer_present e s (key_of e N rid) layer) = False"
    using present by (auto simp: jf(5))
  show ?thesis
    unfolding run_write_job_def jf(1) job_kind.case write_donor_metadata_def Let_def jf(6) c if_False r prod.case
      c' k_def by (simp only: jf)
qed

lemma metadata_job_effect:
  assumes b: "settled e N T b" and d: "donor_at b rid p" and q: "write_queue s = metadata_job rid (N rid) p # q"
    and mem: "memory_store s = memory_store b" "\<And>k. dd_layers (dir_of (disk s) k) = dd_layers (dir_of (disk b) k)"
  defines "u \<equiv> writer_step e s" and "k \<equiv> key_of e N rid"
  shows "memory_store u = memory_store s" "same_capture (s\<lparr>write_queue := q\<rparr>) u"
    "inflight_layers u = inflight_layers s" "writer_evicted u = writer_evicted s"
    "\<forall>k'. dd_layers (dir_of (disk u) k') = dd_layers (dir_of (disk s) k')"
    "\<forall>k'. record_at u k' = record_at s k' \<or> k' = k \<and> record_at u k' = Some (Some (shortest_layer p))"
    "write_results s = [] \<Longrightarrow> write_results u = [] \<and> writer_failed_requests u = writer_failed_requests s
        \<and> record_at u k = Some (Some (shortest_layer p))"
proof -
  let ?j = "metadata_job rid (N rid) p"
  note jf = metadata_job_fields [where rid = rid and N = N and p = p]
  define s0 where "s0 = s\<lparr>write_queue := q\<rparr>"
  obtain r s1 where r: "take_result s0 = (r, s1)" by fastforce
  note s1 = take_result_fields [OF r]
  have run: "run_write_job e ?j s0 = (case r of
      Fails x \<Rightarrow> (Some x, s1)
    | Truncates x \<Rightarrow> (Some x, s1\<lparr>disk := (disk s1)(k \<mapsto> dir_of (disk s1) k\<lparr>dd_temp := True\<rparr>)\<rparr>)
    | Lands \<Rightarrow> (None, writer_count Capture_metadata_writes_total
        (s1\<lparr>disk := (disk s1)(k \<mapsto> dir_of (disk s1) k\<lparr>dd_record := Some (Some (shortest_layer p)), dd_temp := False\<rparr>)\<rparr>)))"
    unfolding k_def by (rule metadata_job_run [OF b d r]) (simp_all add: s0_def mem)
  have u: "u = (case run_write_job e ?j s0 of (None, t) \<Rightarrow> t | (Some x, t) \<Rightarrow> record_write_error e ?j x t)"
    by (simp add: u_def writer_step_def q s0_def)
  have "(memory_store u = memory_store s \<and> same_capture s0 u \<and> inflight_layers u = inflight_layers s
    \<and> writer_evicted u = writer_evicted s \<and> (\<forall>k'. dd_layers (dir_of (disk u) k') = dd_layers (dir_of (disk s) k'))
    \<and> (\<forall>k'. record_at u k' = record_at s k' \<or> k' = k \<and> record_at u k' = Some (Some (shortest_layer p))))
    \<and> (r = Lands \<longrightarrow> write_results u = write_results s1 \<and> writer_failed_requests u = writer_failed_requests s
         \<and> record_at u k = Some (Some (shortest_layer p)))"
  proof (cases r)
    case (Fails x)
    then have "u = record_write_error e ?j x s1" by (simp add: u run)
    moreover have "same_capture s0 (record_write_error e ?j x s1)"
      by (rule same_capture_trans [OF s1(7) record_write_error_fields(5)])
    ultimately show ?thesis using s1(1-5) Fails by (simp add: record_write_error_fields(1-4,6) jf(2) s0_def)
  next
    case (Truncates x)
    define t where "t = s1\<lparr>disk := (disk s1)(k \<mapsto> dir_of (disk s1) k\<lparr>dd_temp := True\<rparr>)\<rparr>"
    have "u = record_write_error e ?j x t" using Truncates by (simp add: u run t_def)
    moreover have "same_capture s0 (record_write_error e ?j x t)"
      by (rule same_capture_trans [OF _ record_write_error_fields(5)]) (simp add: t_def s1(7))
    ultimately show ?thesis using s1(1-5) Truncates
      by (simp add: record_write_error_fields(1-4,6) jf(2) t_def s0_def)
  next
    case Lands
    define t where "t = s1\<lparr>disk := (disk s1)(k \<mapsto> dir_of (disk s1) k\<lparr>dd_record := Some (Some (shortest_layer p)),
                                                 dd_temp := False\<rparr>)\<rparr>"
    have "u = writer_count Capture_metadata_writes_total t" using Lands by (simp add: u run t_def)
    moreover have "same_capture s0 t" by (simp add: t_def s1(7))
    ultimately show ?thesis using s1(1-5) Lands by (simp add: t_def s0_def)
  qed
  moreover have "r = Lands \<and> s1 = s0" if "write_results s = []" using r that by (simp add: take_result_def s0_def)
  ultimately show "memory_store u = memory_store s" "same_capture (s\<lparr>write_queue := q\<rparr>) u"
    "inflight_layers u = inflight_layers s" "writer_evicted u = writer_evicted s"
    "\<forall>k'. dd_layers (dir_of (disk u) k') = dd_layers (dir_of (disk s) k')"
    "\<forall>k'. record_at u k' = record_at s k' \<or> k' = k \<and> record_at u k' = Some (Some (shortest_layer p))"
    "write_results s = [] \<Longrightarrow> write_results u = [] \<and> writer_failed_requests u = writer_failed_requests s
        \<and> record_at u k = Some (Some (shortest_layer p))"
    by (simp_all add: s0_def)
qed

lemma publishing_job:
  assumes b: "settled e N T b" and p: "publishing e N b D s" and inj: "inj (key_of e N)"
  shows "publishing e N b D (writer_step e s)" and "write_queue (writer_step e s) = tl (write_queue s)"
proof -
  have "publishing e N b D (writer_step e s) \<and> write_queue (writer_step e s) = tl (write_queue s)"
  proof (cases "write_queue s")
    case Nil
    then show ?thesis using p by (simp add: writer_step_def)
  next
    case (Cons j q)
    then obtain rid p' where d: "donor_at b rid p'" and j: "j = metadata_job rid (N rid) p'"
      using p by (auto simp: publishing_def)
    define k where "k = key_of e N rid"
    define u where "u = writer_step e s"
    have mem: "memory_store s = memory_store b" "\<And>k. dd_layers (dir_of (disk s) k) = dd_layers (dir_of (disk b) k)"
      using p by (simp_all add: publishing_def)
    note uf = metadata_job_effect [OF b d Cons [unfolded j] mem, folded u_def k_def]
    have q: "write_queue u = q" "capture_progress u = capture_progress s" "capture_namespaces u = capture_namespaces s"
      "capture_write_failed u = capture_write_failed s" "writer_closed u = writer_closed s"
      "writer_started u = writer_started s"
      using uf(2) by (simp_all add: same_capture_def)
    have rec: "record_at u k' = record_at b k'
          \<or> (\<exists>rid p. k' = key_of e N rid \<and> donor_at b rid p \<and> record_at u k' = Some (Some (shortest_layer p)))" for k'
    proof -
      have "record_at u k' = record_at s k' \<or> k' = k \<and> record_at u k' = Some (Some (shortest_layer p'))"
        using uf(6) by (elim allE)
      then show ?thesis
      proof (elim disjE conjE)
        assume "record_at u k' = record_at s k'"
        then show ?thesis using p unfolding publishing_def by simp
      next
        assume "k' = k" "record_at u k' = Some (Some (shortest_layer p'))"
        then show ?thesis using d k_def by blast
      qed
    qed
    have live: "write_results u = [] \<and> writer_failed_requests u = {}
          \<and> (\<forall>rid \<in> D. \<forall>p. donor_at b rid p \<longrightarrow> metadata_job rid (N rid) p \<in> set (write_queue u)
               \<or> record_at u (key_of e N rid) = Some (Some (shortest_layer p)))" if "write_results b = []"
    proof -
      have s: "write_results s = []" "writer_failed_requests s = {}"
        "\<And>rid p. rid \<in> D \<Longrightarrow> donor_at b rid p \<Longrightarrow> metadata_job rid (N rid) p \<in> set (j # q)
               \<or> record_at s (key_of e N rid) = Some (Some (shortest_layer p))"
        using p that unfolding publishing_def Cons by simp_all
      note l = uf(7) [OF s(1)]
      have "metadata_job r' (N r') x \<in> set q \<or> record_at u (key_of e N r') = Some (Some (shortest_layer x))"
        if "r' \<in> D" "donor_at b r' x" for r' x
      proof (cases "r' = rid")
        case True
        then have "x = p'" using that(2) d by (simp add: donor_at_def)
        then show ?thesis using l True by (simp add: k_def)
      next
        case False
        then have "key_of e N r' \<noteq> k" using inj by (auto simp: k_def dest: injD)
        then have "record_at u (key_of e N r') = record_at s (key_of e N r')"
          using uf(6) [rule_format, of "key_of e N r'"] by simp
        moreover have "metadata_job r' (N r') x \<noteq> j" using False by (simp add: j metadata_job_def)
        ultimately show ?thesis using s(3) [OF that] by auto
      qed
      then show ?thesis using l s(2) q(1) by simp
    qed
    have "publishing e N b D u"
      unfolding publishing_def q
    proof (intro conjI)
      show "\<forall>k. record_at u k = record_at b k
          \<or> (\<exists>rid p. k = key_of e N rid \<and> donor_at b rid p \<and> record_at u k = Some (Some (shortest_layer p)))"
        using rec by simp
      show "write_results b = [] \<longrightarrow> write_results u = [] \<and> writer_failed_requests u = {}
          \<and> (\<forall>rid \<in> D. \<forall>p. donor_at b rid p \<longrightarrow> metadata_job rid (N rid) p \<in> set q
               \<or> record_at u (key_of e N rid) = Some (Some (shortest_layer p)))"
        using live unfolding q(1) by blast
    qed (use p uf(1,3,4,5) in \<open>simp_all add: publishing_def Cons\<close>)
    then show ?thesis by (simp add: u_def [symmetric] q(1) Cons)
  qed
  then show "publishing e N b D (writer_step e s)" "write_queue (writer_step e s) = tl (write_queue s)" by blast+
qed

lemma publishing_keep:
  assumes "publishing e N b D s" and "memory_store t = memory_store s" and "disk t = disk s"
    and "inflight_layers t = inflight_layers s" and "writer_evicted t = writer_evicted s"
    and "capture_progress t = capture_progress s" and "capture_namespaces t = capture_namespaces s"
    and "capture_write_failed t = capture_write_failed s" and "writer_closed t = writer_closed s"
    and "writer_started s \<longrightarrow> writer_started t" and "write_queue t = write_queue s"
    and "write_results t = write_results s" and "writer_failed_requests t = writer_failed_requests s"
  shows "publishing e N b D t"
  using assms(1,10) by (simp add: publishing_def assms(2-9) assms(11-13))

lemma publishing_run_jobs:
  assumes b: "settled e N T b" and p: "publishing e N b D s" and inj: "inj (key_of e N)"
  shows "publishing e N b D (run_jobs e n s) \<and> write_queue (run_jobs e n s) = drop n (write_queue s)"
proof (induction n)
  case (Suc n)
  have "run_jobs e (Suc n) s = writer_step e (run_jobs e n s)" by (simp add: run_jobs_def)
  then show ?case using publishing_job [OF b conjunct1 [OF Suc] inj] conjunct2 [OF Suc]
    by (simp add: tl_drop drop_Suc)
qed (simp add: run_jobs_def p)

lemma publishing_submit:
  assumes b: "settled e N T b" and p: "publishing e N b D s" and inj: "inj (key_of e N)"
    and d: "donor_at b rid pr"
  shows "publishing e N b (insert rid D) (submit_write e False (metadata_job rid (N rid) pr) s)"
proof -
  let ?j = "metadata_job rid (N rid) pr"
  have opened: "\<not> writer_closed s" using p b by (simp add: publishing_def settled_def capture_inv_def)
  define s1 where "s1 = writer_turn e (s\<lparr>writer_started := True\<rparr>)"
  obtain n1 t1 where t1: "take_turn (s\<lparr>writer_started := True\<rparr>) = (n1, t1)" by fastforce
  have "publishing e N b D t1"
    by (rule publishing_keep [OF p]) (simp_all add: take_turn_fields [OF t1])
  then have p1: "publishing e N b D s1" and q1: "write_queue s1 = drop n1 (write_queue s)"
    using publishing_run_jobs [OF b _ inj, of D t1 n1]
    by (simp_all add: s1_def writer_turn_def t1 take_turn_fields [OF t1])
  have put: "publishing e N b (insert rid D) (put_job ?j t)"
    if "publishing e N b D t" "length (write_queue t) < queue_depth e" for t
  proof -
    have f: "write_queue (put_job ?j t) = write_queue t @ [?j]" "disk (put_job ?j t) = disk t"
      "write_results (put_job ?j t) = write_results t"
      "writer_failed_requests (put_job ?j t) = writer_failed_requests t"
      by (simp_all add: put_job_def)
    have one: "x = pr" if "donor_at b rid x" for x using d that by (simp add: donor_at_def)
    have jobs: "\<forall>j \<in> set (write_queue t @ [?j]). \<exists>rid p. donor_at b rid p \<and> j = metadata_job rid (N rid) p"
      using that(1) d by (auto simp: publishing_def)
    have live: "write_results b = [] \<longrightarrow> write_results t = [] \<and> writer_failed_requests t = {}
          \<and> (\<forall>r \<in> insert rid D. \<forall>p. donor_at b r p \<longrightarrow>
                metadata_job r (N r) p \<in> set (write_queue t @ [?j])
               \<or> record_at t (key_of e N r) = Some (Some (shortest_layer p)))"
      using that(1) one unfolding publishing_def by simp
    show ?thesis unfolding publishing_def f
    proof (intro conjI)
      show "\<forall>j \<in> set (write_queue t @ [?j]). \<exists>rid p. donor_at b rid p \<and> j = metadata_job rid (N rid) p"
        by (rule jobs)
    qed (use that live in \<open>simp_all add: publishing_def put_job_def\<close>)
  qed
  show ?thesis
  proof (cases "length (write_queue s1) < queue_depth e")
    case True
    then have "submit_write e False ?j s = put_job ?j s1" using opened by (simp add: submit_write_def s1_def Let_def)
    then show ?thesis using put [OF p1 True] by simp
  next
    case False
    obtain n s2 where turn: "take_turn s1 = (n, s2)" by fastforce
    have p2: "publishing e N b D s2"
      by (rule publishing_keep [OF p1]) (simp_all add: take_turn_fields [OF turn])
    define s3 where "s3 = run_jobs e (max 1 n) s2"
    note p3 = publishing_run_jobs [OF b p2 inj, of "max 1 n", folded s3_def]
    have room: "length (write_queue s3) < queue_depth e"
    proof -
      have "length (write_queue s) \<le> queue_depth e" using p by (simp add: publishing_def)
      moreover have "0 < queue_depth e" by (simp add: queue_depth_def)
      moreover have "write_queue s3 = drop (max 1 n + n1) (write_queue s)"
        using p3 by (simp add: take_turn_fields [OF turn] q1)
      ultimately show ?thesis by simp
    qed
    have "submit_write e False ?j s = note_write_queue_blocked e ?j (put_job ?j s3)"
      using opened False room by (simp add: submit_write_def s1_def [symmetric] turn s3_def Let_def)
    moreover have "publishing e N b (insert rid D) (note_write_queue_blocked e ?j (put_job ?j s3))"
      by (rule publishing_keep [OF put [OF conjunct1 [OF p3] room]])
        (simp_all add: note_write_queue_blocked_def Let_def)
    ultimately show ?thesis by simp
  qed
qed

lemma publishing_finalizes:
  assumes b: "settled e N T b" and inj: "inj (key_of e N)"
  shows "publishing e N b D s \<Longrightarrow> publishing e N b (D \<union> set rids) (fold (submit_finalize e False) rids s)"
proof (induction rids arbitrary: D s)
  case (Cons rid rids)
  have "publishing e N b (insert rid D) (submit_finalize e False rid s)"
  proof (cases "\<exists>pr. donor_at b rid pr")
    case True
    then obtain pr where d: "donor_at b rid pr" by blast
    have s: "capture_progress s rid = Some pr" "rid \<notin> capture_write_failed s"
      "od_get (capture_namespaces s) rid = Some (N rid)" "pr \<noteq> []"
      using Cons.prems d settled_layers(2,4) [OF b d] by (simp_all add: publishing_def donor_at_def)
    have "submit_finalize e False rid s = submit_write e False (metadata_job rid (N rid) pr)
        (s\<lparr>finalized_donors := (finalized_donors s)(rid \<mapsto> shortest_layer pr)\<rparr>)"
      using s by (simp add: submit_finalize_def progress_of_def Let_def)
    moreover have "publishing e N b D (s\<lparr>finalized_donors := (finalized_donors s)(rid \<mapsto> shortest_layer pr)\<rparr>)"
      by (rule publishing_keep [OF Cons.prems]) simp_all
    ultimately show ?thesis using publishing_submit [OF b _ inj d] by simp
  next
    case False
    then have none: "progress_of s rid = [] \<or> rid \<in> capture_write_failed s"
      using Cons.prems by (auto simp: publishing_def donor_at_def progress_of_def split: option.splits)
    have "submit_finalize e False rid s = s
        \<or> submit_finalize e False rid s = bump (SW Capture_finalize_skipped_write_failed) s"
      using none by (auto simp: submit_finalize_def Let_def split: option.splits)
    moreover have "publishing e N b D (bump (SW Capture_finalize_skipped_write_failed) s)"
      by (rule publishing_keep [OF Cons.prems]) simp_all
    ultimately have "publishing e N b D (submit_finalize e False rid s)" using Cons.prems by auto
    then show ?thesis using False unfolding publishing_def by simp
  qed
  from Cons.IH [OF this] show ?case by simp
qed simp

subsection \<open>The whole join\<close>

lemma flush_eq:
  "flush_captures e s = (let b = settle_captures e s;
       s2 = submit_pending_finalizes e False b
     in drain_writer_reports e (if writer_started s then writer_join e s2 else s2))"
  by (simp add: flush_captures_def settle_captures_def Let_def)

text \<open>A publication leaves no donor pending, and no job in the queue.\<close>

lemma publishing_run_pending:
  fixes s :: "'z worker_st_scheme"
  assumes b: "settled e N T b" and p: "publishing e N b D s" and inj: "inj (key_of e N)"
  shows "finalize_pending (run_jobs e n s) = finalize_pending s"
proof (induction n)
  case (Suc n)
  let ?x = "run_jobs e n s"
  have p': "publishing e N b D ?x" using publishing_run_jobs [OF b p inj] by blast
  have "finalize_pending (writer_step e ?x) = finalize_pending ?x"
  proof (cases "write_queue ?x")
    case (Cons j q)
    then have "wj_kind j = Metadata_job" using p' by (auto simp: publishing_def metadata_job_def)
    then show ?thesis
      by (auto simp: writer_step_def Cons run_write_job_def write_donor_metadata_def take_result_def Let_def
          record_write_error_def writer_count_def split: list.splits write_result.splits option.splits)
  qed (simp add: writer_step_def)
  then show ?case using Suc by (simp add: run_jobs_def)
qed (simp add: run_jobs_def)

lemma publish_settled:
  assumes b: "settled e N T b" and inj: "inj (key_of e N)"
  defines "u \<equiv> submit_pending_finalizes e False b"
  defines "t \<equiv> if writer_started b then writer_join e u else u"
  shows "publishing e N b (set (finalize_pending b)) t" and "write_queue t = []" and "finalize_pending t = []"
proof -
  have inv: "capture_inv e N T b" using b by (simp add: settled_def)
  have pu: "publishing e N b (set (finalize_pending b)) u"
  proof -
    have "publishing e N b (set (sort (finalize_pending b)))
        (fold (submit_finalize e False) (sort (finalize_pending b)) b)"
      using publishing_finalizes [OF b inj publishing_start [OF b], of "sort (finalize_pending b)"]
      by (simp only: Un_empty_left)
    then show ?thesis unfolding u_def submit_pending_finalizes_def set_sort by (rule publishing_keep) simp_all
  qed
  have pend: "finalize_pending u = []" by (simp add: u_def submit_pending_finalizes_def)
  have "publishing e N b (set (finalize_pending b)) t \<and> write_queue t = [] \<and> finalize_pending t = []"
  proof (cases "writer_started b")
    case True
    then have "writer_started u" "\<not> writer_closed u"
      using pu capture_invD(3) [OF inv] by (simp_all add: publishing_def)
    then have t: "t = run_jobs e (length (write_queue u)) u" by (simp add: t_def True writer_join_def)
    show ?thesis
      using publishing_run_jobs [OF b pu inj, of "length (write_queue u)"]
        publishing_run_pending [OF b pu inj, of "length (write_queue u)"] by (simp add: t pend)
  next
    case False
    then have "capture_progress b = Map.empty" using capture_invD(6) [OF inv] by simp
    then have "\<not> donor_at b r x" for r x by (simp add: donor_at_def)
    then have "write_queue u = []" using pu by (cases "write_queue u") (auto simp: publishing_def)
    then show ?thesis using False pu pend by (simp add: t_def)
  qed
  then show "publishing e N b (set (finalize_pending b)) t" "write_queue t = []" "finalize_pending t = []"
    by blast+
qed

text \<open>Draining the reports of a finished publication ends in a settled state again.\<close>

lemma drained_settled:
  assumes b: "settled e N T b" and p: "publishing e N b D s" and q: "write_queue s = []"
  defines "t \<equiv> drain_writer_reports e s"
  shows "settled e N T t" and "capture_progress t = capture_progress b" and "copy_at e t = copy_at e b"
    and "capture_write_failed b \<subseteq> capture_write_failed t"
proof -
  have inv: "capture_inv e N T b" using b by (simp add: settled_def)
  note P = p [unfolded publishing_def]
  have ev: "writer_evicted s = []" and pr: "capture_progress s = capture_progress b"
    and mem: "memory_store s = memory_store b" and fl: "inflight_layers s = inflight_layers b"
    and wf: "capture_write_failed s = capture_write_failed b" and ns: "capture_namespaces s = capture_namespaces b"
    and cl: "writer_closed s = writer_closed b" and st: "writer_started b \<longrightarrow> writer_started s"
    and ly: "\<And>k. dd_layers (dir_of (disk s) k) = dd_layers (dir_of (disk b) k)"
    using P by simp_all
  show prt: "capture_progress t = capture_progress b" by (simp add: t_def drain_fields ev pr)
  show cpt: "copy_at e t = copy_at e b" by (rule ext)+ (simp add: t_def drain_fields stored_def mem ly)
  show wft: "capture_write_failed b \<subseteq> capture_write_failed t" by (auto simp: t_def drain_fields wf)
  have q: "write_queue t = []" "writer_failed_requests t = {}" "writer_evicted t = []"
    using q by (simp_all add: t_def drain_fields)
  have bq: "write_queue b = []" "writer_failed_requests b = {}" "writer_evicted b = []"
    using b by (simp_all add: settled_def)
  have ubt: "unreliable b \<subseteq> unreliable t" using wft by (auto simp: unreliable_def q bq)
  have "copies_ok e N (expect T (capture_progress t)) {} t"
  proof -
    note ok = capture_invD(1) [OF inv]
    have "mem_inv e N t" using copies_okD(1) [OF ok] by (simp add: mem_inv_def t_def drain_fields mem)
    moreover have "inflight_layers t (k, l) \<noteq> Some rows" for k l rows
      using copies_okD(6) [OF ok, of k l rows] by (auto simp: t_def drain_fields fl bq)
    moreover have "copy_at e t (key_of e N rid) l = Some rows"
      if "expect T (capture_progress t) rid l = Some rows" "rid \<notin> unreliable t" for rid l rows
      using copies_okD(5) [OF ok, of rid l rows] that ubt by (auto simp: prt cpt bq)
    ultimately show ?thesis by (simp add: copies_ok_def q)
  qed
  moreover have "writer_started t \<or> capture_progress t = Map.empty"
    using capture_invD(6) [OF inv] st by (auto simp: t_def drain_fields pr ev)
  ultimately have "capture_inv e N T t"
    using capture_invD(3,4,5,7) [OF inv]
    by (simp add: capture_inv_def prt q) (auto simp: t_def drain_fields cl ns)
  then show "settled e N T t" by (simp add: settled_def q)
qed

text \<open>What the records are after the join, relative to the settled state \<open>b\<close> the layers left.\<close>

lemma flush_ok:
  assumes inv: "capture_inv e N T s" and inj: "inj (key_of e N)"
  defines "b \<equiv> settle_captures e s" and "t \<equiv> flush_captures e s"
  shows "settled e N T t" and "finalize_pending t = []"
    and "capture_progress t = capture_progress b" and "copy_at e t = copy_at e b"
    and "capture_write_failed b \<subseteq> capture_write_failed t"
    and "record_at t k = record_at b k \<or> (\<exists>rid p. k = key_of e N rid \<and> donor_at b rid p
          \<and> record_at t k = Some (Some (shortest_layer p)))"
    and "write_results b = [] \<Longrightarrow> rid \<in> set (finalize_pending s) \<Longrightarrow> donor_at b rid p \<Longrightarrow>
          record_at t (key_of e N rid) = Some (Some (shortest_layer p))"
proof -
  note sc = settle_captures_ok [OF inv inj, folded b_def]
  define u where "u = submit_pending_finalizes e False b"
  define s3 where "s3 = (if writer_started b then writer_join e u else u)"
  note pub = publish_settled [OF sc(1) inj, folded u_def, folded s3_def]
  have t: "t = drain_writer_reports e s3" by (simp add: t_def flush_eq Let_def b_def [symmetric] u_def s3_def sc(4))
  note ds = drained_settled [OF sc(1) pub(1,2), folded t]
  show "settled e N T t" "capture_progress t = capture_progress b" "copy_at e t = copy_at e b"
    "capture_write_failed b \<subseteq> capture_write_failed t" by (fact ds)+
  show "finalize_pending t = []" by (simp add: t drain_fields pub(3))
  note P = pub(1) [unfolded publishing_def]
  show "record_at t k = record_at b k \<or> (\<exists>rid p. k = key_of e N rid \<and> donor_at b rid p
          \<and> record_at t k = Some (Some (shortest_layer p)))"
    using P by (simp add: t drain_fields)
  show "record_at t (key_of e N rid) = Some (Some (shortest_layer p))"
    if "write_results b = []" "rid \<in> set (finalize_pending s)" "donor_at b rid p"
    using P pub(2) that by (simp add: t drain_fields sc(3))
qed

subsection \<open>Saving the layers of a step\<close>

lemma capture_inv_finalize: "capture_inv e N T (s\<lparr>finalize_pending := x\<rparr>) = capture_inv e N T s"
proof -
  have "copies_ok e N X {} (s\<lparr>finalize_pending := x\<rparr>) = copies_ok e N X {} s" for X
    by (auto intro: copies_ok_keep)
  then show ?thesis by (simp add: capture_inv_def)
qed

lemma queue_finalize_cases:
  "queue_finalize rid s = s \<or> queue_finalize rid s = s\<lparr>finalize_pending := List.insert rid (finalize_pending s)\<rparr>"
  by (simp add: queue_finalize_def)

lemma queue_finalize_ok:
  assumes "capture_inv e N T s"
  shows "capture_inv e N T (queue_finalize rid s)" and "write_queue (queue_finalize rid s) = write_queue s"
    and "disk (queue_finalize rid s) = disk s" and "unreliable (queue_finalize rid s) = unreliable s"
    and "capture_write_failed (queue_finalize rid s) = capture_write_failed s"
    and "set (finalize_pending s) \<subseteq> set (finalize_pending (queue_finalize rid s))"
  using assms queue_finalize_cases [of rid s]
  by (auto simp: capture_inv_finalize unreliable_def)

lemma queue_finalizes_ok:
  assumes "capture_inv e N T s"
  shows "capture_inv e N T (fold queue_finalize rids s) \<and> write_queue (fold queue_finalize rids s) = write_queue s
    \<and> disk (fold queue_finalize rids s) = disk s
    \<and> capture_write_failed (fold queue_finalize rids s) = capture_write_failed s"
  using assms
proof (induction rids arbitrary: s)
  case (Cons r rids)
  show ?case using Cons.IH [OF queue_finalize_ok(1) [OF Cons.prems]] queue_finalize_ok [OF Cons.prems] by simp
qed simp

text \<open>A step's stores name each request once, under its namespace, and describe what the cache holds.\<close>

definition store_fits ::
  "'p env \<Rightarrow> (string \<Rightarrow> string) \<Rightarrow> kv_truth \<Rightarrow> string \<times> (nat \<times> layer_cache) \<Rightarrow> pending_store \<Rightarrow> bool" where
  "store_fits e N T lk st \<longleftrightarrow> ps_namespace st = N (ps_request_id st)
     \<and> (\<forall>blocks. ps_block_ids st = Some blocks \<longrightarrow> cache_holds e T st blocks (fst lk) (snd lk))"

lemma save_store_ok:
  assumes inv: "capture_inv e N T s" and inj: "inj (key_of e N)" and b: "0 < e_block_size e"
    and new: "(ps_request_id st, layer) \<notin> job_slot ` set (write_queue s)"
    and fits: "store_fits e N T (layer, kv) st"
    and out: "save_store e layer kv st s = (Inr x, t)"
  shows "capture_inv e N T t"
    and "job_slot ` set (write_queue t) \<subseteq> insert (ps_request_id st, layer) (job_slot ` set (write_queue s))"
    and "record_at t k = record_at s k \<or> record_at t k = None"
proof -
  have all: "capture_inv e N T t
    \<and> job_slot ` set (write_queue t) \<subseteq> insert (ps_request_id st, layer) (job_slot ` set (write_queue s))
    \<and> (\<forall>k. record_at t k = record_at s k \<or> record_at t k = None)"
  proof (cases "ps_block_ids st")
    case None
    have t: "t = audit e (Some (ps_request_id st))
             (EC (Ev_capture_skipped Store_without_block_ids (c_kv_storage_backend (e_config e))
                    (At_store_without_blocks layer (ps_token_count st))))
             (bump (SC (Capture_skipped Store_without_block_ids))
               (s\<lparr>worker_skipped_reasons :=
                    (worker_skipped_reasons s)(ps_request_id st \<mapsto> Store_without_block_ids)\<rparr>))"
      using out by (simp add: save_store_def None)
    have "copies_ok e N (expect T (capture_progress s)) {} t"
      by (rule copies_ok_keep [OF capture_invD(1) [OF inv]]) (simp_all add: t)
    then have "capture_inv e N T t" using inv by (simp add: capture_inv_def t)
    then show ?thesis by (simp add: t subset_insertI)
  next
    case (Some blocks)
    obtain y u where cl: "capture_layer e st blocks layer kv s = (y, u)" by fastforce
    obtain z where y: "y = Inr z" using out by (cases y) (simp_all add: save_store_def Some cl)
    have t: "t = (if ps_final st then queue_finalize (ps_request_id st) u else u)"
      using out by (simp add: save_store_def Some cl y)
    note ok = capture_layer_ok [OF inv inj b new _ _ cl [unfolded y]]
    have pre: "ps_namespace st = N (ps_request_id st)" "cache_holds e T st blocks layer kv"
      using fits Some by (simp_all add: store_fits_def)
    note ok = ok [OF pre]
    have "capture_inv e N T t" using ok(1) queue_finalize_ok(1) [OF ok(1)] by (simp add: t)
    moreover have "write_queue t = write_queue u" "disk t = disk u"
      using queue_finalize_ok(2,3) [OF ok(1)] by (simp_all add: t)
    ultimately show ?thesis using ok(2) ok(3) by simp
  qed
  then show "capture_inv e N T t"
    "job_slot ` set (write_queue t) \<subseteq> insert (ps_request_id st, layer) (job_slot ` set (write_queue s))"
    by blast+
  show "record_at t k = record_at s k \<or> record_at t k = None" using all by (elim conjE allE)
qed

lemma save_stores_ok:
  assumes inj: "inj (key_of e N)" and b: "0 < e_block_size e"
  shows "\<lbrakk>save_stores e layer kv sts s = (Inr x, t); capture_inv e N T s;
      \<forall>st \<in> set sts. store_fits e N T (layer, kv) st; distinct (map ps_request_id sts);
      \<forall>st \<in> set sts. (ps_request_id st, layer) \<notin> job_slot ` set (write_queue s)\<rbrakk> \<Longrightarrow>
    capture_inv e N T t
    \<and> job_slot ` set (write_queue t) \<subseteq> job_slot ` set (write_queue s) \<union> UNIV \<times> {layer}
    \<and> (\<forall>k. record_at t k = record_at s k \<or> record_at t k = None)"
proof (induction sts arbitrary: s)
  case (Cons st sts)
  obtain y u where sv: "save_store e layer kv st s = (y, u)" by fastforce
  obtain z where y: "y = Inr z" using Cons.prems(1) by (cases y) (simp_all add: sv)
  have rest: "save_stores e layer kv sts u = (Inr x, t)" using Cons.prems(1) by (simp add: sv y)
  have new: "(ps_request_id st, layer) \<notin> job_slot ` set (write_queue s)" using Cons.prems(5) by simp
  have fits: "store_fits e N T (layer, kv) st" using Cons.prems(3) by simp
  note ok = save_store_ok [OF Cons.prems(2) inj b new fits sv [unfolded y]]
  have "(ps_request_id st', layer) \<notin> job_slot ` set (write_queue u)" if "st' \<in> set sts" for st'
  proof -
    have "ps_request_id st' \<in> ps_request_id ` set sts" using that by (rule imageI)
    then have "ps_request_id st' \<noteq> ps_request_id st" using Cons.prems(4) by auto
    moreover have "(ps_request_id st', layer) \<notin> job_slot ` set (write_queue s)" using that Cons.prems(5) by simp
    ultimately show ?thesis using ok(2) by blast
  qed
  then have IH: "capture_inv e N T t
    \<and> job_slot ` set (write_queue t) \<subseteq> job_slot ` set (write_queue u) \<union> UNIV \<times> {layer}
    \<and> (\<forall>k. record_at t k = record_at u k \<or> record_at t k = None)"
    using Cons.IH [OF rest ok(1)] Cons.prems(3,4) by simp
  have "record_at t k = record_at s k \<or> record_at t k = None" for k
  proof -
    have "record_at t k = record_at u k \<or> record_at t k = None" using IH by (elim conjE allE)
    then show ?thesis using ok(3) [of k] by (elim disjE) simp_all
  qed
  moreover have "job_slot ` set (write_queue t) \<subseteq> job_slot ` set (write_queue s) \<union> UNIV \<times> {layer}"
    using IH ok(2) by blast
  ultimately show ?case using IH by blast
qed simp

end
