(* ===== verification/WorkerTheorems.thy ===== *)
theory WorkerTheorems
  imports Publication
begin

text \<open>
  The worker over a whole run: steps of the engine, each a forward pass over the model's layers followed
  by the join, and finishes of requests, from a worker that has just started on a volume with any
  contents. The properties of the worker's captures, and concrete runs.
\<close>

subsection \<open>A step\<close>

text \<open>vLLM's forward pass calls \<open>save_kv_layer\<close> once per layer and then \<open>wait_for_save\<close>.\<close>

type_synonym layer_pass = "(string \<times> (nat \<times> layer_cache)) list"

fun forward_pass ::
  "'p env \<Rightarrow> connector_metadata \<Rightarrow> layer_pass \<Rightarrow> 'z worker_st_scheme \<Rightarrow> (py_error + unit) \<times> 'z worker_st_scheme" where
  "forward_pass e md [] s = (Inr (), s)"
| "forward_pass e md (lk # lks) s =
     (case save_kv_layer e (Inr md) (fst lk) (snd lk) s of
        (Inl x, s1) \<Rightarrow> (Inl x, s1)
      | (Inr _, s1) \<Rightarrow> forward_pass e md lks s1)"

definition step_worker ::
  "'p env \<Rightarrow> connector_metadata \<Rightarrow> layer_pass \<Rightarrow> 'z worker_st_scheme \<Rightarrow> (py_error + unit) \<times> 'z worker_st_scheme" where
  "step_worker e md lks s =
     (case forward_pass e md lks s of
        (Inl x, s1) \<Rightarrow> (Inl x, s1)
      | (Inr _, s1) \<Rightarrow> (Inr (), flush_captures e s1))"

definition step_fits :: "'p env \<Rightarrow> (string \<Rightarrow> string) \<Rightarrow> kv_truth \<Rightarrow> connector_metadata \<Rightarrow> layer_pass \<Rightarrow> bool" where
  "step_fits e N T md lks \<longleftrightarrow> distinct (map fst lks) \<and> distinct (map ps_request_id (cm_stores md))
     \<and> (\<forall>lk \<in> set lks. \<forall>st \<in> set (cm_stores md). store_fits e N T lk st)"

lemma forward_pass_ok:
  assumes inj: "inj (key_of e N)" and b: "0 < e_block_size e"
  shows "\<lbrakk>forward_pass e md lks s = (Inr x, t); capture_inv e N T s; step_fits e N T md lks;
      \<forall>slot \<in> job_slot ` set (write_queue s). snd slot \<notin> fst ` set lks\<rbrakk> \<Longrightarrow>
    capture_inv e N T t \<and> (\<forall>k. record_at t k = record_at s k \<or> record_at t k = None)"
proof (induction lks arbitrary: s)
  case (Cons lk lks)
  obtain layer kv where lk: "lk = (layer, kv)" by (cases lk)
  define s0 where "s0 = fold queue_finalize (cm_finalize md) s"
  note s0 = queue_finalizes_ok [OF Cons.prems(2), of "cm_finalize md", folded s0_def]
  obtain y u where sv: "save_stores e layer kv (cm_stores md) s0 = (y, u)" by fastforce
  have sk: "save_kv_layer e (Inr md) layer kv s = (y, u)" by (simp add: save_kv_layer_def s0_def [symmetric] sv)
  obtain z where y: "y = Inr z" using Cons.prems(1) by (cases y) (simp_all add: lk sk)
  have rest: "forward_pass e md lks u = (Inr x, t)" using Cons.prems(1) by (simp add: lk sk y)
  have fits: "\<forall>st \<in> set (cm_stores md). store_fits e N T (layer, kv) st" "distinct (map ps_request_id (cm_stores md))"
    "step_fits e N T md lks" "layer \<notin> fst ` set lks"
    using Cons.prems(3) unfolding step_fits_def lk by simp_all
  have free: "\<forall>st \<in> set (cm_stores md). (ps_request_id st, layer) \<notin> job_slot ` set (write_queue s0)"
  proof
    fix st
    have "(ps_request_id st, layer) \<notin> job_slot ` set (write_queue s)"
    proof
      assume "(ps_request_id st, layer) \<in> job_slot ` set (write_queue s)"
      then have "snd (ps_request_id st, layer) \<notin> fst ` set (lk # lks)" by (rule bspec [OF Cons.prems(4)])
      then show False by (simp add: lk)
    qed
    then show "(ps_request_id st, layer) \<notin> job_slot ` set (write_queue s0)" using s0 by simp
  qed
  have s0inv: "capture_inv e N T s0" and q0: "write_queue s0 = write_queue s" and d0: "disk s0 = disk s"
    using s0 by blast+
  note ok = save_stores_ok [OF inj b sv [unfolded y] s0inv fits(1,2) free]
  have uinv: "capture_inv e N T u" by (rule conjunct1 [OF ok])
  have uq: "job_slot ` set (write_queue u) \<subseteq> job_slot ` set (write_queue s0) \<union> UNIV \<times> {layer}"
    by (rule conjunct1 [OF conjunct2 [OF ok]])
  have clear: "\<forall>slot \<in> job_slot ` set (write_queue u). snd slot \<notin> fst ` set lks"
  proof
    fix slot assume "slot \<in> job_slot ` set (write_queue u)"
    then have "slot \<in> job_slot ` set (write_queue s) \<union> UNIV \<times> {layer}" using uq unfolding q0 by (rule rev_subsetD)
    then show "snd slot \<notin> fst ` set lks"
    proof
      assume "slot \<in> job_slot ` set (write_queue s)"
      then have "snd slot \<notin> fst ` set (lk # lks)" by (rule bspec [OF Cons.prems(4)])
      then show ?thesis by simp
    next
      assume "slot \<in> UNIV \<times> {layer}"
      then have "snd slot = layer" by (simp add: mem_Times_iff)
      then show ?thesis using fits(4) by simp
    qed
  qed
  note IH = Cons.IH [OF rest uinv fits(3) clear]
  have "record_at t k = record_at s k \<or> record_at t k = None" for k
  proof -
    have "record_at t k = record_at u k \<or> record_at t k = None" using IH by (elim conjE allE)
    moreover have "record_at u k = record_at s0 k \<or> record_at u k = None" using ok by (elim conjE allE)
    ultimately show ?thesis by (elim disjE) (simp_all add: d0)
  qed
  then show ?case using IH by simp
qed simp

text \<open>A donor is whole at \<open>n\<close>: each of its layers holds at least its first \<open>n\<close> rows, as computed.\<close>

definition whole_donor ::
  "'p env \<Rightarrow> kv_truth \<Rightarrow> 'z worker_st_scheme \<Rightarrow> string \<Rightarrow> string \<Rightarrow> int \<Rightarrow> bool" where
  "whole_donor e T s k rid n \<longleftrightarrow> 0 < n \<and> (\<exists>p. capture_progress s rid = Some p \<and> p \<noteq> [] \<and> n = shortest_layer p
     \<and> (\<forall>layer m. od_get p layer = Some m \<longrightarrow>
          n \<le> m \<and> copy_at e s k layer = Some (map (T rid layer) [0..<nat m])))"

lemma step_worker_ok:
  assumes s: "settled e N T s" and inj: "inj (key_of e N)" and b: "0 < e_block_size e"
    and fits: "step_fits e N T md lks" and out: "step_worker e md lks s = (Inr x, t)"
  shows "settled e N T t" and "finalize_pending t = []"
    and "record_at t k = record_at s k \<or> record_at t k = None
       \<or> (\<exists>rid n. k = key_of e N rid \<and> record_at t k = Some (Some n) \<and> whole_donor e T t k rid n)"
proof -
  obtain y u where fp: "forward_pass e md lks s = (y, u)" by fastforce
  obtain z where y: "y = Inr z" using out by (cases y) (simp_all add: step_worker_def fp)
  have t: "t = flush_captures e u" using out by (simp add: step_worker_def fp y)
  have inv: "capture_inv e N T s" and q: "write_queue s = []" using s by (simp_all add: settled_def)
  have fo: "capture_inv e N T u \<and> (\<forall>k. record_at u k = record_at s k \<or> record_at u k = None)"
    using forward_pass_ok [OF inj b fp [unfolded y] inv fits] by (simp add: q)
  then have uinv: "capture_inv e N T u" by blast
  define v where "v = settle_captures e u"
  note fl = flush_ok [OF uinv inj, folded v_def t]
  show "settled e N T t" "finalize_pending t = []" by (rule fl)+
  have v: "settled e N T v" unfolding v_def by (rule settle_captures_ok(1) [OF uinv inj])
  have "record_at v k = record_at s k \<or> record_at v k = None"
  proof -
    have "record_at u k = record_at s k \<or> record_at u k = None" using fo by (elim conjE allE)
    then show ?thesis using settle_captures_ok(2) [OF uinv inj, of k] by (auto simp: v_def)
  qed
  moreover have "\<exists>rid n. k = key_of e N rid \<and> record_at t k = Some (Some n) \<and> whole_donor e T t k rid n"
    if r: "k = key_of e N rid" "donor_at v rid p" "record_at t k = Some (Some (shortest_layer p))" for rid p
  proof (intro exI conjI)
    show "k = key_of e N rid" "record_at t k = Some (Some (shortest_layer p))" by (rule r)+
    note sl = settled_layers [OF v r(2)]
    have "capture_progress t rid = Some p" using r(2) by (simp add: fl(3) donor_at_def)
    then show "whole_donor e T t k rid (shortest_layer p)"
      using sl(1,2,3,5) by (auto simp: whole_donor_def fl(4) r(1))
  qed
  ultimately show "record_at t k = record_at s k \<or> record_at t k = None
       \<or> (\<exists>rid n. k = key_of e N rid \<and> record_at t k = Some (Some n) \<and> whole_donor e T t k rid n)"
    using fl(6) [of k] by (elim disjE exE conjE) simp_all
qed

subsection \<open>Finishing requests\<close>

lemma discard_fields:
  fixes e :: "'p env" and rid ns :: string
  defines "k \<equiv> storage_key e rid ns"
  shows "memory_store (discard_unpublished_capture e rid ns s) = memory_store s"
    and "same_capture s (discard_unpublished_capture e rid ns s)"
    and "inflight_layers (discard_unpublished_capture e rid ns s) = inflight_layers s"
    and "writer_failed_requests (discard_unpublished_capture e rid ns s) = writer_failed_requests s"
    and "writer_evicted (discard_unpublished_capture e rid ns s) = writer_evicted s"
    and "k' \<noteq> k \<Longrightarrow> disk (discard_unpublished_capture e rid ns s) k' = disk s k'"
    and "record_at (discard_unpublished_capture e rid ns s) k' = record_at s k'"
    and "record_at s k \<noteq> None \<Longrightarrow> discard_unpublished_capture e rid ns s = s"
proof -
  define t where "t = discard_unpublished_capture e rid ns s"
  have all: "t = s \<or> record_at s k = None \<and>
     (memory_store t = memory_store s \<and> same_capture s t \<and> inflight_layers t = inflight_layers s
      \<and> writer_failed_requests t = writer_failed_requests s \<and> writer_evicted t = writer_evicted s
      \<and> (\<exists>v. disk t = (disk s)(k := v) \<and> dd_record (case v of None \<Rightarrow> no_files | Some d \<Rightarrow> d) = None))"
  proof (cases "ns = [] \<or> c_kv_storage_backend (e_config e) \<noteq> ''disk'' \<or> has_stored_donor e (disk s) rid ns
      \<or> disk s k = None")
    case True
    then show ?thesis by (auto simp: t_def discard_unpublished_capture_def Let_def k_def)
  next
    case False
    then obtain d where d: "disk s k = Some d" by blast
    then have rec: "dd_record d = None" "record_at s k = None"
      using False by (simp_all add: has_stored_donor_def k_def dir_of_def)
    obtain r s1 where r: "take_result s = (r, s1)" by fastforce
    note s1 = take_result_fields [OF r]
    define failed where "failed = bump (SW Capture_orphan_discard_errors) s1"
    define gone where "gone = audit e (Some rid) (EW (Ev_capture_orphan_discarded
         (len (dd_layers d) + (if dd_temp d then 1 else 0)) (c_kv_storage_backend (e_config e))))
         (bump (SW Capture_orphans_discarded_total) (s1\<lparr>disk := (disk s1)(k := None)\<rparr>))"
    have t: "t = (case r of
        Fails _ \<Rightarrow> failed
      | Truncates _ \<Rightarrow> failed\<lparr>disk := (disk failed)(k \<mapsto> d\<lparr>dd_layers := tl (dd_layers d)\<rparr>)\<rparr>
      | Lands \<Rightarrow> gone)"
      using False d by (simp add: t_def discard_unpublished_capture_def Let_def k_def [symmetric] r failed_def
          gone_def split: write_result.splits)
    have m: "audit_st.more failed = audit_st.more s1"
      "audit_st.more gone = audit_st.more (s1\<lparr>disk := (disk s1)(k := None)\<rparr>)"
      by (simp_all add: failed_def gone_def)
    note f = worker_fields_eq [OF m(1)] and g = worker_fields_eq [OF m(2)]
    have fs: "same_capture s failed" by (rule same_capture_trans [OF s1(7) f(3)])
    have gs: "same_capture s gone" by (rule same_capture_trans [OF _ g(3)]) (simp add: s1(7))
    show ?thesis
    proof (cases r)
      case Lands
      then show ?thesis using g s1 gs rec
        by (auto simp: t no_files_def intro!: exI [of _ "None :: donor_dir option"])
    next
      case (Fails x)
      have "disk s = (disk s)(k := Some d)" using d by auto
      then show ?thesis using f s1 fs rec Fails by (auto simp: t intro!: exI [of _ "Some d"])
    next
      case (Truncates x)
      then show ?thesis using f s1 fs rec
        by (auto simp: t intro!: exI [of _ "Some (d\<lparr>dd_layers := tl (dd_layers d)\<rparr>)"])
    qed
  qed
  show "memory_store (discard_unpublished_capture e rid ns s) = memory_store s"
    "same_capture s (discard_unpublished_capture e rid ns s)"
    "inflight_layers (discard_unpublished_capture e rid ns s) = inflight_layers s"
    "writer_failed_requests (discard_unpublished_capture e rid ns s) = writer_failed_requests s"
    "writer_evicted (discard_unpublished_capture e rid ns s) = writer_evicted s"
    using all unfolding t_def [symmetric] by auto
  show "disk (discard_unpublished_capture e rid ns s) k' = disk s k'" if "k' \<noteq> k"
    using all that unfolding t_def [symmetric] by auto
  show "record_at (discard_unpublished_capture e rid ns s) k' = record_at s k'"
    using all unfolding t_def [symmetric] by auto
  show "discard_unpublished_capture e rid ns s = s" if "record_at s k \<noteq> None"
    using all that unfolding t_def [symmetric] by auto
qed

lemma forget_worker:
  fixes s :: "'z worker_st_scheme"
  shows "audit_st.more (forget_request_join_key r s) = audit_st.more s"
  by (simp add: forget_request_join_key_def)

lemma finish_one_eq:
  fixes s :: "'z worker_st_scheme" and e :: "'p env" and rid :: string
  defines "d \<equiv> discard_unpublished_capture e rid
      (case od_get (capture_namespaces s) rid of None \<Rightarrow> [] | Some ns \<Rightarrow> ns) s"
  defines "t \<equiv> finish_one e rid s"
  shows "memory_store t = memory_store d" and "disk t = disk d" and "inflight_layers t = inflight_layers d"
    and "write_queue t = write_queue s" and "writer_failed_requests t = writer_failed_requests d"
    and "writer_evicted t = writer_evicted d" and "writer_started t = writer_started s"
    and "writer_closed t = writer_closed s" and "finalize_pending t = finalize_pending s"
    and "capture_progress t = (capture_progress s)(rid := None)"
    and "capture_base_missing_noted t = (capture_base_missing_noted s)(rid := None)"
    and "worker_skipped_reasons t = (worker_skipped_reasons s)(rid := None)"
    and "capture_namespaces t = od_pop (capture_namespaces s) rid"
    and "finalized_donors t = (finalized_donors s)(rid := None)"
    and "capture_write_failed t = capture_write_failed s - {rid}"
    and "queue_blocked_noted t = queue_blocked_noted s - {rid}"
proof -
  define s1 where "s1 = d\<lparr>capture_progress := (capture_progress d)(rid := None),
               capture_base_missing_noted := (capture_base_missing_noted d)(rid := None),
               worker_skipped_reasons := (worker_skipped_reasons d)(rid := None),
               capture_namespaces := od_pop (capture_namespaces d) rid,
               finalized_donors := (finalized_donors d)(rid := None),
               capture_write_failed := capture_write_failed d - {rid},
               queue_blocked_noted := queue_blocked_noted d - {rid}\<rparr>"
  have t: "t = forget_request_join_key rid s1"
    by (simp add: t_def finish_one_def Let_def d_def s1_def)
  note f = worker_fields_eq [OF forget_worker [of rid s1], folded t]
  have sc: "same_capture s d" unfolding d_def by (rule discard_fields(2))
  show "memory_store t = memory_store d" "disk t = disk d" "inflight_layers t = inflight_layers d"
    "write_queue t = write_queue s" "writer_failed_requests t = writer_failed_requests d"
    "writer_evicted t = writer_evicted d" "writer_started t = writer_started s"
    "writer_closed t = writer_closed s" "finalize_pending t = finalize_pending s"
    "capture_progress t = (capture_progress s)(rid := None)"
    "capture_base_missing_noted t = (capture_base_missing_noted s)(rid := None)"
    "worker_skipped_reasons t = (worker_skipped_reasons s)(rid := None)"
    "capture_namespaces t = od_pop (capture_namespaces s) rid"
    "finalized_donors t = (finalized_donors s)(rid := None)"
    "capture_write_failed t = capture_write_failed s - {rid}"
    "queue_blocked_noted t = queue_blocked_noted s - {rid}"
    using f sc unfolding same_capture_def by (simp_all add: s1_def)
qed

lemma finish_one_ok:
  assumes s: "settled e N T s" and inj: "inj (key_of e N)"
  shows "settled e N T (finish_one e rid s)"
    and "record_at (finish_one e rid s) k = record_at s k"
proof -
  define ns where "ns = (case od_get (capture_namespaces s) rid of None \<Rightarrow> [] | Some ns \<Rightarrow> ns)"
  define d where "d = discard_unpublished_capture e rid ns s"
  define t where "t = finish_one e rid s"
  note t = finish_one_eq [where e = e and rid = rid and s = s, folded ns_def, folded d_def t_def]
  note df = discard_fields [where e = e and rid = rid and ns = ns and s = s, folded d_def]
  have inv: "capture_inv e N T s" and q: "write_queue s = []" "writer_failed_requests s = {}" "writer_evicted s = []"
    using s by (simp_all add: settled_def)
  note ok = capture_invD(1) [OF inv]
  show "record_at (finish_one e rid s) k = record_at s k" using df(7) by (simp add: t_def [symmetric] t)
  have tq: "write_queue t = []" "writer_failed_requests t = {}" "writer_evicted t = []"
    by (simp_all add: t df q)
  have other: "dir_of (disk t) (key_of e N r) = dir_of (disk s) (key_of e N r)" if "r \<noteq> rid" for r
  proof (cases "od_get (capture_namespaces s) rid")
    case None
    then have "d = s" by (simp add: d_def ns_def discard_unpublished_capture_def)
    then show ?thesis by (simp add: t)
  next
    case (Some x)
    then have "ns = N rid" using capture_invD(7) [OF inv] by (simp add: ns_def named_by_def)
    moreover have "key_of e N r \<noteq> key_of e N rid" using that inj by (auto dest: injD)
    ultimately show ?thesis using df(6) [of "key_of e N r"] by (simp add: t dir_of_def key_of_def)
  qed
  have "copies_ok e N (expect T (capture_progress t)) {} t"
  proof -
    have "mem_inv e N t" using copies_okD(1) [OF ok] by (simp add: mem_inv_def t df)
    moreover have "inflight_layers t (k, l) \<noteq> Some rows" for k l rows
      using copies_okD(6) [OF ok, of k l rows] by (auto simp: t df q)
    moreover have "copy_at e t (key_of e N r) l = Some rows"
      if "expect T (capture_progress t) r l = Some rows" "r \<notin> unreliable t" for r l rows
    proof -
      have ne: "r \<noteq> rid" using that(1) by (auto simp: expect_def t)
      then have "expect T (capture_progress s) r l = Some rows" using that(1) by (simp add: expect_def t)
      moreover have "r \<notin> unreliable s" using that(2) ne by (simp add: unreliable_def t df)
      ultimately have "copy_at e s (key_of e N r) l = Some rows" using copies_okD(5) [OF ok] by (simp add: q)
      moreover have "copy_at e t (key_of e N r) l = copy_at e s (key_of e N r) l"
        unfolding stored_def other [OF ne] t(1) df(1) ..
      ultimately show ?thesis by simp
    qed
    ultimately show ?thesis by (simp add: copies_ok_def tq)
  qed
  then have "capture_inv e N T t"
    using capture_invD(3,4,5,6,7) [OF inv] by (auto simp: capture_inv_def t q(1) named_by_pop)
  then show "settled e N T (finish_one e rid s)" by (simp add: settled_def t_def [symmetric] tq)
qed

lemma get_finished_ok:
  assumes s: "settled e N T s" and inj: "inj (key_of e N)"
  shows "settled e N T (get_finished e rids s)"
proof -
  have inv: "capture_inv e N T s" using s by (simp add: settled_def)
  have "capture_inv e N T (fold queue_finalize rids s)" using queue_finalizes_ok [OF inv] by blast
  then have "settled e N T (flush_captures e (fold queue_finalize rids s))" using flush_ok(1) inj by blast
  then have "settled e N T (fold (finish_one e) xs (flush_captures e (fold queue_finalize rids s)))" for xs
  proof (induction xs rule: rev_induct)
    case (snoc x xs)
    show ?case using finish_one_ok(1) [OF snoc.IH [OF snoc.prems] inj] by simp
  qed simp
  then show ?thesis by (simp add: get_finished_def)
qed

subsection \<open>Reachable states\<close>

definition init_worker :: "volume \<Rightarrow> nat list \<Rightarrow> write_result list \<Rightarrow> worker_st" where
  "init_worker vol turns results = \<lparr>stats = (\<lambda>_. 0), audit_log = [], request_seq = Map.empty,
     request_event_seq = Map.empty, next_request_seq = 0, prompt_tokenizer = None,
     prompt_tokenizer_failed = False, memory_store = [], disk = vol, capture_progress = Map.empty,
     capture_base_missing_noted = Map.empty, worker_skipped_reasons = Map.empty,
     inflight_layers = Map.empty, write_queue = [], writer_started = False, writer_closed = False,
     writer_turns = turns, write_results = results, capture_namespaces = [], finalized_donors = Map.empty,
     finalize_pending = [], capture_write_failed = {}, queue_blocked_noted = {}, writer_stats = (\<lambda>_. 0),
     writer_events = [], writer_failed_requests = {}, writer_evicted = []\<rparr>"

inductive worker_reach :: "'p env \<Rightarrow> (string \<Rightarrow> string) \<Rightarrow> kv_truth \<Rightarrow> worker_st \<Rightarrow> bool"
  for e N T where
  Start: "worker_reach e N T (init_worker vol turns results)"
| Step: "worker_reach e N T s \<Longrightarrow> step_fits e N T md lks \<Longrightarrow> step_worker e md lks s = (Inr x, t)
    \<Longrightarrow> worker_reach e N T t"
| Finish: "worker_reach e N T s \<Longrightarrow> worker_reach e N T (get_finished e rids s)"

inductive_cases worker_reachE: "worker_reach e N T s"

lemma settled_init: "settled e N T (init_worker vol turns results)"
  by (simp add: settled_def capture_inv_def copies_ok_def mem_inv_def init_worker_def expect_def named_by_def
      od_wf_def od_keys_def od_get_def)

lemma worker_reach_settled:
  assumes "worker_reach e N T s" and inj: "inj (key_of e N)" and b: "0 < e_block_size e"
  shows "settled e N T s"
  using assms(1)
proof (induction rule: worker_reach.induct)
  case (Step s md lks x t)
  show ?case by (rule step_worker_ok(1) [OF Step.IH inj b Step.hyps(2,3)])
next
  case (Finish s rids)
  show ?case by (rule get_finished_ok [OF Finish.IH inj])
qed (rule settled_init)

subsection \<open>Properties\<close>

text \<open>
  C6. A capture reads back what the model computed. Whatever the chunks a prompt was prefilled in, the
  interleaving of the writer thread, the writes that failed and the donors that were evicted: in every
  reachable state, a layer the worker believes captured up to \<open>n\<close> tokens, of a request none of whose writes
  failed, is in its store, and holds exactly the rows of the first \<open>n\<close> tokens, each at its position.
\<close>

theorem captures_read_back:
  assumes "worker_reach e N T s" and "inj (key_of e N)" and "0 < e_block_size e"
    and "capture_progress s rid = Some p" and "od_get p layer = Some n" and "rid \<notin> capture_write_failed s"
  shows "copy_at e s (storage_key e rid (N rid)) layer = Some (map (T rid layer) [0..<nat n])"
  using settled_layers(1) [OF worker_reach_settled [OF assms(1-3)] _ assms(5)] assms(4,6)
  by (simp add: donor_at_def key_of_def)

text \<open>
  C7. A record is published only over a whole donor. If a step of a reachable worker changed what a
  donor's \<open>metadata.json\<close> says, then it either retracted it or wrote the length of the donor's shortest
  layer, and every layer of the donor then holds at least that many rows, exactly as computed: the
  record never overtakes the tensors it describes, and a donor with a failed write is not published.
\<close>

theorem published_donors_are_whole:
  assumes "worker_reach e N T s" and "inj (key_of e N)" and "0 < e_block_size e"
    and "step_fits e N T md lks" and "step_worker e md lks s = (Inr x, t)"
    and "record_at t k \<noteq> record_at s k"
  shows "record_at t k = None
    \<or> (\<exists>rid n. k = storage_key e rid (N rid) \<and> record_at t k = Some (Some n) \<and> whole_donor e T t k rid n)"
  using step_worker_ok(3) [OF worker_reach_settled [OF assms(1-3)] assms(2-5), of k] assms(6)
  by (simp add: key_of_def)

text \<open>
  C26. The join publishes every donor it can. From a state with the invariant of the captures, when a
  step's join returns, each donor that was to be finalized, whose capture survived the join's first half,
  and none of whose writes failed, has its record, at the length of its shortest layer, provided the
  volume takes the writes; nothing is left to publish.
\<close>

theorem join_publishes_pending:
  assumes "capture_inv e N T s" and "inj (key_of e N)" and "rid \<in> set (finalize_pending s)"
    and "write_results (settle_captures e s) = []"
    and "capture_progress (settle_captures e s) rid = Some p"
    and "rid \<notin> capture_write_failed (settle_captures e s)"
  shows "record_at (flush_captures e s) (storage_key e rid (N rid)) = Some (Some (shortest_layer p))
    \<and> finalize_pending (flush_captures e s) = [] \<and> write_queue (flush_captures e s) = []"
  using flush_ok(7) [OF assms(1,2,4,3), of p] flush_ok(1,2) [OF assms(1,2)] assms(5,6)
  by (simp add: donor_at_def key_of_def settled_def)

text \<open>
  The memory tier is bounded: after any run of steps and finishes it holds at most
  \<open>max(1, kv_memory_max_donors)\<close> donors, each once and under the key of its request.
\<close>

theorem memory_store_bounded:
  assumes "worker_reach e N T s" and "inj (key_of e N)" and "0 < e_block_size e"
  shows "length (memory_store s) \<le> nat (max 1 (c_kv_memory_max_donors (e_config e)))
    \<and> distinct (od_keys (memory_store s))
    \<and> (\<forall>k entry. od_get (memory_store s) k = Some entry \<longrightarrow>
          k = storage_key e (me_request_id entry) (N (me_request_id entry)))"
  using copies_okD(1) [OF capture_invD(1)] worker_reach_settled [OF assms]
  by (simp add: settled_def mem_inv_def memory_cap_def od_wf_def key_of_def capture_inv_def copies_ok_def)

text \<open>
  Eviction ends, whatever the size of the store, and drops exactly the least recently used donors
  above the cap, in that order; it changes no layer file, and a record only by retracting it.
\<close>

theorem eviction_is_lru:
  "memory_store (evict_to_cap cap s) = drop (length (memory_store s) - cap) (memory_store s)
   \<and> writer_evicted (evict_to_cap cap s)
       = writer_evicted s @ map (me_request_id \<circ> snd) (take (length (memory_store s) - cap) (memory_store s))
   \<and> (\<forall>k. dd_layers (dir_of (disk (evict_to_cap cap s)) k) = dd_layers (dir_of (disk s) k))
   \<and> (\<forall>k. record_at (evict_to_cap cap s) k = record_at s k \<or> record_at (evict_to_cap cap s) k = None)"
  using evict_to_cap_spec [of cap s] by simp

text \<open>
  Deleting an orphan never costs a donor: \<open>_discard_unpublished_capture\<close> leaves a state in which the
  capture has a record as it is, changes no directory but that of the capture, and no record at all.
\<close>

theorem discard_spares_donors:
  "(record_at s (storage_key e rid ns) \<noteq> None \<longrightarrow> discard_unpublished_capture e rid ns s = s)
   \<and> (\<forall>k. k \<noteq> storage_key e rid ns \<longrightarrow> disk (discard_unpublished_capture e rid ns s) k = disk s k)
   \<and> (\<forall>k. record_at (discard_unpublished_capture e rid ns s) k = record_at s k)"
  using discard_fields(6-8) [where e = e and rid = rid and ns = ns and s = s] by simp

subsection \<open>A finish leaves nothing behind\<close>

definition forgotten :: "string \<Rightarrow> 'z worker_st_scheme \<Rightarrow> bool" where
  "forgotten rid s \<longleftrightarrow> capture_progress s rid = None \<and> capture_base_missing_noted s rid = None
     \<and> worker_skipped_reasons s rid = None \<and> od_get (capture_namespaces s) rid = None
     \<and> finalized_donors s rid = None \<and> rid \<notin> capture_write_failed s \<and> rid \<notin> queue_blocked_noted s
     \<and> request_seq s rid = None \<and> request_event_seq s rid = None"

lemma audit_other_request:
  assumes "r \<noteq> rid"
  shows "request_seq (audit e (Some r) ev s) rid = request_seq s rid"
    and "request_event_seq (audit e (Some r) ev s) rid = request_event_seq s rid"
  using assms by (auto simp: audit_def take_join_key_def take_event_seq_def stamp_request_seq_def Let_def
      split: option.splits)

lemma discard_other_request:
  assumes "r \<noteq> rid"
  shows "request_seq (discard_unpublished_capture e r ns s) rid = request_seq s rid"
    and "request_event_seq (discard_unpublished_capture e r ns s) rid = request_event_seq s rid"
  using assms
  by (auto simp: discard_unpublished_capture_def Let_def audit_other_request take_result_def
      split: option.splits write_result.splits list.splits)

lemma finish_one_forgets: "forgotten rid (finish_one e rid s)"
  by (simp add: forgotten_def finish_one_eq) (simp add: finish_one_def Let_def forget_request_join_key_def)

lemma finish_one_keeps_forgotten:
  assumes "forgotten rid s"
  shows "forgotten rid (finish_one e r s)"
proof (cases "r = rid")
  case False
  define ns where "ns = (case od_get (capture_namespaces s) r of None \<Rightarrow> [] | Some ns \<Rightarrow> ns)"
  have "request_seq (finish_one e r s) rid = request_seq s rid"
    "request_event_seq (finish_one e r s) rid = request_event_seq s rid"
    using False by (simp_all add: finish_one_def Let_def forget_request_join_key_def ns_def [symmetric]
        discard_other_request)
  then show ?thesis using assms False by (auto simp: forgotten_def finish_one_eq)
qed (simp add: finish_one_forgets)

text \<open>
  A finished request leaves nothing behind in the worker: whatever the state before, none of its
  per-request maps, nor the join key its audit rows carry, mentions it after \<open>get_finished\<close>.
\<close>

theorem finished_request_forgotten:
  assumes "rid \<in> set rids"
  shows "forgotten rid (get_finished e rids s)"
proof -
  have "forgotten rid (fold (finish_one e) xs t)" if "rid \<in> set xs" for xs t
    using that
  proof (induction xs rule: rev_induct)
    case (snoc x xs)
    then show ?case
      by (cases "rid = x") (simp_all add: finish_one_forgets finish_one_keeps_forgotten)
  qed simp
  then show ?thesis using assms by (simp add: get_finished_def)
qed

subsection \<open>Concrete runs\<close>

text \<open>A prompt of two blocks of two tokens, captured in one step of a model of one layer.\<close>

definition run_config :: config where
  "run_config = \<lparr>
     c_mode = DISCOVERY_ONLY, c_provider = [], c_provider_module = None, c_provider_class = None,
     c_model_id = None, c_min_prompt_tokens = 2, c_min_semantic_span = 2, c_lookup_precheck = True,
     c_multi_donor_spans = False, c_min_mid_prefill_segment = 2, c_min_boundary_tokens = 0,
     c_evict_filled_blocks_from_prefix_cache = True, c_min_similarity = 0, c_min_reuse_ratio = 0, c_embedder_type = None, c_chunk_size = None, c_max_donors = 2, c_register_donors = True,
     c_skip_when_exact_prefix_ratio_at_least = 0, c_lookup_top_k = 5, c_enable_prompt_text = False,
     c_boundary_sliced_query_text = True, c_min_query_text_chars = 2, c_log_decisions = True,
     c_audit_path = None, c_kv_storage_path = [], c_max_materialized_tokens = 2,
     c_allow_non_identical_request_only = False, c_capture_served_requests = False, c_capture_policy =
     [], c_capture_sample_rate = 1, c_capture_hint_key = [], c_stage_hint_key = [],
     c_capture_write_queue_depth = 2, c_capture_async_copy = True, c_capture_write_close_timeout_s = 5,
     c_donor_registration_retry_steps = 8, c_kv_storage_backend = ''disk'', c_kv_memory_max_donors = 2\<rparr>"

abbreviation run_env :: "unit env" where
  "run_env \<equiv> (sample_env silent_provider run_config)\<lparr>e_block_size := 2\<rparr>"

definition run_ns :: "string \<Rightarrow> string" where
  "run_ns rid = ''n''"

definition run_truth :: kv_truth where
  "run_truth rid layer i = int i"

definition run_layers :: layer_pass where
  "run_layers = [(''l0'', (2, \<lambda>page offset. int (page * 2 + offset)))]"

definition run_store :: "int \<Rightarrow> bool \<Rightarrow> pending_store" where
  "run_store n final = \<lparr>ps_request_id = ''r'', ps_token_ids = [], ps_token_count = n, ps_namespace = ''n'',
     ps_block_ids = Some [[0, 1]], ps_final = final\<rparr>"

definition run_md :: "int \<Rightarrow> bool \<Rightarrow> connector_metadata" where
  "run_md n final = \<lparr>cm_loads = [], cm_stores = [run_store n final], cm_finalize = []\<rparr>"

definition run0 :: worker_st where
  "run0 = init_worker Map.empty [1] []"

definition run1 :: worker_st where
  "run1 = snd (step_worker run_env (run_md 4 True) run_layers run0)"

lemma run_isl: "isl (fst (step_worker run_env (run_md 4 True) run_layers run0)) = False"
  by code_simp

lemma run_progress: "map_option (\<lambda>p. od_get p ''l0'') (capture_progress run1 ''r'') = Some (Some 4)"
  by code_simp

lemma run_not_failed: "(''r'' \<in> capture_write_failed run1) = False"
  by code_simp

lemma run_record: "record_at run1 ''n:r'' = Some (Some 4)"
  by code_simp

lemma run_step: "step_worker run_env (run_md 4 True) run_layers run0 = (Inr (), run1)"
  using run_isl by (cases "fst (step_worker run_env (run_md 4 True) run_layers run0)") (auto simp: run1_def prod_eq_iff)

lemma run_facts:
  "\<exists>p. capture_progress run1 ''r'' = Some p \<and> od_get p ''l0'' = Some 4" "''r'' \<notin> capture_write_failed run1"
  "record_at run1 ''n:r'' = Some (Some 4)"
  using run_progress run_not_failed run_record by auto

lemma run_key: "key_of run_env run_ns rid = ''n:'' @ rid"
  by (simp add: key_of_def storage_key_def run_ns_def sample_env_def)

lemma run_inj: "inj (key_of run_env run_ns)"
  by (rule injI) (simp add: run_key)

lemma run_fits: "n \<le> 4 \<Longrightarrow> step_fits run_env run_ns run_truth (run_md n final) run_layers"
proof -
  assume n: "n \<le> 4"
  have "cell 2 (\<lambda>page offset. int (page * 2 + offset)) (slot_at 2 [0, 1] i) = int i" if "i < 4" for i
  proof -
    have "i div 2 = 0 \<or> i div 2 = 1" using that by auto
    then have "[0, 1] ! (i div 2) = i div 2" by (elim disjE) simp_all
    then have "slot_at 2 [0, 1] i = i" by (simp add: slot_at_def)
    moreover have "int (i div 2) * 2 + int (i mod 2) = int i" by (simp add: zdiv_int zmod_int)
    ultimately show ?thesis by (simp add: cell_def)
  qed
  then show ?thesis
    using n by (simp add: step_fits_def run_layers_def run_md_def store_fits_def run_store_def run_ns_def cache_holds_def
        run_truth_def sample_env_def)
qed

lemma run_reach: "worker_reach run_env run_ns run_truth run0" "worker_reach run_env run_ns run_truth run1"
proof -
  show r0: "worker_reach run_env run_ns run_truth run0" unfolding run0_def by (rule worker_reach.Start)
  show "worker_reach run_env run_ns run_truth run1"
    by (rule worker_reach.Step [OF r0 run_fits run_step]) simp
qed

lemma run_block: "0 < e_block_size run_env"
  by simp

lemma run_storage_key: "storage_key run_env ''r'' (run_ns ''r'') = ''n:r''"
  using run_key [of "''r''"] by (simp add: key_of_def)

theorem captures_read_back_witness: "copy_at run_env run1 ''n:r'' ''l0'' = Some [0, 1, 2, 3]"
proof -
  obtain p where p: "capture_progress run1 ''r'' = Some p" "od_get p ''l0'' = Some 4" using run_facts(1) by blast
  have "map (run_truth ''r'' ''l0'') [0..<nat 4] = [0, 1, 2, 3]" by code_simp
  then show ?thesis
    using captures_read_back [OF run_reach(2) run_inj run_block p run_facts(2)] unfolding run_storage_key by simp
qed

theorem published_donors_are_whole_witness:
  "\<exists>rid n. record_at run1 ''n:r'' = Some (Some n) \<and> whole_donor run_env run_truth run1 ''n:r'' rid n"
proof -
  have "record_at run0 ''n:r'' = None" by code_simp
  then have ne: "record_at run1 ''n:r'' \<noteq> record_at run0 ''n:r''" by (simp add: run_facts(3))
  have "step_fits run_env run_ns run_truth (run_md 4 True) run_layers" by (rule run_fits) simp
  from published_donors_are_whole [OF run_reach(1) run_inj run_block this run_step ne]
  show ?thesis using run_facts(3) by (elim disjE exE conjE) (simp, blast)
qed

theorem memory_store_bounded_witness: "length (memory_store run1) \<le> 2"
  using memory_store_bounded [OF run_reach(2) run_inj run_block] by (simp add: sample_env_def run_config_def)

theorem discard_spares_donors_witness: "discard_unpublished_capture run_env ''r'' ''n'' run1 = run1"
proof -
  have "record_at run1 (storage_key run_env ''r'' ''n'') \<noteq> None"
    using run_storage_key run_facts(3) by (simp add: run_ns_def)
  then show ?thesis using discard_spares_donors [of run1 run_env "''r''" "''n''"] by (elim conjE impE)
qed

theorem finished_request_forgotten_witness: "forgotten ''r'' (get_finished run_env [''r''] run1)"
  by (rule finished_request_forgotten) simp

text \<open>The same prompt in one step, between its forward pass and the join.\<close>

definition run_mid :: worker_st where
  "run_mid = snd (forward_pass run_env (run_md 4 True) run_layers run0)"

lemma run_mid_isl: "isl (fst (forward_pass run_env (run_md 4 True) run_layers run0)) = False"
  by code_simp

lemma run_mid_pending: "finalize_pending run_mid = [''r'']"
  by code_simp

lemma run_mid_results: "write_results (settle_captures run_env run_mid) = []"
  by code_simp

lemma run_mid_progress:
  "map_option shortest_layer (capture_progress (settle_captures run_env run_mid) ''r'') = Some 4"
  by code_simp

lemma run_mid_not_failed: "(''r'' \<in> capture_write_failed (settle_captures run_env run_mid)) = False"
  by code_simp

theorem join_publishes_pending_witness: "record_at (flush_captures run_env run_mid) ''n:r'' = Some (Some 4)"
proof -
  have fp: "forward_pass run_env (run_md 4 True) run_layers run0 = (Inr (), run_mid)"
    using run_mid_isl by (cases "fst (forward_pass run_env (run_md 4 True) run_layers run0)")
      (auto simp: run_mid_def prod_eq_iff)
  have "capture_inv run_env run_ns run_truth run0 \<and> write_queue run0 = []"
    using settled_init [of run_env run_ns run_truth Map.empty "[1]" "[]"] by (simp add: settled_def run0_def)
  then have inv: "capture_inv run_env run_ns run_truth run_mid"
    using forward_pass_ok [OF run_inj run_block fp _ run_fits] by simp
  obtain p where p: "capture_progress (settle_captures run_env run_mid) ''r'' = Some p" "shortest_layer p = 4"
    using run_mid_progress by auto
  have pend: "''r'' \<in> set (finalize_pending run_mid)" by (simp add: run_mid_pending)
  have ok: "''r'' \<notin> capture_write_failed (settle_captures run_env run_mid)" using run_mid_not_failed by simp
  show ?thesis
    using join_publishes_pending [OF inv run_inj pend run_mid_results p(1) ok] unfolding run_storage_key p(2) by blast
qed

end
