(* ===== verification/LoadProps.thy ===== *)
theory LoadProps
  imports Load WorkerTheorems
begin

text \<open>
  What a load does to the engine's KV tensors. \<open>gpu_frame\<close> says which cells an operation may change,
  \<open>landed\<close> that a layer's window holds the donor's rows; the lemmas carry both from one layer to a load
  and to all the loads of a step.
\<close>

subsection \<open>Fields\<close>

lemma load_fields_eq:
  fixes s t :: "'z load_st_scheme"
  assumes "worker_st.more t = worker_st.more s"
  shows "gpu t = gpu s" "registered_kv_caches t = registered_kv_caches s"
    "last_attn_metadata t = last_attn_metadata s" "load_error_blocks t = load_error_blocks s"
  using assms by (cases s; cases t; simp)+

lemma audit_more_load:
  fixes s t :: "'z load_st_scheme"
  assumes "audit_st.more t = audit_st.more s"
  shows "gpu t = gpu s" "registered_kv_caches t = registered_kv_caches s"
    "load_error_blocks t = load_error_blocks s"
  using assms by (cases s; cases t; simp)+

lemmas audit_load [simp] = audit_more_load [OF more_audit]

lemma bump_by_load [simp]:
  fixes s :: "'z load_st_scheme"
  shows "gpu (bump_by k n s) = gpu s" "registered_kv_caches (bump_by k n s) = registered_kv_caches s"
    "load_error_blocks (bump_by k n s) = load_error_blocks s" "disk (bump_by k n s) = disk s"
    "memory_store (bump_by k n s) = memory_store s"
  by (simp_all add: bump_by_def)

lemma bump_load [simp]:
  fixes s :: "'z load_st_scheme"
  shows "gpu (bump k s) = gpu s" "registered_kv_caches (bump k s) = registered_kv_caches s"
    "load_error_blocks (bump k s) = load_error_blocks s"
  by (simp_all add: bump_def)

lemma slot_mapping_fields:
  fixes s :: "'z load_st_scheme"
  assumes "slot_mapping e bs n t s = (r, s')"
  shows "gpu s' = gpu s" "registered_kv_caches s' = registered_kv_caches s" "disk s' = disk s"
    "memory_store s' = memory_store s" "load_error_blocks s' = load_error_blocks s"
  using assms by (auto simp: slot_mapping_def Let_def split: if_splits)

subsection \<open>The writer leaves the load path's state alone\<close>

lemma evict_more: "worker_st.more (evict_memory_donor s) = worker_st.more s"
  by (simp add: evict_memory_donor_def writer_count_def take_result_def Let_def split: list.splits option.splits)

lemma evict_to_cap_more: "worker_st.more (evict_to_cap cap s) = worker_st.more s"
proof (induction cap s rule: evict_to_cap.induct)
  case (1 cap s)
  then show ?case by (subst evict_to_cap.simps) (simp add: evict_more)
qed

lemma memory_write_more: "worker_st.more (memory_write e j s) = worker_st.more s"
  by (simp add: memory_write_def Let_def evict_to_cap_more split: option.splits)

lemma take_result_more: "worker_st.more (snd (take_result s)) = worker_st.more s"
  by (simp add: take_result_def split: list.splits)

lemma run_write_job_more: "worker_st.more (snd (run_write_job e j s)) = worker_st.more s"
  using take_result_more [of s]
  by (auto simp: run_write_job_def write_captured_layer_def write_donor_metadata_def writer_count_def Let_def
      memory_write_more split_beta split: job_kind.splits write_result.splits)

lemma writer_step_more: "worker_st.more (writer_step e s) = worker_st.more s"
proof (cases "write_queue s")
  case (Cons j q)
  obtain x s1 where r: "run_write_job e j (s\<lparr>write_queue := q\<rparr>) = (x, s1)" by fastforce
  have "worker_st.more s1 = worker_st.more s" using run_write_job_more [of e j "s\<lparr>write_queue := q\<rparr>"] by (simp add: r)
  then show ?thesis
    by (simp add: writer_step_def Cons r record_write_error_def writer_count_def Let_def split: option.splits)
qed (simp add: writer_step_def)

lemma writer_turn_more: "worker_st.more (writer_turn e s) = worker_st.more s"
proof -
  have "worker_st.more ((writer_step e ^^ n) t) = worker_st.more t" for n t
    by (induction n) (simp_all add: writer_step_more)
  note steps = this
  show ?thesis
    by (cases "writer_turns s") (simp_all add: writer_turn_def run_jobs_def take_turn_def Let_def steps)
qed

lemma writer_turn_load [simp]:
  fixes s :: "'z load_st_scheme"
  shows "gpu (writer_turn e s) = gpu s" "registered_kv_caches (writer_turn e s) = registered_kv_caches s"
    "load_error_blocks (writer_turn e s) = load_error_blocks s"
  by (rule load_fields_eq [OF writer_turn_more])+

subsection \<open>Cells\<close>

definition gpu_cell :: "'z load_st_scheme \<Rightarrow> nat \<Rightarrow> nat \<Rightarrow> int" where
  "gpu_cell s tid = cell (kt_page (gpu s tid)) (kt_cells (gpu s tid))"

definition paged_by :: "'p env \<Rightarrow> 'z load_st_scheme \<Rightarrow> bool" where
  "paged_by e s \<longleftrightarrow> (\<forall>tid. kt_page (gpu s tid) = nat (e_block_size e))"

definition gpu_frame :: "nat set \<Rightarrow> 'z load_st_scheme \<Rightarrow> 'z load_st_scheme \<Rightarrow> bool" where
  "gpu_frame W s s' \<longleftrightarrow> (\<forall>tid. kt_page (gpu s' tid) = kt_page (gpu s tid))
     \<and> (\<forall>tid slot. slot \<notin> W \<longrightarrow> gpu_cell s' tid slot = gpu_cell s tid slot)"

lemma gpu_frame_refl: "gpu s' = gpu s \<Longrightarrow> gpu_frame W s s'"
  by (simp add: gpu_frame_def gpu_cell_def)

lemma gpu_frame_trans: "gpu_frame W s t \<Longrightarrow> gpu_frame W t u \<Longrightarrow> gpu_frame W s u"
  by (simp add: gpu_frame_def)

lemma gpu_frame_mono: "gpu_frame V s t \<Longrightarrow> V \<subseteq> W \<Longrightarrow> gpu_frame W s t"
  by (auto simp: gpu_frame_def)

lemma paged_frame: "gpu_frame W s t \<Longrightarrow> paged_by e s \<Longrightarrow> paged_by e t"
  by (simp add: gpu_frame_def paged_by_def)

text \<open>The slots of the window of a load over a block table.\<close>

definition window_of :: "'p env \<Rightarrow> block_table \<Rightarrow> pending_load \<Rightarrow> nat list" where
  "window_of e blocks l =
     (let t = start_or_zero (pl_target_start l)
      in map (slot_at (e_block_size e) (blocks ! 0)) [nat t..<nat (t + pl_token_count l)])"

definition sane_load :: "'p env \<Rightarrow> pending_load \<Rightarrow> bool" where
  "sane_load e l \<longleftrightarrow> 0 < e_block_size e \<and> 0 \<le> start_or_zero (pl_target_start l) \<and> 0 < pl_token_count l
     \<and> (\<forall>blocks. pl_block_ids l = Some blocks \<longrightarrow> distinct (blocks ! 0))"

lemma inject_frame:
  assumes p: "0 < kt_page t" and out: "inject_into_layer t rows slots md = Inr t'"
  shows "kt_page t' = kt_page t" and "slot \<notin> set slots \<Longrightarrow> cell (kt_page t') (kt_cells t') slot = cell (kt_page t) (kt_cells t) slot"
    and "distinct slots \<Longrightarrow> length rows = length slots \<Longrightarrow> extract_kv (kt_page t') (kt_cells t') slots = rows"
    and "\<not> is_mla_metadata md \<Longrightarrow> length rows = length slots"
proof -
  define rows' where "rows' = (if is_mla_metadata md \<and> length rows = 1 then replicate (length slots) (hd rows) else rows)"
  have c: "length rows' = length slots" and t': "t' = t\<lparr>kt_cells := fold (write_cell (kt_page t)) (zip slots rows') (kt_cells t)\<rparr>"
    using out unfolding inject_into_layer_def Let_def rows'_def [symmetric] inject_kv_def
    by (auto split: if_splits)
  show "kt_page t' = kt_page t" by (simp add: t')
  show "cell (kt_page t') (kt_cells t') slot = cell (kt_page t) (kt_cells t) slot" if "slot \<notin> set slots"
    using cell_fold_write(1) [OF p that] by (simp add: t')
  show "extract_kv (kt_page t') (kt_cells t') slots = rows" if d: "distinct slots" and l: "length rows = length slots"
  proof -
    have "rows' = rows" using l by (cases rows) (auto simp: rows'_def)
    then show ?thesis using cell_fold_write(2) [OF p d l] by (simp add: t' extract_kv_def)
  qed
  show "length rows = length slots" if "\<not> is_mla_metadata md" using c that by (simp add: rows'_def)
qed

subsection \<open>One layer\<close>

lemma write_layer_spec:
  fixes s :: "'z load_st_scheme"
  assumes sane: "sane_load e l" and bl: "pl_block_ids l = Some blocks" and pg: "paged_by e s"
    and out: "write_layer e blocks l tid md rows s = (r, s')"
  shows "gpu_frame (set (window_of e blocks l)) s s'" and "tid' \<noteq> tid \<Longrightarrow> gpu s' tid' = gpu s tid'"
    and "disk s' = disk s" and "registered_kv_caches s' = registered_kv_caches s"
    and "load_error_blocks s' = load_error_blocks s"
    and "r = Inr out \<Longrightarrow> out = Layer_written
      \<and> (len rows = pl_token_count l \<longrightarrow> map (gpu_cell s' tid) (window_of e blocks l) = rows)
      \<and> (is_mla_metadata md \<or> len rows = pl_token_count l)"
proof -
  let ?t = "start_or_zero (pl_target_start l)" and ?n = "pl_token_count l"
  have b: "0 < e_block_size e" and t: "0 \<le> ?t" and n: "0 < ?n" and d: "distinct (blocks ! 0)"
    using sane bl by (simp_all add: sane_load_def)
  have p: "0 < kt_page (gpu s tid)" using pg b by (simp add: paged_by_def)
  obtain sm s1 where sm: "slot_mapping e blocks ?n ?t s = (sm, s1)" by fastforce
  note f = slot_mapping_fields [OF sm]
  have main: "gpu_frame (set (window_of e blocks l)) s s' \<and> (\<forall>tid'. tid' \<noteq> tid \<longrightarrow> gpu s' tid' = gpu s tid')
      \<and> disk s' = disk s \<and> registered_kv_caches s' = registered_kv_caches s
      \<and> load_error_blocks s' = load_error_blocks s
      \<and> (\<forall>out. r = Inr out \<longrightarrow> out = Layer_written
          \<and> (len rows = ?n \<longrightarrow> map (gpu_cell s' tid) (window_of e blocks l) = rows)
          \<and> (is_mla_metadata md \<or> len rows = ?n))"
  proof (cases sm)
    case (Inl x)
    then have "s' = s1" "r = Inl x" using out by (simp_all add: write_layer_def sm)
    then show ?thesis using f by (simp add: gpu_frame_refl)
  next
    case (Inr slots)
    note smr = sm [unfolded Inr]
    have n0: "0 \<le> ?n" using n by simp
    have sl: "slots = window_of e blocks l"
      using slot_mapping_slots [OF b t n0 smr] by (simp add: window_of_def Let_def)
    have dist: "distinct slots" by (rule slot_mapping_distinct [OF b t n0 smr d])
    have ln: "length slots = nat ?n" by (rule slot_mapping_Inr(3) [OF b t n0 smr])
    show ?thesis
    proof (cases "inject_into_layer (gpu s1 tid) rows slots md")
      case (Inl x)
      then have "s' = s1" "r = Inl x" using out by (simp_all add: write_layer_def smr)
      then show ?thesis using f by (simp add: gpu_frame_refl)
    next
      case (Inr kt)
      then have s': "s' = s1\<lparr>gpu := (gpu s1)(tid := kt)\<rparr>" and r: "r = Inr Layer_written"
        using out by (simp_all add: write_layer_def smr)
      have inj: "inject_into_layer (gpu s tid) rows slots md = Inr kt" using Inr by (simp add: f)
      note ij = inject_frame [OF p inj]
      have "gpu_frame (set (window_of e blocks l)) s s'"
        using ij(1,2) by (auto simp: gpu_frame_def gpu_cell_def s' f sl)
      moreover have "map (gpu_cell s' tid) (window_of e blocks l) = rows" if "len rows = ?n"
      proof -
        have "length rows = length slots" using that ln by linarith
        from ij(3) [OF dist this] show ?thesis by (simp add: gpu_cell_def s' extract_kv_def sl)
      qed
      moreover have "is_mla_metadata md \<or> len rows = ?n" using ij(4) ln n by (cases "is_mla_metadata md") simp_all
      ultimately show ?thesis by (simp add: s' f r)
    qed
  qed
  then show "gpu_frame (set (window_of e blocks l)) s s'" "disk s' = disk s"
    "registered_kv_caches s' = registered_kv_caches s" "load_error_blocks s' = load_error_blocks s" by blast+
  show "gpu s' tid' = gpu s tid'" if "tid' \<noteq> tid" using main that by blast
  show "out = Layer_written
      \<and> (len rows = pl_token_count l \<longrightarrow> map (gpu_cell s' tid) (window_of e blocks l) = rows)
      \<and> (is_mla_metadata md \<or> len rows = pl_token_count l)" if "r = Inr out"
    using main that by blast
qed

text \<open>
  The rows a layer's window is to hold: what \<open>source_rows\<close> makes of the donor's layer. \<open>landed\<close> speaks of
  the tensors of a later state \<open>s'\<close>; a window of the wrong length lands only in an MLA layer.
\<close>

definition layer_source ::
  "'p env \<Rightarrow> load_lib \<Rightarrow> pending_load \<Rightarrow> mem_entry option \<Rightarrow> attn_meta option \<Rightarrow> 'z load_st_scheme \<Rightarrow> string
     \<Rightarrow> (py_error + (span_decline + kv_rows)) option" where
  "layer_source e lib l entry attn s layer =
     map_option (\<lambda>src. source_rows e lib src l (layer_attn_metadata attn layer)) (donor_layer e entry l layer s)"

definition landed ::
  "'p env \<Rightarrow> load_lib \<Rightarrow> block_table \<Rightarrow> pending_load \<Rightarrow> mem_entry option \<Rightarrow> attn_meta option \<Rightarrow> 'z load_st_scheme
     \<Rightarrow> 'z load_st_scheme \<Rightarrow> string \<times> nat \<Rightarrow> bool" where
  "landed e lib blocks l entry attn s s' lt \<longleftrightarrow>
     (\<exists>rows. layer_source e lib l entry attn s (fst lt) = Some (Inr (Inr rows))
        \<and> (if len rows = pl_token_count l then map (gpu_cell s' (snd lt)) (window_of e blocks l) = rows
           else is_mla_metadata (layer_attn_metadata attn (fst lt))))"

definition declined_layer ::
  "'p env \<Rightarrow> load_lib \<Rightarrow> pending_load \<Rightarrow> mem_entry option \<Rightarrow> attn_meta option \<Rightarrow> 'z load_st_scheme
     \<Rightarrow> string \<times> nat \<Rightarrow> bool" where
  "declined_layer e lib l entry attn s lt \<longleftrightarrow>
     (\<exists>r. layer_source e lib l entry attn s (fst lt) = Some (Inr (Inl r)))"

lemma landed_cong:
  assumes "gpu u (snd lt) = gpu t (snd lt)"
  shows "landed e lib blocks l entry attn s u lt = landed e lib blocks l entry attn s t lt"
  using assms by (simp add: landed_def gpu_cell_def)

lemma donor_layer_cong: "disk t = disk s \<Longrightarrow> donor_layer e entry l layer t = donor_layer e entry l layer s"
  unfolding donor_layer_def by (simp only:)

lemma layer_source_cong:
  "disk t = disk s \<Longrightarrow> layer_source e lib l entry attn t layer = layer_source e lib l entry attn s layer"
  by (simp only: layer_source_def donor_layer_def)

lemma declined_span:
  "declined_layer e lib l entry attn s lt \<Longrightarrow> pl_kind l = K_SEMANTIC_SPAN"
  by (auto simp: declined_layer_def layer_source_def source_rows_def Let_def split: if_splits)

lemma load_layer_spec:
  fixes s :: "'z load_st_scheme"
  assumes sane: "sane_load e l" and bl: "pl_block_ids l = Some blocks" and pg: "paged_by e s"
    and out: "load_layer e lib blocks l entry attn lt s = (r, s')"
  shows "gpu_frame (set (window_of e blocks l)) s s'" and "tid' \<noteq> snd lt \<Longrightarrow> gpu s' tid' = gpu s tid'"
    and "disk s' = disk s" and "registered_kv_caches s' = registered_kv_caches s"
    and "load_error_blocks s' = load_error_blocks s"
    and "r = Inr Donor_gone \<Longrightarrow> layer_source e lib l entry attn s (fst lt) = None"
    and "r = Inr (Layer_declined d) \<Longrightarrow> declined_layer e lib l entry attn s lt"
    and "r = Inr Layer_written \<Longrightarrow> landed e lib blocks l entry attn s s' lt"
proof -
  let ?md = "layer_attn_metadata attn (fst lt)"
  define s1 where "s1 = (if ?md = None then bump (SL Layer_attn_metadata_missing) s else s)"
  have s1: "gpu s1 = gpu s" "disk s1 = disk s" "registered_kv_caches s1 = registered_kv_caches s"
    "load_error_blocks s1 = load_error_blocks s" by (simp_all add: s1_def)
  have pg1: "paged_by e s1" using pg by (simp add: paged_by_def s1)
  have fr1: "gpu_frame W s s1" for W by (rule gpu_frame_refl [OF s1(1)])
  have u: "(r, s') = (case donor_layer e entry l (fst lt) s of
           None \<Rightarrow> (Inr Donor_gone, s1)
         | Some src \<Rightarrow>
             (case source_rows e lib src l ?md of
                Inl x \<Rightarrow> (Inl x, s1)
              | Inr (Inl r) \<Rightarrow> (Inr (Layer_declined r), bump (SL (span_decline_stat r)) s1)
              | Inr (Inr rows) \<Rightarrow> write_layer e blocks l (snd lt) ?md rows s1))"
    using out by (simp only: load_layer_def Let_def s1_def)
  let ?Q = "gpu_frame (set (window_of e blocks l)) s s' \<and> (\<forall>tid'. tid' \<noteq> snd lt \<longrightarrow> gpu s' tid' = gpu s tid')
    \<and> disk s' = disk s \<and> registered_kv_caches s' = registered_kv_caches s
    \<and> load_error_blocks s' = load_error_blocks s
    \<and> (r = Inr Donor_gone \<longrightarrow> layer_source e lib l entry attn s (fst lt) = None)
    \<and> (\<forall>d. r = Inr (Layer_declined d) \<longrightarrow> declined_layer e lib l entry attn s lt)
    \<and> (r = Inr Layer_written \<longrightarrow> landed e lib blocks l entry attn s s' lt)"
  have "?Q"
  proof (cases "donor_layer e entry l (fst lt) s")
    case None
    then show ?thesis using u s1 fr1 by (simp add: layer_source_def)
  next
    case (Some src)
    have ls: "layer_source e lib l entry attn s (fst lt) = Some (source_rows e lib src l ?md)"
      by (simp add: layer_source_def Some)
    show ?thesis
    proof (cases "source_rows e lib src l ?md")
      case (Inl x)
      then show ?thesis using u Some s1 fr1 by simp
    next
      case sr: (Inr q)
      show ?thesis
      proof (cases q)
        case (Inl y)
        then show ?thesis using u Some sr s1 by (simp add: ls declined_layer_def gpu_frame_refl)
      next
        case (Inr rows)
        have w: "write_layer e blocks l (snd lt) ?md rows s1 = (r, s')" using u Some sr Inr by simp
        note wl = write_layer_spec [OF sane bl pg1 w]
        have "gpu_frame (set (window_of e blocks l)) s s'" by (rule gpu_frame_trans [OF fr1 wl(1)])
        moreover have "r = Inr out \<Longrightarrow> out = Layer_written \<and> landed e lib blocks l entry attn s s' lt" for out
          using wl(6) [of out] ls sr Inr by (cases "len rows = pl_token_count l") (simp_all add: landed_def)
        ultimately show ?thesis using wl(2-5) by (auto simp: s1)
      qed
    qed
  qed
  then show "gpu_frame (set (window_of e blocks l)) s s'" "disk s' = disk s"
    "registered_kv_caches s' = registered_kv_caches s" "load_error_blocks s' = load_error_blocks s" by blast+
  show "tid' \<noteq> snd lt \<Longrightarrow> gpu s' tid' = gpu s tid'" using \<open>?Q\<close> by blast
  show "r = Inr Donor_gone \<Longrightarrow> layer_source e lib l entry attn s (fst lt) = None" using \<open>?Q\<close> by blast
  show "r = Inr (Layer_declined d) \<Longrightarrow> declined_layer e lib l entry attn s lt" using \<open>?Q\<close> by blast
  show "r = Inr Layer_written \<Longrightarrow> landed e lib blocks l entry attn s s' lt" using \<open>?Q\<close> by blast
qed

subsection \<open>The layers of a load\<close>

lemma load_layers_frame:
  fixes s :: "'z load_st_scheme"
  assumes sane: "sane_load e l" and bl: "pl_block_ids l = Some blocks"
  shows "load_layers e lib blocks l entry attn lts tally s = (r, s') \<Longrightarrow> paged_by e s \<Longrightarrow>
      gpu_frame (set (window_of e blocks l)) s s' \<and> (\<forall>tid. tid \<notin> snd ` set lts \<longrightarrow> gpu s' tid = gpu s tid)
      \<and> disk s' = disk s \<and> registered_kv_caches s' = registered_kv_caches s
      \<and> load_error_blocks s' = load_error_blocks s"
proof (induction lts arbitrary: tally s)
  case Nil
  then show ?case by (simp add: gpu_frame_refl)
next
  case (Cons lt lts)
  obtain q s1 where ll: "load_layer e lib blocks l entry attn lt s = (q, s1)" by fastforce
  note st = load_layer_spec [OF sane bl Cons.prems(2) ll]
  have here: "gpu_frame (set (window_of e blocks l)) s s1
      \<and> (\<forall>tid. tid \<noteq> snd lt \<longrightarrow> gpu s1 tid = gpu s tid)
      \<and> disk s1 = disk s \<and> registered_kv_caches s1 = registered_kv_caches s
      \<and> load_error_blocks s1 = load_error_blocks s" using st(1-5) by blast
  have "s' = s1 \<or> (\<exists>tally'. load_layers e lib blocks l entry attn lts tally' s1 = (r, s'))"
    using Cons.prems(1) by (auto simp: ll Let_def split: sum.splits layer_outcome.splits)
  then show ?case
  proof
    assume "s' = s1"
    then show ?thesis using here by auto
  next
    assume "\<exists>tally'. load_layers e lib blocks l entry attn lts tally' s1 = (r, s')"
    then obtain tally' where rest: "load_layers e lib blocks l entry attn lts tally' s1 = (r, s')" ..
    have pg: "paged_by e s1" using here Cons.prems(2) paged_frame by blast
    from Cons.IH [OF rest pg] here show ?thesis by (auto intro: gpu_frame_trans)
  qed
qed

lemma load_layers_spec:
  fixes s :: "'z load_st_scheme"
  assumes sane: "sane_load e l" and bl: "pl_block_ids l = Some blocks"
  shows "load_layers e lib blocks l entry attn lts tally s = (Inr tally', s') \<Longrightarrow> paged_by e s \<Longrightarrow>
      distinct (map snd lts) \<Longrightarrow> \<not> lt_gone tally \<Longrightarrow>
      lt_written tally \<le> lt_written tally'
      \<and> (lt_written tally < lt_written tally' \<longrightarrow> (\<exists>lt \<in> set lts. landed e lib blocks l entry attn s s' lt))
      \<and> (lt_gone tally' \<longrightarrow> (\<exists>lt \<in> set lts. layer_source e lib l entry attn s (fst lt) = None))
      \<and> (\<not> lt_gone tally' \<longrightarrow>
           (\<forall>lt \<in> set lts. landed e lib blocks l entry attn s s' lt \<or> declined_layer e lib l entry attn s lt))
      \<and> (\<not> lt_gone tally' \<longrightarrow> (\<forall>lt \<in> set lts. \<not> declined_layer e lib l entry attn s lt) \<longrightarrow>
           lt_written tally' = lt_written tally + len lts)"
proof (induction lts arbitrary: tally s)
  case (Cons lt lts)
  define tally1 where "tally1 = (if layer_attn_metadata attn (fst lt) = None
                    then tally\<lparr>lt_no_metadata := lt_no_metadata tally + 1\<rparr> else tally)"
  have t1: "lt_written tally1 = lt_written tally" "lt_gone tally1 = lt_gone tally"
    by (simp_all add: tally1_def)
  obtain q s1 where ll: "load_layer e lib blocks l entry attn lt s = (q, s1)" by fastforce
  note st = load_layer_spec [OF sane bl Cons.prems(2) ll]
  have pg: "paged_by e s1" by (rule paged_frame [OF st(1) Cons.prems(2)])
  obtain o' where q: "q = Inr o'" using Cons.prems(1) by (cases q) (simp_all add: ll Let_def)
  note src = layer_source_cong [OF st(3), of e lib l entry attn]
  have lcong: "landed e lib blocks l entry attn s1 = landed e lib blocks l entry attn s"
    "declined_layer e lib l entry attn s1 = declined_layer e lib l entry attn s"
    by (simp_all add: fun_eq_iff landed_def declined_layer_def src)
  have dist: "distinct (map snd lts)" "snd lt \<notin> snd ` set lts" using Cons.prems(3) by auto
  show ?case
  proof (cases o')
    case Donor_gone
    have n: "layer_source e lib l entry attn s (fst lt) = None" using st(6) q Donor_gone by simp
    have "tally' = tally1\<lparr>lt_gone := True\<rparr>"
      using Cons.prems(1) by (simp add: ll q Donor_gone tally1_def [symmetric] Let_def)
    then show ?thesis using n t1 by simp
  next
    case (Layer_declined d)
    have dc: "declined_layer e lib l entry attn s lt" using st(7) q Layer_declined by simp
    have rest: "load_layers e lib blocks l entry attn lts
        (tally1\<lparr>lt_declines := count_decline d (lt_declines tally1)\<rparr>) s1 = (Inr tally', s')"
      using Cons.prems(1) by (simp add: ll q Layer_declined tally1_def [symmetric] Let_def)
    show ?thesis using Cons.IH [OF rest pg dist(1)] Cons.prems(4) dc unfolding lcong src by (simp add: t1)
  next
    case Layer_written
    have ld: "landed e lib blocks l entry attn s s1 lt" using st(8) q Layer_written by simp
    have rest: "load_layers e lib blocks l entry attn lts (tally1\<lparr>lt_written := lt_written tally1 + 1\<rparr>) s1
        = (Inr tally', s')"
      using Cons.prems(1) by (simp add: ll q Layer_written tally1_def [symmetric] Let_def)
    have "gpu s' (snd lt) = gpu s1 (snd lt)" using load_layers_frame [OF sane bl rest pg] dist(2) by blast
    then have head: "landed e lib blocks l entry attn s s' lt" using ld landed_cong by blast
    have g: "\<not> lt_gone (tally1\<lparr>lt_written := lt_written tally1 + 1\<rparr>)" using Cons.prems(4) by (simp add: t1)
    have w: "lt_written (tally1\<lparr>lt_written := lt_written tally1 + 1\<rparr>) = lt_written tally + 1" by (simp add: t1)
    note IH = Cons.IH [OF rest pg dist(1) g, unfolded w lcong src]
    show ?thesis
    proof (intro conjI impI)
      show "lt_written tally \<le> lt_written tally'" using conjunct1 [OF IH] by linarith
      show "\<exists>lt \<in> set (lt # lts). landed e lib blocks l entry attn s s' lt" using head by (rule bexI) simp
      show "\<exists>lt \<in> set (lt # lts). layer_source e lib l entry attn s (fst lt) = None" if "lt_gone tally'"
      proof -
        have "\<exists>lt \<in> set lts. layer_source e lib l entry attn s (fst lt) = None"
          by (rule mp [OF conjunct1 [OF conjunct2 [OF conjunct2 [OF IH]]] that])
        then obtain x where "x \<in> set lts" and n: "layer_source e lib l entry attn s (fst x) = None" by (rule bexE)
        then have "x \<in> set (lt # lts)" by simp
        with n show ?thesis by (rule bexI)
      qed
      show "\<forall>lt \<in> set (lt # lts). landed e lib blocks l entry attn s s' lt \<or> declined_layer e lib l entry attn s lt"
        if "\<not> lt_gone tally'" using IH that head by simp
      show "lt_written tally' = lt_written tally + len (lt # lts)"
        if "\<not> lt_gone tally'" "\<forall>lt \<in> set (lt # lts). \<not> declined_layer e lib l entry attn s lt"
        using IH that by simp
    qed
  qed
qed simp

text \<open>Where every layer has its rows and the blocks cover the window, every layer is written.\<close>

lemma write_layer_succeeds:
  fixes s :: "'z load_st_scheme"
  assumes sane: "sane_load e l" and bl: "pl_block_ids l = Some [g]"
    and cov: "start_or_zero (pl_target_start l) + pl_token_count l \<le> len g * e_block_size e"
    and rows: "len rows = pl_token_count l"
  shows "fst (write_layer e [g] l tid md rows s) = Inr Layer_written"
proof -
  let ?t = "start_or_zero (pl_target_start l)" and ?n = "pl_token_count l"
  have b: "0 < e_block_size e" and t: "0 \<le> ?t" and n: "0 < ?n"
    using sane by (simp_all add: sane_load_def)
  obtain slots s1 where sm: "slot_mapping e [g] ?n ?t s = (Inr slots, s1)"
    using slot_mapping_isl [OF b t n, of "[g]" s] cov by (cases "slot_mapping e [g] ?n ?t s"; cases "fst (slot_mapping e [g] ?n ?t s)") simp_all
  have n0: "0 \<le> ?n" using n by simp
  have "length slots = nat ?n" by (rule slot_mapping_Inr(3) [OF b t n0 sm])
  then have l: "length rows = length slots" using rows n by linarith
  have "inject_into_layer (gpu s1 tid) rows slots md \<noteq> Inl x" for x
    using l by (cases rows) (auto simp: inject_into_layer_def inject_kv_def)
  then obtain kt where "inject_into_layer (gpu s1 tid) rows slots md = Inr kt" by (metis sum.exhaust)
  then show ?thesis by (simp add: write_layer_def sm)
qed

lemma load_layers_succeeds:
  fixes s :: "'z load_st_scheme"
  assumes sane: "sane_load e l" and bl: "pl_block_ids l = Some [g]"
    and cov: "start_or_zero (pl_target_start l) + pl_token_count l \<le> len g * e_block_size e"
  shows "\<lbrakk>paged_by e s; \<not> lt_gone tally;
      \<forall>lt \<in> set lts. \<exists>rows. layer_source e lib l entry attn s (fst lt) = Some (Inr (Inr rows))
        \<and> len rows = pl_token_count l\<rbrakk> \<Longrightarrow>
    \<exists>tally' s'. load_layers e lib [g] l entry attn lts tally s = (Inr tally', s') \<and> \<not> lt_gone tally'
      \<and> lt_declines tally' = lt_declines tally"
proof (induction lts arbitrary: tally s)
  case (Cons lt lts)
  obtain rows where src: "layer_source e lib l entry attn s (fst lt) = Some (Inr (Inr rows))"
    and rows: "len rows = pl_token_count l" using Cons.prems(3) by auto
  obtain q s1 where ll: "load_layer e lib [g] l entry attn lt s = (q, s1)" by fastforce
  have "q = Inr Layer_written"
  proof -
    obtain d where "donor_layer e entry l (fst lt) s = Some d"
      "source_rows e lib d l (layer_attn_metadata attn (fst lt)) = Inr (Inr rows)"
      using src by (auto simp: layer_source_def)
    then have "q = fst (write_layer e [g] l (snd lt) (layer_attn_metadata attn (fst lt)) rows
        (if layer_attn_metadata attn (fst lt) = None then bump (SL Layer_attn_metadata_missing) s else s))"
      using ll by (simp add: load_layer_def Let_def)
    then show ?thesis by (simp only: write_layer_succeeds [OF sane bl cov rows])
  qed
  note q = this
  note st = load_layer_spec [OF sane bl Cons.prems(1) ll]
  define tally1 where "tally1 = (if layer_attn_metadata attn (fst lt) = None
                    then tally\<lparr>lt_no_metadata := lt_no_metadata tally + 1\<rparr> else tally)"
  define tally2 where "tally2 = tally1\<lparr>lt_written := lt_written tally1 + 1\<rparr>"
  have g2: "\<not> lt_gone tally2" "lt_declines tally2 = lt_declines tally"
    using Cons.prems(2) by (simp_all add: tally2_def tally1_def)
  have "\<forall>lt \<in> set lts. \<exists>rows. layer_source e lib l entry attn s1 (fst lt) = Some (Inr (Inr rows))
      \<and> len rows = pl_token_count l"
    using Cons.prems(3) unfolding layer_source_cong [OF st(3)] by simp
  note IH = Cons.IH [OF paged_frame [OF st(1) Cons.prems(1)] g2(1) this]
  have "load_layers e lib [g] l entry attn (lt # lts) tally s = load_layers e lib [g] l entry attn lts tally2 s1"
    by (simp add: ll q Let_def tally1_def tally2_def)
  then show ?case using IH g2(2) by simp
qed simp

subsection \<open>One load\<close>

lemma conclude_load_spec:
  fixes s :: "'z load_st_scheme"
  assumes "conclude_load e l tally s = (r, s')"
  shows "gpu s' = gpu s" and "registered_kv_caches s' = registered_kv_caches s" and "disk s' = disk s"
    and "r = Inr u \<Longrightarrow> pl_kind l = K_SEMANTIC_SPAN \<Longrightarrow> \<not> lt_gone tally \<and> 0 < lt_written tally"
    and "r = Inr u \<Longrightarrow> lt_gone tally \<Longrightarrow> destination_block_ids e l \<subseteq> load_error_blocks s'"
    and "\<not> lt_gone tally \<Longrightarrow> load_error_blocks s' = load_error_blocks s"
    and "\<not> lt_gone tally \<Longrightarrow> 0 < lt_written tally \<Longrightarrow> r = Inr ()"
  using assms by (auto simp: conclude_load_def report_blocks_def Let_def split: if_splits)

lemma load_one_Some:
  fixes s :: "'z load_st_scheme" and e :: "'p env"
  assumes "pl_block_ids l = Some blocks"
  obtains s2 :: "'z load_st_scheme" where
    "gpu s2 = gpu s" "disk s2 = disk s" "registered_kv_caches s2 = registered_kv_caches s"
    "load_error_blocks s2 = load_error_blocks s"
    "load_one e lib fc attn l s =
       (case load_layers e lib blocks l (load_entry e l s) attn (iter_kv_layers fc s) no_layers_yet s2 of
          (Inl x, s3) \<Rightarrow> (Inl x, s3) | (Inr tally, s3) \<Rightarrow> conclude_load e l tally s3)"
proof -
  define s1 where "s1 = audit e (Some (pl_request_id l))
    (EL (Ev_materialization_started (pl_donor_id l) (pl_namespace l) (pl_token_count l) (pl_kind l))) s"
  define s2 where "s2 = s1\<lparr>memory_store := od_move_to_end (memory_store s1) (storage_key e (pl_donor_id l) (pl_namespace l))\<rparr>"
  have "load_entry e l s1 = load_entry e l s" by (simp add: load_entry_def s1_def)
  moreover have "iter_kv_layers fc s2 = iter_kv_layers fc s" by (simp add: iter_kv_layers_def s2_def s1_def)
  ultimately have "load_one e lib fc attn l s =
       (case load_layers e lib blocks l (load_entry e l s) attn (iter_kv_layers fc s) no_layers_yet s2 of
          (Inl x, s3) \<Rightarrow> (Inl x, s3) | (Inr tally, s3) \<Rightarrow> conclude_load e l tally s3)"
    by (simp only: load_one_def assms option.case Let_def s1_def [symmetric] s2_def [symmetric])
  then show ?thesis by (intro that [of s2]) (simp_all add: s2_def s1_def)
qed

definition load_window :: "'p env \<Rightarrow> pending_load \<Rightarrow> nat set" where
  "load_window e l = (case pl_block_ids l of None \<Rightarrow> {} | Some blocks \<Rightarrow> set (window_of e blocks l))"

lemma load_one_frame:
  fixes s :: "'z load_st_scheme"
  assumes sane: "sane_load e l" and pg: "paged_by e s" and out: "load_one e lib fc attn l s = (r, s')"
  shows "gpu_frame (load_window e l) s s'"
proof (cases "pl_block_ids l")
  case None
  then show ?thesis using out by (simp add: load_one_def gpu_frame_refl)
next
  case (Some blocks)
  obtain s2 :: "'z load_st_scheme" where s2: "gpu s2 = gpu s" and eq: "load_one e lib fc attn l s =
       (case load_layers e lib blocks l (load_entry e l s) attn (iter_kv_layers fc s) no_layers_yet s2 of
          (Inl x, s3) \<Rightarrow> (Inl x, s3) | (Inr tally, s3) \<Rightarrow> conclude_load e l tally s3)"
    by (rule load_one_Some [OF Some, of s e lib fc attn])
  obtain q s3 where ll: "load_layers e lib blocks l (load_entry e l s) attn (iter_kv_layers fc s) no_layers_yet s2 = (q, s3)"
    by fastforce
  have "paged_by e s2" using pg by (simp add: paged_by_def s2)
  then have f: "gpu_frame (set (window_of e blocks l)) s2 s3" using load_layers_frame [OF sane Some ll] by blast
  have "gpu s' = gpu s3" using out conclude_load_spec(1) unfolding eq ll by (cases q) auto
  then have "gpu_frame (set (window_of e blocks l)) s3 s'" by (rule gpu_frame_refl)
  then show ?thesis
    using gpu_frame_trans [OF gpu_frame_refl [OF s2] gpu_frame_trans [OF f]] by (simp add: load_window_def Some)
qed

lemma load_all_frame:
  fixes s :: "'z load_st_scheme"
  shows "load_all e lib fc attn ls s = (r, s') \<Longrightarrow> \<forall>l \<in> set ls. sane_load e l \<Longrightarrow> paged_by e s \<Longrightarrow>
    gpu_frame (\<Union>l \<in> set ls. load_window e l) s s'"
proof (induction ls arbitrary: s)
  case Nil
  then show ?case by (simp add: gpu_frame_refl)
next
  case (Cons l ls)
  let ?W = "\<Union>l \<in> set (l # ls). load_window e l"
  obtain q s1 where lo: "load_one e lib fc attn l (writer_turn e s) = (q, s1)" by fastforce
  have pt: "paged_by e (writer_turn e s)" using Cons.prems(3) by (simp add: paged_by_def)
  have "sane_load e l" using Cons.prems(2) by simp
  note f = load_one_frame [OF this pt lo]
  have turn: "gpu_frame V s (writer_turn e s)" for V by (rule gpu_frame_refl) simp
  have here: "gpu_frame ?W s s1"
    by (rule gpu_frame_trans [OF turn gpu_frame_mono [OF f]]) simp
  show ?case
  proof (cases q)
    case (Inl x)
    then show ?thesis using Cons.prems(1) here by (simp add: lo)
  next
    case (Inr u)
    then have rest: "load_all e lib fc attn ls s1 = (r, s')" using Cons.prems(1) by (simp add: lo)
    have "paged_by e s1" by (rule paged_frame [OF here Cons.prems(3)])
    from Cons.IH [OF rest _ this] Cons.prems(2) have "gpu_frame (\<Union>l \<in> set ls. load_window e l) s1 s'" by simp
    then have "gpu_frame ?W s1 s'" by (rule gpu_frame_mono) simp
    then show ?thesis by (rule gpu_frame_trans [OF here])
  qed
qed

end
