(* ===== verification/LoadTheorems.thy ===== *)
theory LoadTheorems
  imports LoadProps
begin

text \<open>
  The properties of the load path: what a load writes and where, what becomes of a load whose donor is
  gone, and the way of a donor's rows from the capture to a recipient's blocks; concrete runs.
\<close>

subsection \<open>Properties\<close>

text \<open>
  C10. Loads stay in their windows. Whatever \<open>start_load_kv\<close> does with the loads of a step, finish,
  report or raise, every cell of every KV tensor that is not a slot of the window of one of these loads
  keeps its row: the blocks of other requests, the shared exact prefix before a window, and the tokens
  after it.
\<close>

theorem loads_stay_in_their_windows:
  assumes "start_load_kv e lib (Inr md) fc s = (r, s')" and "\<forall>l \<in> set (cm_loads md). sane_load e l"
    and "paged_by e s"
  shows "gpu_frame (\<Union>l \<in> set (cm_loads md). load_window e l) s s'"
proof (cases "cm_loads md = []")
  case True
  then show ?thesis using assms(1) by (simp add: start_load_kv_def gpu_frame_refl)
next
  case False
  obtain attn s1 where ra: "resolve_attn e fc s = (attn, s1)" by fastforce
  have g: "gpu s1 = gpu s" using ra by (auto simp: resolve_attn_def Let_def split: option.splits if_splits)
  have "paged_by e s1" using assms(3) by (simp add: paged_by_def g)
  moreover have "load_all e lib fc attn (cm_loads md) s1 = (r, s')"
    using assms(1) False by (simp add: start_load_kv_def ra)
  ultimately have "gpu_frame (\<Union>l \<in> set (cm_loads md). load_window e l) s1 s'"
    using load_all_frame assms(2) by blast
  then show ?thesis by (rule gpu_frame_trans [OF gpu_frame_refl [OF g]])
qed

text \<open>
  C8. No load is dropped silently. If a load returns without raising, then a semantic-span load wrote the
  re-rotated donor rows into at least one layer and every other layer was written or declined; any
  other load wrote the donor's rows into every KV layer there is, or every destination block of it is
  reported to the engine for recomputation. A window whose source has the wrong length is accepted
  only by an MLA layer.
\<close>

theorem no_load_is_silent:
  assumes "load_one e lib fc attn l s = (Inr u, s')" and "sane_load e l" and "paged_by e s"
    and "distinct (map snd (iter_kv_layers fc s))" and "pl_block_ids l = Some blocks"
  shows "if pl_kind l = K_SEMANTIC_SPAN
    then (\<exists>lt \<in> set (iter_kv_layers fc s). landed e lib blocks l (load_entry e l s) attn s s' lt)
       \<and> (\<forall>lt \<in> set (iter_kv_layers fc s). landed e lib blocks l (load_entry e l s) attn s s' lt
            \<or> declined_layer e lib l (load_entry e l s) attn s lt)
    else (\<forall>lt \<in> set (iter_kv_layers fc s). landed e lib blocks l (load_entry e l s) attn s s' lt)
       \<or> destination_block_ids e l \<subseteq> load_error_blocks s'"
proof -
  let ?lts = "iter_kv_layers fc s" and ?en = "load_entry e l s"
  obtain s2 where s2: "gpu s2 = gpu s" "disk s2 = disk s" and eq: "load_one e lib fc attn l s =
       (case load_layers e lib blocks l ?en attn ?lts no_layers_yet s2 of
          (Inl x, s3) \<Rightarrow> (Inl x, s3) | (Inr tally, s3) \<Rightarrow> conclude_load e l tally s3)"
    by (rule load_one_Some [OF assms(5), of s e lib fc attn])
  obtain q s3 where ll: "load_layers e lib blocks l ?en attn ?lts no_layers_yet s2 = (q, s3)" by fastforce
  obtain tally where q: "q = Inr tally" using assms(1) unfolding eq ll by (cases q) simp_all
  have cl: "conclude_load e l tally s3 = (Inr u, s')" using assms(1) unfolding eq ll q by simp
  have pg: "paged_by e s2" using assms(3) by (simp add: paged_by_def s2)
  have g0: "\<not> lt_gone no_layers_yet" "lt_written no_layers_yet = 0" by (simp_all add: no_layers_yet_def)
  note sp = load_layers_spec [OF assms(2,5) ll [unfolded q] pg assms(4) g0(1), unfolded g0(2)]
  note cs = conclude_load_spec [OF cl]
  have ld: "landed e lib blocks l ?en attn s2 s3 lt = landed e lib blocks l ?en attn s s' lt" for lt
    unfolding landed_def layer_source_cong [OF s2(2)] gpu_cell_def cs(1) ..
  have dc: "declined_layer e lib l ?en attn s2 lt = declined_layer e lib l ?en attn s lt" for lt
    unfolding declined_layer_def layer_source_cong [OF s2(2)] ..
  note sp' = sp [unfolded ld dc]
  have all: "\<forall>lt \<in> set ?lts. landed e lib blocks l ?en attn s s' lt \<or> declined_layer e lib l ?en attn s lt"
    if "\<not> lt_gone tally"
    by (rule mp [OF conjunct1 [OF conjunct2 [OF conjunct2 [OF conjunct2 [OF sp']]]] that])
  show ?thesis
  proof (cases "pl_kind l = K_SEMANTIC_SPAN")
    case True
    then have ok: "\<not> lt_gone tally" "0 < lt_written tally" using cs(4) by simp_all
    have "\<exists>lt \<in> set ?lts. landed e lib blocks l ?en attn s s' lt"
      by (rule mp [OF conjunct1 [OF conjunct2 [OF sp']] ok(2)])
    then show ?thesis using all [OF ok(1)] True by simp
  next
    case False
    then have "\<not> declined_layer e lib l ?en attn s lt" for lt using declined_span by blast
    then have "\<not> lt_gone tally \<Longrightarrow> \<forall>lt \<in> set ?lts. landed e lib blocks l ?en attn s s' lt"
      using all by blast
    moreover have "lt_gone tally \<Longrightarrow> destination_block_ids e l \<subseteq> load_error_blocks s'" using cs(5) by simp
    ultimately show ?thesis using False by (cases "lt_gone tally") simp_all
  qed
qed

lemma load_lands:
  fixes s :: "'z load_st_scheme"
  assumes sane: "sane_load e l" and bl: "pl_block_ids l = Some [g]"
    and cov: "start_or_zero (pl_target_start l) + pl_token_count l \<le> len g * e_block_size e"
    and pg: "paged_by e s" and d: "distinct (map snd (iter_kv_layers fc s))" and ne: "iter_kv_layers fc s \<noteq> []"
    and src: "\<forall>lt \<in> set (iter_kv_layers fc s).
      layer_source e lib l (load_entry e l s) attn s (fst lt) = Some (Inr (Inr (f lt))) \<and> len (f lt) = pl_token_count l"
  shows "\<exists>s'. load_one e lib fc attn l s = (Inr (), s') \<and> load_error_blocks s' = load_error_blocks s
    \<and> gpu_frame (load_window e l) s s'
    \<and> (\<forall>lt \<in> set (iter_kv_layers fc s). map (gpu_cell s' (snd lt)) (window_of e [g] l) = f lt)"
proof -
  let ?lts = "iter_kv_layers fc s" and ?en = "load_entry e l s"
  obtain s2 where s2: "gpu s2 = gpu s" "disk s2 = disk s" "load_error_blocks s2 = load_error_blocks s"
    and eq: "load_one e lib fc attn l s =
       (case load_layers e lib [g] l ?en attn ?lts no_layers_yet s2 of
          (Inl x, s3) \<Rightarrow> (Inl x, s3) | (Inr tally, s3) \<Rightarrow> conclude_load e l tally s3)"
    by (rule load_one_Some [OF bl, of s e lib fc attn])
  have pg2: "paged_by e s2" using pg by (simp add: paged_by_def s2)
  have g0: "\<not> lt_gone no_layers_yet" "lt_written no_layers_yet = 0" by (simp_all add: no_layers_yet_def)
  have src2: "\<forall>lt \<in> set ?lts. layer_source e lib l ?en attn s2 (fst lt) = Some (Inr (Inr (f lt)))
      \<and> len (f lt) = pl_token_count l" using src unfolding layer_source_cong [OF s2(2)] .
  then have ex: "\<forall>lt \<in> set ?lts. \<exists>rows. layer_source e lib l ?en attn s2 (fst lt) = Some (Inr (Inr rows))
      \<and> len rows = pl_token_count l" by blast
  obtain tally s3 where ll: "load_layers e lib [g] l ?en attn ?lts no_layers_yet s2 = (Inr tally, s3)"
    and ng: "\<not> lt_gone tally" using load_layers_succeeds [OF sane bl cov pg2 g0(1) ex] by blast
  note sp = load_layers_spec [OF sane bl ll pg2 d g0(1), unfolded g0(2)]
  have nd: "\<forall>lt \<in> set ?lts. \<not> declined_layer e lib l ?en attn s2 lt"
    using src2 by (simp add: declined_layer_def)
  have w: "lt_written tally = len ?lts"
    using mp [OF mp [OF conjunct2 [OF conjunct2 [OF conjunct2 [OF conjunct2 [OF sp]]]] ng] nd] by simp
  then have w0: "0 < lt_written tally" using ne by (cases ?lts) simp_all
  obtain r s' where cl: "conclude_load e l tally s3 = (r, s')" by fastforce
  note cs = conclude_load_spec [OF cl]
  have one: "load_one e lib fc attn l s = (Inr (), s')" unfolding eq ll using cl cs(7) [OF ng w0] by simp
  have eb: "load_error_blocks s' = load_error_blocks s"
    using cs(6) [OF ng] load_layers_frame [OF sane bl ll pg2] s2(3) by simp
  have "map (gpu_cell s' (snd lt)) (window_of e [g] l) = f lt" if lt: "lt \<in> set ?lts" for lt
  proof -
    have "landed e lib [g] l ?en attn s2 s3 lt \<or> declined_layer e lib l ?en attn s2 lt"
      by (rule bspec [OF mp [OF conjunct1 [OF conjunct2 [OF conjunct2 [OF conjunct2 [OF sp]]]] ng] lt])
    then have "landed e lib [g] l ?en attn s2 s3 lt" using bspec [OF nd lt] by blast
    then have "map (gpu_cell s3 (snd lt)) (window_of e [g] l) = f lt"
      using bspec [OF src2 lt] by (simp add: landed_def)
    then show ?thesis by (simp add: gpu_cell_def cs(1))
  qed
  then show ?thesis using one eb load_one_frame [OF sane pg one] by blast
qed

lemma whole_donor_layer:
  assumes w: "whole_donor e T s (storage_key e (pl_donor_id l) (pl_namespace l)) (pl_donor_id l) m"
    and mb: "mem_backend e \<or> memory_store s = []"
    and p: "capture_progress s (pl_donor_id l) = Some p" and layer: "od_get p layer \<noteq> None"
    and d: "0 \<le> d" "d + n \<le> m"
  shows "\<exists>src. donor_layer e (load_entry e l s) l layer s = Some src
    \<and> py_slice src d (d + n) = map (T (pl_donor_id l) layer) [nat d..<nat (d + n)]"
proof -
  let ?k = "storage_key e (pl_donor_id l) (pl_namespace l)"
  obtain c where c: "od_get p layer = Some c" using layer by blast
  then have m: "m \<le> c" and cp: "copy_at e s ?k layer = Some (map (T (pl_donor_id l) layer) [0..<nat c])"
    using w p by (auto simp: whole_donor_def)
  let ?src = "map (T (pl_donor_id l) layer) [0..<nat c]"
  have "donor_layer e (load_entry e l s) l layer s = Some ?src"
  proof (cases "mem_backend e")
    case True
    then show ?thesis using cp by (auto simp: donor_layer_def load_entry_def stored_def split: option.splits)
  next
    case False
    then have "memory_store s = []" using mb by simp
    then show ?thesis using cp False
      by (auto simp: donor_layer_def load_entry_def stored_def od_get_def [of "[]"] split: option.splits layer_file.splits)
  qed
  moreover have "py_slice ?src d (d + n) = map (T (pl_donor_id l) layer) [nat d..<nat (d + n)]"
    using d m by (simp add: py_slice_def take_map drop_map)
  ultimately show ?thesis by blast
qed



subsection \<open>Concrete runs\<close>

text \<open>A donor of four tokens and two layers, the second of which ends after three, and one KV tensor each.\<close>

definition trip_state :: "(string, nat) odict \<Rightarrow> load_st" where
  "trip_state caches = \<lparr>stats = (\<lambda>_. 0), audit_log = [], request_seq = Map.empty,
     request_event_seq = Map.empty, next_request_seq = 0, prompt_tokenizer = None,
     prompt_tokenizer_failed = False, memory_store = [],
     disk = [''n:r'' \<mapsto> \<lparr>dd_record = Some (Some 4),
        dd_layers = [(''l0'', Rows [7, 8, 9, 10]), (''l1'', Rows [7, 8, 9])], dd_temp = False\<rparr>],
     capture_progress = [''r'' \<mapsto> [(''l0'', 4)]],
     capture_base_missing_noted = Map.empty, worker_skipped_reasons = Map.empty,
     inflight_layers = Map.empty, write_queue = [], writer_started = False, writer_closed = False,
     writer_turns = [], write_results = [], capture_namespaces = [], finalized_donors = Map.empty,
     finalize_pending = [], capture_write_failed = {}, queue_blocked_noted = {}, writer_stats = (\<lambda>_. 0),
     writer_events = [], writer_failed_requests = {}, writer_evicted = [],
     gpu = (\<lambda>_. \<lparr>kt_page = 2, kt_cells = (\<lambda>_ _. 0)\<rparr>), registered_kv_caches = caches,
     last_attn_metadata = None, load_error_blocks = {}\<rparr>"

definition trip_load :: "string \<Rightarrow> mat_kind \<Rightarrow> int \<Rightarrow> pending_load" where
  "trip_load donor kind d = \<lparr>pl_request_id = ''q'', pl_donor_id = donor, pl_token_count = 2, pl_kind = kind,
     pl_namespace = ''n'', pl_block_ids = Some [[3, 2]], pl_donor_start = Some d, pl_target_start = Some 2,
     pl_pieces = []\<rparr>"

definition trip_lib :: load_lib where
  "trip_lib = \<lparr>ll_rope_nested = None, ll_layer_types = None,
     ll_rotate = (\<lambda>_ d t rows. map (\<lambda>row. row + 100 * (t - d)) rows)\<rparr>"

lemma trip_rotate: "ll_rotate trip_lib p d t rows = map (\<lambda>row. row + 100 * (t - d)) rows"
  by (simp add: trip_lib_def)

definition trip_env :: "unit env" where
  "trip_env = run_env\<lparr>e_vllm_config := PObj [] [(''model_config'', PObj [] [(''hf_config'',
     PObj [] [(''rope_theta'', PInt 10000), (''head_dim'', PInt 64)])])]\<rparr>"

definition trip_fc :: forward_context where
  "trip_fc = \<lparr>fc_attn = None, fc_layers = []\<rparr>"

lemma trip_block: "e_block_size trip_env = 2"
  by (simp add: trip_env_def)

lemma trip_window: "window_of trip_env [[3, 2]] (trip_load donor kind d) = [4, 5]"
  by (simp add: window_of_def trip_load_def start_or_zero_def trip_block slot_at_def upt_rec)

lemma trip_sane: "sane_load trip_env (trip_load donor kind d)"
  by (simp add: sane_load_def trip_block trip_load_def start_or_zero_def)

lemma trip_paged: "paged_by trip_env (trip_state caches)"
  by (simp add: paged_by_def trip_block trip_state_def)

lemma trip_iter: "caches \<noteq> [] \<Longrightarrow> iter_kv_layers trip_fc (trip_state caches) = caches"
  by (simp add: iter_kv_layers_def trip_state_def)

lemma trip_key: "storage_key trip_env donor ''n'' = ''n:'' @ donor"
  by (simp add: storage_key_def trip_env_def sample_env_def)

lemma trip_disk_backend: "mem_backend trip_env = False"
  by (simp add: mem_backend_def trip_env_def sample_env_def run_config_def)

definition trip_truth :: kv_truth where
  "trip_truth rid layer i = 7 + int i"

lemma trip_whole: "whole_donor trip_env trip_truth (trip_state caches) (storage_key trip_env ''r'' ''n'') ''r'' 4"
proof -
  have "capture_progress (trip_state caches) ''r'' = Some [(''l0'', 4)]" by (simp add: trip_state_def)
  moreover have "shortest_layer [(''l0'', 4)] = 4" by (simp add: shortest_layer_def)
  moreover have "copy_at trip_env (trip_state caches) ''n:r'' ''l0'' = Some (map (trip_truth ''r'' ''l0'') [0..<nat 4])"
    by (simp add: stored_def trip_disk_backend trip_state_def dir_of_def od_get_def trip_truth_def upt_rec)
  ultimately show ?thesis by (auto simp: whole_donor_def trip_key od_get_def)
qed

lemma trip_rope: "rope_params trip_env trip_lib = Inr (Some (Finite 10000, 64))"
  by code_simp



theorem loads_stay_in_their_windows_witness:
  "gpu_cell (snd (start_load_kv trip_env trip_lib (Inr \<lparr>cm_loads = [trip_load ''r'' K_EXACT_PREFIX 2], cm_stores = [],
      cm_finalize = []\<rparr>) trip_fc (trip_state [(''l0'', 0)]))) 0 1 = 0"
proof -
  let ?md = "\<lparr>cm_loads = [trip_load ''r'' K_EXACT_PREFIX 2], cm_stores = [], cm_finalize = []\<rparr>"
  define out where "out = start_load_kv trip_env trip_lib (Inr ?md) trip_fc (trip_state [(''l0'', 0)])"
  have "start_load_kv trip_env trip_lib (Inr ?md) trip_fc (trip_state [(''l0'', 0)]) = (fst out, snd out)"
    by (simp add: out_def)
  from loads_stay_in_their_windows [OF this _ trip_paged]
  have "gpu_frame (\<Union>l \<in> set (cm_loads ?md). load_window trip_env l) (trip_state [(''l0'', 0)]) (snd out)"
    by (simp add: trip_sane)
  moreover have "load_window trip_env (trip_load ''r'' K_EXACT_PREFIX 2) = {4, 5}"
    using trip_window [of "''r''" K_EXACT_PREFIX 2] by (simp add: load_window_def trip_load_def)
  moreover have "gpu_cell (trip_state [(''l0'', 0)]) 0 1 = 0" by (simp add: gpu_cell_def trip_state_def cell_def)
  ultimately show ?thesis unfolding out_def by (simp add: gpu_frame_def)
qed

lemma gone_isl: "isl (fst (load_one trip_env trip_lib trip_fc None (trip_load ''x'' K_EXACT_PREFIX 2)
    (trip_state [(''l0'', 0)]))) = False"
  by code_simp

theorem no_load_is_silent_witness:
  "destination_block_ids trip_env (trip_load ''x'' K_EXACT_PREFIX 2) \<subseteq>
     load_error_blocks (snd (load_one trip_env trip_lib trip_fc None (trip_load ''x'' K_EXACT_PREFIX 2)
       (trip_state [(''l0'', 0)])))"
proof -
  let ?l = "trip_load ''x'' K_EXACT_PREFIX 2" and ?s = "trip_state [(''l0'', 0)]"
  define out where "out = load_one trip_env trip_lib trip_fc None ?l ?s"
  obtain u where "fst out = Inr u" using gone_isl unfolding out_def [symmetric] by (cases "fst out") simp_all
  then have run: "load_one trip_env trip_lib trip_fc None ?l ?s = (Inr u, snd out)" by (simp add: out_def prod_eq_iff)
  have it: "iter_kv_layers trip_fc ?s = [(''l0'', 0)]" by (rule trip_iter) simp
  have l: "pl_block_ids ?l = Some [[3, 2]]" "pl_kind ?l = K_EXACT_PREFIX" by (simp_all add: trip_load_def)
  have d: "distinct (map snd (iter_kv_layers trip_fc ?s))" by (simp add: it)
  have no: "layer_source trip_env trip_lib ?l (load_entry trip_env ?l ?s) None ?s ''l0'' = None"
  proof -
    have "storage_key trip_env (pl_donor_id ?l) (pl_namespace ?l) = ''n:x''" by (simp add: trip_key trip_load_def)
    then show ?thesis
      by (simp add: layer_source_def donor_layer_def load_entry_def trip_state_def dir_of_def no_files_def od_get_def)
  qed
  show ?thesis
    using no_load_is_silent [OF run trip_sane trip_paged d l(1)] by (simp add: it l(2) landed_def no out_def)
qed

text \<open>
  A span load some of whose layers are declined, here because the second layer's file ends before the
  span does, raises nothing, reports no block and counts as materialized: the declined layer keeps what
  the pool held.
\<close>

abbreviation "partial_run \<equiv> load_one trip_env trip_lib trip_fc None (trip_load ''r'' K_SEMANTIC_SPAN 2)
    (trip_state [(''l0'', 0), (''l1'', 1)])"

lemma partial_span_counts_as_loaded:
  "isl (fst partial_run) = False" "stats (snd partial_run) (SL Loads_materialized_total) = 1"
  "load_error_blocks (snd partial_run) = {}" "gpu_cell (snd partial_run) 1 5 = 0" "gpu_cell (snd partial_run) 0 5 = 10"
  by code_simp+

end
