(* ===== verification/Deployment.thy ===== *)
theory Deployment
  imports Lifecycle LoadTheorems
begin

text \<open>
  The two roles together. The scheduler's process and the worker's have each their own connector over
  the same configuration; what crosses is the connector metadata of a step. The property here composes
  the scheduler's invariant (every shipped load fills its window, piece after piece) with the worker's
  load path: what was advertised to the engine is what ends up in its cache.
\<close>

subsection \<open>What a load leaves alone\<close>

definition same_donors :: "'z load_st_scheme \<Rightarrow> 'z load_st_scheme \<Rightarrow> bool" where
  "same_donors s s' \<longleftrightarrow> disk s' = disk s \<and> write_queue s' = write_queue s
     \<and> registered_kv_caches s' = registered_kv_caches s
     \<and> od_get (memory_store s') = od_get (memory_store s)"

lemma same_donors_refl [simp]: "same_donors s s"
  by (simp add: same_donors_def)

lemma same_donors_trans: "same_donors s t \<Longrightarrow> same_donors t u \<Longrightarrow> same_donors s u"
  by (simp add: same_donors_def)

lemma same_donors_small [simp]:
  "same_donors s (bump_by k n s')  = same_donors s s'" "same_donors s (bump k s') = same_donors s s'"
  "same_donors s (audit e r ev s') = same_donors s s'"
  "same_donors s (s'\<lparr>gpu := m\<rparr>) = same_donors s s'"
  "same_donors s (s'\<lparr>load_error_blocks := bad\<rparr>) = same_donors s s'"
  "same_donors s (s'\<lparr>last_attn_metadata := md\<rparr>) = same_donors s s'"
  "same_donors s (s'\<lparr>memory_store := od_move_to_end (memory_store s') k'\<rparr>) = same_donors s s'"
  "same_donors (bump k s) s' = same_donors s s'"
  by (simp_all add: same_donors_def bump_def bump_by_def)

lemma same_donors_write_layer:
  "write_layer e blocks l tid md rows s = (r, s') \<Longrightarrow> same_donors s s'"
  by (auto simp: write_layer_def slot_mapping_def Let_def split: sum.splits prod.splits if_splits)

lemma same_donors_load_layer:
  "load_layer e lib blocks l entry attn lt s = (r, s') \<Longrightarrow> same_donors s s'"
  by (auto simp: load_layer_def Let_def split: option.splits sum.splits if_splits dest!: same_donors_write_layer)

lemma same_donors_load_layers:
  "load_layers e lib blocks l entry attn lts tally s = (r, s') \<Longrightarrow> same_donors s s'"
proof (induction lts arbitrary: tally s)
  case (Cons lt lts)
  obtain q s1 where one: "load_layer e lib blocks l entry attn lt s = (q, s1)" by fastforce
  note here = same_donors_load_layer [OF one]
  show ?case using Cons.prems here same_donors_trans [OF here Cons.IH]
    by (auto simp: one Let_def split: sum.splits layer_outcome.splits)
qed simp

lemma same_donors_conclude:
  "conclude_load e l tally s = (r, s') \<Longrightarrow> same_donors s s'"
  by (auto simp: conclude_load_def report_blocks_def Let_def split: if_splits)

lemma same_donors_load_one:
  assumes "load_one e lib fc attn l s = (r, s')"
  shows "same_donors s s'"
proof (cases "pl_block_ids l")
  case (Some blocks)
  have c: "same_donors s t \<Longrightarrow> conclude_load e l tally t = (r, s') \<Longrightarrow> same_donors s s'" for t tally
    by (rule same_donors_trans [OF _ same_donors_conclude])
  have ll: "same_donors s t \<Longrightarrow> load_layers e lib bs l en attn lts tally t = (q, u) \<Longrightarrow> same_donors s u"
    for t u q bs en lts tally
    by (rule same_donors_trans [OF _ same_donors_load_layers])
  show ?thesis using assms Some
    by (auto simp: load_one_def Let_def split: sum.splits prod.splits dest!: ll [rotated] intro: c)
      (simp_all add: same_donors_def)
qed (use assms in \<open>simp add: load_one_def\<close>)

lemma idle_writer_turn: "write_queue s = [] \<Longrightarrow> same_donors s (writer_turn e s)"
proof -
  assume q: "write_queue s = []"
  have idle: "run_jobs e n t = t" if "write_queue t = []" for n and t :: "'a load_st_scheme"
    using that by (induction n) (simp_all add: run_jobs_def writer_step_def)
  show ?thesis using q
    by (cases "writer_turns s") (simp_all add: writer_turn_def take_turn_def idle same_donors_def Let_def)
qed

subsection \<open>Windows\<close>

fun apart :: "'p env \<Rightarrow> pending_load list \<Rightarrow> bool" where
  "apart e [] = True"
| "apart e (l # ls) = ((\<forall>m \<in> set ls. load_window e l \<inter> load_window e m = {}) \<and> apart e ls)"

lemma apart_append:
  "apart e (xs @ ys) \<longleftrightarrow> apart e xs \<and> apart e ys
     \<and> (\<forall>x \<in> set xs. \<forall>y \<in> set ys. load_window e x \<inter> load_window e y = {})"
  by (induction xs) auto

lemma start_of_zero [simp]: "start_of = start_or_zero"
  by (rule ext) (simp add: start_of_def start_or_zero_def split: option.splits)

lemma load_window_slots:
  "pl_block_ids l = Some [g] \<Longrightarrow> load_window e l = slot_at (e_block_size e) g `
     {nat (start_or_zero (pl_target_start l))..<nat (start_or_zero (pl_target_start l) + pl_token_count l)}"
  by (simp add: load_window_def window_of_def Let_def)

lemma covers_windows:
  assumes b: "0 < e_block_size e" and d: "distinct g" and fit: "q \<le> len g * e_block_size e"
  shows "covers p xs q \<Longrightarrow> \<forall>x \<in> set xs. pl_block_ids x = Some [g] \<Longrightarrow> 0 \<le> p \<Longrightarrow>
    p \<le> q \<and> apart e xs
    \<and> (\<forall>x \<in> set xs. sane_load e x \<and> start_or_zero (pl_target_start x) + pl_token_count x \<le> len g * e_block_size e)
    \<and> (\<Union>x \<in> set xs. load_window e x) = slot_at (e_block_size e) g ` {nat p..<nat q}"
proof (induction xs arbitrary: p)
  case (Cons x xs)
  let ?at = "slot_at (e_block_size e) g" and ?n = "pl_token_count x"
  have x: "start_or_zero (pl_target_start x) = p" "0 < ?n" "covers (p + ?n) xs q" "pl_block_ids x = Some [g]"
    using Cons.prems by simp_all
  have r: "p + ?n \<le> q" and ap: "apart e xs"
    and ok: "\<forall>x \<in> set xs. sane_load e x \<and> start_or_zero (pl_target_start x) + pl_token_count x \<le> len g * e_block_size e"
    and un: "(\<Union>x \<in> set xs. load_window e x) = ?at ` {nat (p + ?n)..<nat q}"
    using Cons.IH [OF x(3)] Cons.prems(2,3) x(2) by simp_all
  have w: "load_window e x = ?at ` {nat p..<nat (p + ?n)}" using load_window_slots [OF x(4)] by (simp add: x(1))
  have inj: "i = j" if "?at i = ?at j" "i < nat q" "j < nat q" for i j
  proof (rule slot_at_inj [OF d b _ _ that(1)])
    have "nat q \<le> length g * nat (e_block_size e)" using fit b by (simp add: nat_le_iff)
    then show "i < length g * nat (e_block_size e)" "j < length g * nat (e_block_size e)" using that by simp_all
  qed
  have "load_window e x \<inter> ?at ` {nat (p + ?n)..<nat q} = {}"
    using inj r by (force simp: w)
  then have "load_window e x \<inter> (\<Union>y \<in> set xs. load_window e y) = {}" by (simp only: un)
  then have "apart e (x # xs)" using ap by auto
  moreover have "{nat p..<nat (p + ?n)} \<union> {nat (p + ?n)..<nat q} = {nat p..<nat q}" using r x(2) by auto
  then have "(\<Union>x \<in> set (x # xs). load_window e x) = ?at ` {nat p..<nat q}"
    using un w by (simp add: image_Un [symmetric])
  moreover have "sane_load e x" using x b d Cons.prems(3) by (simp add: sane_load_def)
  moreover have "p + ?n \<le> len g * e_block_size e" using r fit by linarith
  ultimately show ?case using ok r x by simp
qed simp

subsection \<open>A batch of loads\<close>

text \<open>The rows a load plans to write into a layer, as found in a state of the donors.\<close>

definition planned ::
  "'p env \<Rightarrow> load_lib \<Rightarrow> attn_meta option \<Rightarrow> pending_load \<Rightarrow> 'z load_st_scheme \<Rightarrow> string \<Rightarrow> kv_rows \<Rightarrow> bool" where
  "planned e lib attn l s layer rows \<longleftrightarrow>
     layer_source e lib l (load_entry e l s) attn s layer = Some (Inr (Inr rows)) \<and> len rows = pl_token_count l"

lemma planned_same_donors: "same_donors s s' \<Longrightarrow> planned e lib attn l s' layer rows = planned e lib attn l s layer rows"
  by (simp add: planned_def same_donors_def load_entry_def layer_source_cong [of s' s])

lemma iter_same_donors: "same_donors s s' \<Longrightarrow> iter_kv_layers fc s' = iter_kv_layers fc s"
  by (simp add: same_donors_def iter_kv_layers_def)

definition batch_sane :: "'p env \<Rightarrow> pending_load list \<Rightarrow> bool" where
  "batch_sane e ls \<longleftrightarrow> apart e ls \<and> (\<forall>l \<in> set ls. sane_load e l \<and> (\<exists>g. pl_block_ids l = Some [g]
     \<and> start_or_zero (pl_target_start l) + pl_token_count l \<le> len g * e_block_size e))"

lemma load_all_lands:
  fixes s :: "'z load_st_scheme"
  shows "batch_sane e ls \<Longrightarrow> paged_by e s \<Longrightarrow> write_queue s = []
    \<Longrightarrow> distinct (map snd (iter_kv_layers fc s)) \<Longrightarrow> iter_kv_layers fc s \<noteq> []
    \<Longrightarrow> \<forall>l \<in> set ls. \<forall>lt \<in> set (iter_kv_layers fc s). planned e lib attn l s (fst lt) (f l (fst lt))
    \<Longrightarrow> \<exists>s'. load_all e lib fc attn ls s = (Inr (), s') \<and> load_error_blocks s' = load_error_blocks s
          \<and> (\<forall>l \<in> set ls. \<forall>lt \<in> set (iter_kv_layers fc s).
               map (gpu_cell s' (snd lt)) (window_of e (the (pl_block_ids l)) l) = f l (fst lt))"
proof (induction ls arbitrary: s)
  case (Cons l ls)
  define s0 where "s0 = writer_turn e s"
  have same0: "same_donors s s0" unfolding s0_def by (rule idle_writer_turn [OF Cons.prems(3)])
  have it0: "iter_kv_layers fc s0 = iter_kv_layers fc s" by (rule iter_same_donors [OF same0])
  obtain g where sane: "sane_load e l" and bl: "pl_block_ids l = Some [g]"
    and cov: "start_or_zero (pl_target_start l) + pl_token_count l \<le> len g * e_block_size e"
    using Cons.prems(1) by (auto simp: batch_sane_def)
  have ap: "apart e (l # ls)" using Cons.prems(1) by (simp add: batch_sane_def)
  have pg0: "paged_by e s0" using Cons.prems(2) by (simp add: s0_def paged_by_def)
  have src: "\<forall>lt \<in> set (iter_kv_layers fc s0).
      layer_source e lib l (load_entry e l s0) attn s0 (fst lt) = Some (Inr (Inr ((\<lambda>lt. f l (fst lt)) lt)))
      \<and> len ((\<lambda>lt. f l (fst lt)) lt) = pl_token_count l"
  proof
    fix lt assume "lt \<in> set (iter_kv_layers fc s0)"
    then have "planned e lib attn l s (fst lt) (f l (fst lt))" using Cons.prems(6) by (simp add: it0)
    then have "planned e lib attn l s0 (fst lt) (f l (fst lt))" by (simp only: planned_same_donors [OF same0])
    then show "layer_source e lib l (load_entry e l s0) attn s0 (fst lt) = Some (Inr (Inr ((\<lambda>lt. f l (fst lt)) lt)))
      \<and> len ((\<lambda>lt. f l (fst lt)) lt) = pl_token_count l" by (simp add: planned_def)
  qed
  obtain s1 where one: "load_one e lib fc attn l s0 = (Inr (), s1)" and bad: "load_error_blocks s1 = load_error_blocks s0"
    and fr: "gpu_frame (load_window e l) s0 s1"
    and here: "\<forall>lt \<in> set (iter_kv_layers fc s0). map (gpu_cell s1 (snd lt)) (window_of e [g] l) = f l (fst lt)"
    using load_lands [OF sane bl cov pg0 Cons.prems(4,5) [folded it0] src] by blast
  have same1: "same_donors s s1" by (rule same_donors_trans [OF same0 same_donors_load_one [OF one]])
  have it1: "iter_kv_layers fc s1 = iter_kv_layers fc s" by (rule iter_same_donors [OF same1])
  have q1: "write_queue s1 = []" using same1 Cons.prems(3) by (simp add: same_donors_def)
  have bs: "batch_sane e ls" using Cons.prems(1) by (simp add: batch_sane_def)
  have pl: "\<forall>l \<in> set ls. \<forall>lt \<in> set (iter_kv_layers fc s1). planned e lib attn l s1 (fst lt) (f l (fst lt))"
    using Cons.prems(6) by (simp add: it1 planned_same_donors [OF same1])
  obtain s' where rest: "load_all e lib fc attn ls s1 = (Inr (), s')"
    and bad': "load_error_blocks s' = load_error_blocks s1"
    and there: "\<forall>l \<in> set ls. \<forall>lt \<in> set (iter_kv_layers fc s1).
       map (gpu_cell s' (snd lt)) (window_of e (the (pl_block_ids l)) l) = f l (fst lt)"
    using Cons.IH [OF bs paged_frame [OF fr pg0] q1 Cons.prems(4,5) [folded it1] pl] by blast
  have sanes: "\<forall>l \<in> set ls. sane_load e l" using bs by (simp add: batch_sane_def)
  note fr' = load_all_frame [OF rest sanes paged_frame [OF fr pg0]]
  have w: "set (window_of e [g] l) = load_window e l" by (simp add: load_window_def bl)
  have "gpu_cell s' tid slot = gpu_cell s1 tid slot" if "slot \<in> set (window_of e [g] l)" for tid slot
  proof -
    have "slot \<notin> (\<Union>m \<in> set ls. load_window e m)" using that ap unfolding w by auto
    then show ?thesis using fr' by (simp add: gpu_frame_def)
  qed
  then have eq: "map (gpu_cell s' tid) (window_of e [g] l) = map (gpu_cell s1 tid) (window_of e [g] l)" for tid
    by (simp cong: map_cong)
  then have "\<forall>lt \<in> set (iter_kv_layers fc s). map (gpu_cell s' (snd lt)) (window_of e (the (pl_block_ids l)) l) = f l (fst lt)"
    using here by (simp only: it0 bl option.sel eq)
  then show ?case using one rest bad bad' there by (simp add: s0_def it1)
qed simp

subsection \<open>From the advertised windows to the cache\<close>

text \<open>
  What the engine grants: the blocks it allocates for a load are one group of distinct blocks that reach
  the end of the advertised window, and no slot of a window belongs to two requests.
\<close>

definition granted :: "'p env \<Rightarrow> (string, pending_load) odict \<Rightarrow> bool" where
  "granted e loads \<longleftrightarrow> apart e (map snd loads)
     \<and> (\<forall>kl \<in> set loads. \<exists>g. pl_block_ids (snd kl) = Some [g] \<and> distinct g
          \<and> 0 \<le> start_or_zero (pl_target_start (snd kl))
          \<and> start_or_zero (pl_target_start (snd kl)) + pl_token_count (snd kl) \<le> len g * e_block_size e)"

lemma shipped_windows:
  assumes b: "0 < e_block_size e" and sound: "load_sound (e_block_size e) kl"
    and bl: "pl_block_ids (snd kl) = Some [g]" and d: "distinct g" and t: "0 \<le> start_or_zero (pl_target_start (snd kl))"
    and fit: "start_or_zero (pl_target_start (snd kl)) + pl_token_count (snd kl) \<le> len g * e_block_size e"
  shows "batch_sane e (shipped (snd kl))"
    and "(\<Union>x \<in> set (shipped (snd kl)). load_window e x) = load_window e (snd kl)"
proof -
  have "load_sound (e_block_size e) (fst kl, snd kl)" using sound by simp
  note cov = shipped_covers [OF this, unfolded start_of_zero]
  have "\<forall>x \<in> set (shipped (snd kl)). pl_block_ids x = Some [g]" using shipped_ids [of _ "snd kl"] bl by simp
  note cw = covers_windows [OF b d fit cov this t]
  show "batch_sane e (shipped (snd kl))"
    using cw \<open>\<forall>x \<in> set (shipped (snd kl)). pl_block_ids x = Some [g]\<close> by (auto simp: batch_sane_def)
  show "(\<Union>x \<in> set (shipped (snd kl)). load_window e x) = load_window e (snd kl)"
    using cw by (simp add: load_window_slots [OF bl])
qed

lemma shipped_batch:
  assumes b: "0 < e_block_size e" and sound: "\<forall>kl \<in> set loads. load_sound (e_block_size e) kl" and g: "granted e loads"
  shows "batch_sane e (concat (map shipped (map snd loads)))
    \<and> (\<Union>x \<in> set (concat (map shipped (map snd loads))). load_window e x) = (\<Union>kl \<in> set loads. load_window e (snd kl))"
  using sound g
proof (induction loads)
  case Nil
  then show ?case by (simp add: batch_sane_def)
next
  case (Cons kl loads)
  obtain g where bl: "pl_block_ids (snd kl) = Some [g]" and d: "distinct g"
    and t: "0 \<le> start_or_zero (pl_target_start (snd kl))"
    and fit: "start_or_zero (pl_target_start (snd kl)) + pl_token_count (snd kl) \<le> len g * e_block_size e"
    using Cons.prems(2) by (auto simp: granted_def)
  have "load_sound (e_block_size e) kl" using Cons.prems(1) by simp
  note here = shipped_windows [OF b this bl d t fit]
  let ?rest = "concat (map shipped (map snd loads))"
  have rest: "batch_sane e ?rest" "(\<Union>x \<in> set ?rest. load_window e x) = (\<Union>kl \<in> set loads. load_window e (snd kl))"
    using Cons.IH Cons.prems by (simp_all add: granted_def)
  have "load_window e (snd kl) \<inter> (\<Union>kl \<in> set loads. load_window e (snd kl)) = {}"
    using Cons.prems(2) by (auto simp: granted_def)
  then have "\<forall>x \<in> set (shipped (snd kl)). \<forall>y \<in> set ?rest. load_window e x \<inter> load_window e y = {}"
    unfolding here(2) [symmetric] rest(2) [symmetric] by blast
  then have "batch_sane e (shipped (snd kl) @ ?rest)"
    using here(1) rest(1) by (auto simp: batch_sane_def apart_append)
  moreover have "(\<Union>x \<in> set (shipped (snd kl) @ ?rest). load_window e x)
      = load_window e (snd kl) \<union> (\<Union>kl \<in> set loads. load_window e (snd kl))"
    unfolding set_append UN_Un here(2) rest(2) ..
  ultimately show ?case by simp
qed

text \<open>
  C1. What the scheduler advertised is what the engine's cache holds. In every state reachable by any order
  of the scheduler's hooks, the metadata a step ships makes the worker, on blocks the engine granted,
  with no captures in flight and donors that still supply the planned rows, succeed with nothing
  reported: in every layer, the slots of every shipped load hold its planned rows, these slots are exactly
  those of the advertised windows, and no other slot of the cache has changed.
\<close>

theorem advertised_windows_reach_the_cache:
  assumes "0 < e_block_size e" and "sched_reach e s"
    and "build_connector_meta e evict vol out s = (Inr md, s')"
    and "e_block_size e' = e_block_size e" and "granted e' (pending_loads s)"
    and "paged_by e' w" and "write_queue w = []"
    and "distinct (map snd (iter_kv_layers fc w))" and "iter_kv_layers fc w \<noteq> []"
    and "\<forall>x \<in> set (cm_loads md). \<forall>lt \<in> set (iter_kv_layers fc w).
           planned e' lib (fst (resolve_attn e' fc w)) x w (fst lt) (f x (fst lt))"
  shows "(\<Union>x \<in> set (cm_loads md). load_window e' x) = (\<Union>kl \<in> set (pending_loads s). load_window e' (snd kl))
    \<and> (\<exists>w'. start_load_kv e' lib (Inr md) fc w = (Inr (), w') \<and> load_error_blocks w' = load_error_blocks w
         \<and> gpu_frame (\<Union>kl \<in> set (pending_loads s). load_window e' (snd kl)) w w'
         \<and> (\<forall>x \<in> set (cm_loads md). \<forall>lt \<in> set (iter_kv_layers fc w).
              map (gpu_cell w' (snd lt)) (window_of e' (the (pl_block_ids x)) x) = f x (fst lt)))"
proof -
  note loads = build_ships(1) [OF assms(1-3)] and sound = build_ships(3) [OF assms(1-3)]
  have b: "0 < e_block_size e'" and sound': "\<forall>kl \<in> set (pending_loads s). load_sound (e_block_size e') kl"
    using assms(1,4) sound by simp_all
  note batch = shipped_batch [OF b sound' assms(5), folded loads]
  obtain attn w1 where at: "resolve_attn e' fc w = (attn, w1)" by fastforce
  have w1: "same_donors w w1" "gpu w1 = gpu w" "load_error_blocks w1 = load_error_blocks w"
    using at by (auto simp: resolve_attn_def Let_def split: option.splits if_splits)
  have it: "iter_kv_layers fc w1 = iter_kv_layers fc w" by (rule iter_same_donors [OF w1(1)])
  have pg: "paged_by e' w1" and q: "write_queue w1 = []"
    using assms(6,7) w1(1) by (simp_all add: paged_by_def w1(2) same_donors_def)
  have pl: "\<forall>x \<in> set (cm_loads md). \<forall>lt \<in> set (iter_kv_layers fc w1). planned e' lib attn x w1 (fst lt) (f x (fst lt))"
    using assms(10) by (simp add: it at planned_same_donors [OF w1(1)])
  obtain w' where run: "load_all e' lib fc attn (cm_loads md) w1 = (Inr (), w')"
    and bad: "load_error_blocks w' = load_error_blocks w1"
    and land: "\<forall>x \<in> set (cm_loads md). \<forall>lt \<in> set (iter_kv_layers fc w1).
      map (gpu_cell w' (snd lt)) (window_of e' (the (pl_block_ids x)) x) = f x (fst lt)"
    using load_all_lands [OF conjunct1 [OF batch] pg q assms(8,9) [folded it] pl] by blast
  have "\<forall>x \<in> set (cm_loads md). sane_load e' x" using conjunct1 [OF batch] by (simp add: batch_sane_def)
  from load_all_frame [OF run this pg]
  have fr: "gpu_frame (\<Union>kl \<in> set (pending_loads s). load_window e' (snd kl)) w1 w'" by (simp only: conjunct2 [OF batch])
  have fr': "gpu_frame (\<Union>kl \<in> set (pending_loads s). load_window e' (snd kl)) w w'"
    by (rule gpu_frame_trans [OF gpu_frame_refl [OF w1(2)] fr])
  show ?thesis
  proof (cases "cm_loads md = []")
    case True
    then have "start_load_kv e' lib (Inr md) fc w = (Inr (), w)" by (simp add: start_load_kv_def)
    then show ?thesis using conjunct2 [OF batch] True gpu_frame_refl [of w w] by auto
  next
    case False
    then have "start_load_kv e' lib (Inr md) fc w = (Inr (), w')" by (simp add: start_load_kv_def at run)
    then show ?thesis using conjunct2 [OF batch] bad w1(3) fr' land by (simp add: it)
  qed
qed

subsection \<open>Witness\<close>

text \<open>The match of \<open>Lifecycle\<close>, and a worker whose volume holds eight tokens of its donor.\<close>

definition advertised_load :: pending_load where
  "advertised_load = \<lparr>pl_request_id = ''q'', pl_donor_id = ''d'', pl_token_count = 4,
     pl_kind = K_SEMANTIC_SPAN, pl_namespace = ''vllm:block=unknown-bl'', pl_block_ids = Some [[0, 1, 2]],
     pl_donor_start = Some 2, pl_target_start = Some 2, pl_pieces = []\<rparr>"

definition donor_worker :: load_st where
  "donor_worker = (trip_state [(''l0'', 0)])\<lparr>disk :=
     [''vllm:block=unknown-bl:d'' \<mapsto> \<lparr>dd_record = Some (Some 8),
        dd_layers = [(''l0'', Rows [10, 11, 12, 13, 14, 15, 16, 17])], dd_temp = False\<rparr>]\<rparr>"

lemma advertised: "pending_loads allocated_state = [(''q'', advertised_load)]"
  by code_simp

lemma advertised_granted: "granted trip_env [(''q'', advertised_load)]"
  by (simp add: granted_def advertised_load_def start_or_zero_def trip_block)

lemma advertised_planned:
  "planned trip_env trip_lib None advertised_load donor_worker ''l0'' [12, 13, 14, 15]"
  by code_simp

theorem advertised_windows_reach_the_cache_witness:
  "\<exists>md s' w'. build_connector_meta span_env drop_hashes full_volume empty_step allocated_state = (Inr md, s')
     \<and> start_load_kv trip_env trip_lib (Inr md) trip_fc donor_worker = (Inr (), w')
     \<and> map (gpu_cell w' 0) [2, 3, 4, 5] = [12, 13, 14, 15]"
proof -
  obtain md s' where run: "build_connector_meta span_env drop_hashes full_volume empty_step allocated_state = (Inr md, s')"
    using lifecycle_run(2)
    by (cases "fst (build_connector_meta span_env drop_hashes full_volume empty_step allocated_state)")
      (auto dest: fst_run)
  have b: "0 < e_block_size span_env" and b': "e_block_size trip_env = e_block_size span_env"
    by (simp_all add: span_params trip_block)
  have loads: "cm_loads md = [advertised_load]"
    using build_ships(1) [OF b fresh_reach run] by (simp add: advertised shipped_def advertised_load_def)
  have it: "iter_kv_layers trip_fc donor_worker = [(''l0'', 0)]"
    by (simp add: iter_kv_layers_def donor_worker_def trip_state_def)
  have idle: "write_queue donor_worker = []" and pg: "paged_by trip_env donor_worker"
    by (simp_all add: donor_worker_def trip_state_def paged_by_def trip_block)
  have at: "fst (resolve_attn trip_env trip_fc donor_worker) = None"
    by (simp add: resolve_attn_def trip_fc_def donor_worker_def trip_state_def Let_def)
  have pl: "\<forall>x \<in> set (cm_loads md). \<forall>lt \<in> set (iter_kv_layers trip_fc donor_worker).
      planned trip_env trip_lib (fst (resolve_attn trip_env trip_fc donor_worker)) x donor_worker (fst lt)
        ((\<lambda>_ _. [12, 13, 14, 15]) x (fst lt))"
    by (simp add: loads it at advertised_planned)
  have win: "window_of trip_env (the (pl_block_ids advertised_load)) advertised_load = [2, 3, 4, 5]" by code_simp
  have "distinct (map snd (iter_kv_layers trip_fc donor_worker))" "iter_kv_layers trip_fc donor_worker \<noteq> []"
    by (simp_all add: it)
  from advertised_windows_reach_the_cache [OF b fresh_reach run b' advertised_granted [folded advertised] pg idle this pl]
  show ?thesis using run by (auto simp: loads it win)
qed

end
