(* ===== verification/Declined.thy ===== *)
theory Declined
  imports Lifecycle
begin

text \<open>
  What a startup verdict against the engine means for the rest of the scheduler role: whatever hooks are
  called afterwards, and in whatever order, nothing is advertised, loaded, captured or registered.
\<close>

text \<open>A connector that remembers no request, as a new one does.\<close>

definition inert :: "('p, 'z) reg_st_scheme \<Rightarrow> bool" where
  "inert s \<longleftrightarrow> load_plans s = Map.empty \<and> lookup_cache s = Map.empty \<and> pending_loads s = []
     \<and> filled_blocks s = Map.empty \<and> pending_finalize s = [] \<and> deferred_registrations s = []"

lemma inert_small [simp]:
  "inert (audit e r ev s) = inert s" "inert (bump k s) = inert s"
  by (simp_all add: inert_def)

lemma declined_exit:
  assumes "e_compat_decline e = Some why"
  shows "\<exists>s'. early_exits e rid a ts n s = Some s' \<and> (inert s \<longrightarrow> inert s') \<and> provider s' = provider s"
  using assms by (auto simp: early_exits_def exit_incompatible_def)

lemma declined_match:
  fixes s :: "('p, 'z) reg_st_scheme"
  assumes d: "e_compat_decline e = Some why" and out: "get_num_new_matched_tokens e vol r n s = (x, s')"
  shows "x = Inr 0" and "inert s \<Longrightarrow> inert s'" and "provider s' = provider s"
proof -
  obtain a s1 where a: "record_attempt (request_id_of r) s = (a, s1)" by fastforce
  define s2 where "s2 = (if a = 0 then bump (SM Lookups_total) s1 else s1)"
  have s2: "inert s \<Longrightarrow> inert s2" "provider s2 = provider s"
    using a by (auto simp: s2_def record_attempt_def inert_def Let_def)
  obtain s3 where s3: "early_exits e (request_id_of r) a (token_ids_of r) n s2 = Some s3"
    "inert s2 \<longrightarrow> inert s3" "provider s3 = provider s2"
    using declined_exit [OF d] by blast
  have "(x, s') = (Inr 0, s3)"
    using out by (simp add: get_num_new_matched_tokens_def a s2_def [symmetric] s3(1) Let_def)
  then show "x = Inr 0" "inert s \<Longrightarrow> inert s'" "provider s' = provider s" using s2 s3 by simp_all
qed

lemma inert_segments: "inert s \<Longrightarrow> segment_runs e vol rid s = (None, s)"
  by (simp add: segment_runs_def inert_def)

lemma inert_mid: "inert s \<Longrightarrow> get_num_new_matched_tokens_mid_prefill e vol r n s = (Inr 0, s)"
  by (simp add: get_num_new_matched_tokens_mid_prefill_def inert_segments Let_def)

lemma inert_limit: "inert s \<Longrightarrow> get_prefill_compute_limit e vol r n s = (None, s)"
  by (simp add: get_prefill_compute_limit_def inert_segments)

lemma inert_alloc:
  assumes "inert s" and "update_state_after_alloc e evict r blocks n s = (x, s')"
  shows "inert s'" and "provider s' = provider s"
  using assms by (auto simp: update_state_after_alloc_def inert_def Let_def split: if_splits)

lemma inert_retry: "inert s \<Longrightarrow> retry_deferred_registrations e vol final s = s"
  by (simp add: retry_deferred_registrations_def inert_def)

lemma inert_track_rows: "filled_blocks s = Map.empty \<Longrightarrow> track_rows e evict resumed rows s = (Inr (), s)"
  by (induction rows) (simp_all add: Let_def)

lemma declined_disabled: "e_compat_decline e = Some why \<Longrightarrow> \<not> materialization_enabled e"
  by (simp add: materialization_enabled_def)

lemma declined_build:
  assumes d: "e_compat_decline e = Some why" and i: "inert s"
    and out: "build_connector_meta e evict vol sout s = (x, s')"
  shows "x = Inr \<lparr>cm_loads = [], cm_stores = [], cm_finalize = []\<rparr>" and "inert s'" and "provider s' = provider s"
proof -
  define s1 where "s1 = s\<lparr>scheduler_step := scheduler_step s + 1\<rparr>"
  have s1: "inert s1" "provider s1 = provider s" using i by (simp_all add: s1_def inert_def)
  define s2 where "s2 = note_capture_disabled e s1"
  have s2: "inert s2" "provider s2 = provider s"
    using s1 by (simp_all add: s2_def note_capture_disabled_def Let_def)
  have p1: "pending_loads s1 = []" and f2: "filled_blocks s2 = Map.empty" "pending_finalize s2 = []"
    using s1(1) s2(1) by (simp_all add: inert_def)
  have st: "build_store_metadata e sout s1 = (Inr [], s2)"
    using declined_disabled [OF d] by (simp add: build_store_metadata_def s2_def)
  define s3 where "s3 = retire_fills (so_finished_req_ids sout) s2"
  have s3: "inert s3" "provider s3 = provider s" using s2 by (simp_all add: s3_def retire_fills_def inert_def)
  then have f3: "filled_blocks s3 = Map.empty" "pending_finalize s3 = []" by (simp_all add: inert_def)
  have tr: "track_running_fills e evict sout s2 = (Inr (), s3)"
    by (simp add: track_running_fills_def s3_def [symmetric] inert_track_rows [OF f3(1)] split: option.splits prod.splits)
  have "(x, s') = (Inr \<lparr>cm_loads = [], cm_stores = [], cm_finalize = []\<rparr>, s3\<lparr>pending_loads := [], pending_finalize := []\<rparr>)"
    using out by (simp add: build_connector_meta_def s1_def [symmetric] inert_retry [OF s1(1)] p1 st tr f3 Let_def)
  then show "x = Inr \<lparr>cm_loads = [], cm_stores = [], cm_finalize = []\<rparr>" "inert s'" "provider s' = provider s"
    using s3 by (simp_all add: inert_def)
qed

lemma declined_finish:
  assumes d: "e_compat_decline e = Some why" and i: "inert s"
  shows "inert (request_finished e vol r bs s) \<and> provider (request_finished e vol r bs s) = provider s"
  using i d
  by (simp add: request_finished_def inert_retry register_donor_on_finish_def registration_exit_def
      retire_before_registration_def retire_after_registration_def forget_request_join_key_def inert_def Let_def)

lemma declined_step:
  assumes d: "e_compat_decline e = Some why" and i: "inert s" and step: "sched_step e s s'"
  shows "inert s' \<and> provider s' = provider s"
  using step
proof cases
  case (Arrive r)
  then show ?thesis using i by (simp add: on_new_request_def)
next
  case (Match n vol r res)
  then show ?thesis using declined_match [OF d Match(2)] i by simp
next
  case (Match_mid n vol r res)
  then show ?thesis using inert_mid [OF i] i by simp
next
  case (Limit vol r n edge)
  then show ?thesis using inert_limit [OF i] i by simp
next
  case (Alloc evict r blocks n ures)
  then show ?thesis using inert_alloc [OF i Alloc] by simp
next
  case (Step evict vol out md)
  then show ?thesis using declined_build [OF d i Step] by simp
next
  case (Finish vol r bs)
  then show ?thesis using declined_finish [OF d i] by simp
next
  case (Bind pool)
  then show ?thesis using i by (simp add: bind_gpu_block_pool_def inert_def)
next
  case (Shutdown vol)
  then show ?thesis using inert_retry [OF i] i by (simp add: shutdown_registrations_def)
qed

text \<open>
  C40. An engine the startup gate declined gets nothing from the connector: from a connector that
  remembers no request, after any sequence of the scheduler's hooks, every match advertises zero tokens, no
  prefill is cut short, every step ships empty metadata, and the provider has never been called.
\<close>

theorem declined_engine_is_inert:
  assumes "e_compat_decline e = Some why" and "inert s0" and "(sched_step e)\<^sup>*\<^sup>* s0 s"
  shows "provider s = provider s0
    \<and> fst (get_num_new_matched_tokens e vol r n s) = Inr 0
    \<and> fst (get_num_new_matched_tokens_mid_prefill e vol r n s) = Inr 0
    \<and> fst (get_prefill_compute_limit e vol r n s) = None
    \<and> fst (build_connector_meta e evict vol out s) = Inr \<lparr>cm_loads = [], cm_stores = [], cm_finalize = []\<rparr>"
proof -
  have i: "inert s \<and> provider s = provider s0"
    using assms(3)
  proof (induction rule: rtranclp_induct)
    case base
    then show ?case using assms(2) by simp
  next
    case (step s s')
    then show ?case using declined_step [OF assms(1), of s s'] by simp
  qed
  have "fst (get_num_new_matched_tokens e vol r n s) = Inr 0"
    using declined_match(1) [OF assms(1) surjective_pairing] .
  moreover have "fst (build_connector_meta e evict vol out s) = Inr \<lparr>cm_loads = [], cm_stores = [], cm_finalize = []\<rparr>"
    using declined_build(1) [OF assms(1) conjunct1 [OF i] surjective_pairing] .
  ultimately show ?thesis using i inert_mid [of s e vol r n] inert_limit [of s e vol r n] by simp
qed

subsection \<open>Witness\<close>

definition declined_env :: "unit env" where
  "declined_env = span_env\<lparr>e_compat_decline := Some ''context parallelism''\<rparr>"

definition new_scheduler :: "unit reg_st" where
  "new_scheduler = fresh_scheduler\<lparr>lookup_cache := Map.empty\<rparr>"

theorem declined_engine_is_inert_witness:
  "fst (build_connector_meta declined_env drop_hashes full_volume empty_step
      (snd (get_num_new_matched_tokens declined_env full_volume span_request 2 new_scheduler)))
    = Inr \<lparr>cm_loads = [], cm_stores = [], cm_finalize = []\<rparr>"
proof -
  have d: "e_compat_decline declined_env = Some ''context parallelism''" by (simp add: declined_env_def)
  have i: "inert new_scheduler"
    by (simp add: inert_def new_scheduler_def fresh_scheduler_def capture_st.defs fill_st.defs match_st.defs
        span_state_def init_match_def)
  have "sched_step declined_env new_scheduler
      (snd (get_num_new_matched_tokens declined_env full_volume span_request 2 new_scheduler))"
    by (rule sched_step.Match [OF _ surjective_pairing]) simp
  from declined_engine_is_inert [OF d i r_into_rtranclp [of "sched_step declined_env", OF this],
      of full_volume span_request 2 drop_hashes empty_step]
  show ?thesis by (elim conjE)
qed

end
