(* ===== verification/CaptureWriter.thy ===== *)
theory CaptureWriter
  imports Prelude "HOL-Library.Multiset" "HOL-Library.Sublist"
begin

text \<open>
  The bounded queue and background thread of \<open>capture_writer.py\<close> as a transition system. A step is one
  indivisible action of one of three parties: the submitting thread (\<open>submit\<close>), the writer thread
  (\<open>_run\<close>) and whoever calls \<open>close\<close>; any interleaving of them is a run. A job is opaque. What the
  \<open>write\<close> callback does is not part of this theory: a job ends written or failed. The ghost fields
  \<open>w_accepted\<close>, \<open>w_written\<close>, \<open>w_failed\<close> and \<open>w_refused\<close> record, in order, what was put into the queue,
  written, handed to \<open>on_error\<close>, and refused to the submitter by an exception. \<open>WriterRegistry\<close> has the writers of a process.
\<close>

subsection \<open>State\<close>

text \<open>Where the writer thread is: before its first job, in \<open>queue.get\<close>, on a job or the sentinel, or gone.\<close>

datatype 'j worker = Not_started | Waiting | Busy "'j option" | Stopped

text \<open>Where \<open>close\<close> is: at the sentinel's \<open>put\<close>, in \<open>_abandon_queued\<close>, or past both.\<close>

datatype closer = Open | Putting | Abandoning | Closed_done

record 'j writer =
  w_depth :: nat
  w_queue :: "'j option list"
  w_unfinished :: nat
  w_thread :: "'j worker"
  w_closed :: bool
  w_stopping :: bool
  w_closer :: closer
  w_blocked :: "'j option"
  w_accepted :: "'j list"
  w_written :: "'j list"
  w_failed :: "'j list"
  w_refused :: "'j list"

definition new_writer :: "int \<Rightarrow> 'j writer" where
  "new_writer max_queue_depth =
     \<lparr>w_depth = nat (max 1 max_queue_depth), w_queue = [], w_unfinished = 0, w_thread = Not_started,
      w_closed = False, w_stopping = False, w_closer = Open, w_blocked = None,
      w_accepted = [], w_written = [], w_failed = [], w_refused = []\<rparr>"

definition has_room :: "'j writer \<Rightarrow> bool" where
  "has_room w = (length (w_queue w) < w_depth w)"

subsection \<open>\<open>queue.Queue\<close>\<close>

definition q_put :: "'j option \<Rightarrow> 'j writer \<Rightarrow> 'j writer" where
  "q_put x w = w\<lparr>w_queue := w_queue w @ [x], w_unfinished := w_unfinished w + 1\<rparr>"

definition task_done :: "'j writer \<Rightarrow> 'j writer" where
  "task_done w = w\<lparr>w_unfinished := w_unfinished w - 1\<rparr>"

definition accept_job :: "'j \<Rightarrow> 'j writer \<Rightarrow> 'j writer" where
  "accept_job j w = (q_put (Some j) w)\<lparr>w_accepted := w_accepted w @ [j]\<rparr>"

subsection \<open>The submitting thread\<close>

text \<open>\<open>_ensure_thread\<close>: \<open>None\<close> when the writer is closed.\<close>

definition ensure_thread :: "'j writer \<Rightarrow> 'j writer option" where
  "ensure_thread w =
     (if w_closed w then None
      else Some (if w_thread w = Not_started then w\<lparr>w_thread := Waiting\<rparr> else w))"

text \<open>\<open>submit\<close> up to where it returns, raises or starts to wait for room.\<close>

definition submit :: "'j \<Rightarrow> 'j writer \<Rightarrow> 'j writer" where
  "submit j w =
     (case ensure_thread w of
        None \<Rightarrow> w\<lparr>w_refused := w_refused w @ [j]\<rparr>
      | Some w1 \<Rightarrow> if has_room w1 then accept_job j w1 else w1\<lparr>w_blocked := Some j\<rparr>)"

definition resume_submit :: "'j \<Rightarrow> 'j writer \<Rightarrow> 'j writer" where
  "resume_submit j w = accept_job j (w\<lparr>w_blocked := None\<rparr>)"

definition submit_timed_out :: "'j \<Rightarrow> 'j writer \<Rightarrow> 'j writer" where
  "submit_timed_out j w = w\<lparr>w_blocked := None, w_refused := w_refused w @ [j]\<rparr>"

text \<open>When \<open>join\<close> returns.\<close>

definition join_returns :: "'j writer \<Rightarrow> bool" where
  "join_returns w = (w_thread w = Not_started \<or> w_closed w \<or> w_unfinished w = 0)"

subsection \<open>The writer thread\<close>

definition take_job :: "'j writer \<Rightarrow> 'j writer" where
  "take_job w =
     (case w_queue w of [] \<Rightarrow> w | x # xs \<Rightarrow> w\<lparr>w_queue := xs, w_thread := Busy x\<rparr>)"

definition finish_job :: "bool \<Rightarrow> 'j writer \<Rightarrow> 'j writer" where
  "finish_job ok w =
     (case w_thread w of
        Busy (Some j) \<Rightarrow>
          (let w1 = task_done (if ok then w\<lparr>w_written := w_written w @ [j]\<rparr>
                               else w\<lparr>w_failed := w_failed w @ [j]\<rparr>)
           in w1\<lparr>w_thread := (if w_stopping w then Stopped else Waiting)\<rparr>)
      | Busy None \<Rightarrow> (task_done w)\<lparr>w_thread := Stopped\<rparr>
      | _ \<Rightarrow> w)"

subsection \<open>\<open>close\<close>\<close>

definition close_begin :: "'j writer \<Rightarrow> 'j writer" where
  "close_begin w =
     (if w_closed w then w
      else w\<lparr>w_closed := True,
             w_closer := (if w_thread w = Not_started then Closed_done else Putting)\<rparr>)"

definition put_sentinel :: "'j writer \<Rightarrow> 'j writer" where
  "put_sentinel w = (q_put None w)\<lparr>w_closer := Closed_done\<rparr>"

definition give_up_sentinel :: "'j writer \<Rightarrow> 'j writer" where
  "give_up_sentinel w = w\<lparr>w_stopping := True, w_closer := Abandoning\<rparr>"

definition abandon_one :: "'j writer \<Rightarrow> 'j writer" where
  "abandon_one w =
     (case w_queue w of
        [] \<Rightarrow> w\<lparr>w_closer := Closed_done\<rparr>
      | x # xs \<Rightarrow>
          (let w1 = task_done (w\<lparr>w_queue := xs\<rparr>)
           in case x of None \<Rightarrow> w1 | Some j \<Rightarrow> w1\<lparr>w_failed := w_failed w1 @ [j]\<rparr>))"

subsection \<open>Steps\<close>

inductive writer_step :: "'j writer \<Rightarrow> 'j writer \<Rightarrow> bool" where
  Take: "w_thread w = Waiting \<Longrightarrow> w_queue w \<noteq> [] \<Longrightarrow> writer_step w (take_job w)"
| Done: "w_thread w = Busy x \<Longrightarrow> writer_step w (finish_job ok w)"

inductive client_step :: "'j writer \<Rightarrow> 'j writer \<Rightarrow> bool" where
  Submit: "w_blocked w = None \<Longrightarrow> client_step w (submit j w)"
| Resume: "w_blocked w = Some j \<Longrightarrow> has_room w \<Longrightarrow> client_step w (resume_submit j w)"
| Timeout: "w_blocked w = Some j \<Longrightarrow> client_step w (submit_timed_out j w)"

inductive close_step :: "'j writer \<Rightarrow> 'j writer \<Rightarrow> bool" where
  Begin: "close_step w (close_begin w)"
| Sentinel: "w_closer w = Putting \<Longrightarrow> has_room w \<Longrightarrow> close_step w (put_sentinel w)"
| Give_up: "w_closer w = Putting \<Longrightarrow> \<not> has_room w \<Longrightarrow> close_step w (give_up_sentinel w)"
| Abandon: "w_closer w = Abandoning \<Longrightarrow> close_step w (abandon_one w)"

inductive reach :: "int \<Rightarrow> 'j writer \<Rightarrow> bool" for d :: int where
  New: "reach d (new_writer d)"
| Writer: "reach d w \<Longrightarrow> writer_step w w' \<Longrightarrow> reach d w'"
| Client: "reach d w \<Longrightarrow> client_step w w' \<Longrightarrow> reach d w'"
| Close: "reach d w \<Longrightarrow> close_step w w' \<Longrightarrow> reach d w'"

inductive_cases writer_stepE: "writer_step w w'"
inductive_cases client_stepE: "client_step w w'"
inductive_cases close_stepE: "close_step w w'"

text \<open>
  The runs of a connector whose saves and shutdown are on one thread: \<open>close\<close> does not begin while a
  \<open>submit\<close> is waiting for room.
\<close>

inductive seq_reach :: "int \<Rightarrow> 'j writer \<Rightarrow> bool" for d :: int where
  New: "seq_reach d (new_writer d)"
| Writer: "seq_reach d w \<Longrightarrow> writer_step w w' \<Longrightarrow> seq_reach d w'"
| Client: "seq_reach d w \<Longrightarrow> client_step w w' \<Longrightarrow> seq_reach d w'"
| Close: "seq_reach d w \<Longrightarrow> close_step w w' \<Longrightarrow> w_blocked w = None \<Longrightarrow> seq_reach d w'"

lemma seq_is_reach: "seq_reach d w \<Longrightarrow> reach d w"
proof (induction rule: seq_reach.induct)
  case (Writer w w')
  show ?case by (rule reach.Writer [OF Writer.IH Writer.hyps(2)])
next
  case (Client w w')
  show ?case by (rule reach.Client [OF Client.IH Client.hyps(2)])
next
  case (Close w w')
  show ?case by (rule reach.Close [OF Close.IH Close.hyps(2)])
qed (rule reach.New)

subsection \<open>Invariants\<close>

abbreviation jobs :: "'j option list \<Rightarrow> 'j list" where
  "jobs q \<equiv> List.map_filter id q"

definition in_hand :: "'j writer \<Rightarrow> 'j list" where
  "in_hand w = (case w_thread w of Busy (Some j) \<Rightarrow> [j] | _ \<Rightarrow> [])"

definition is_busy :: "'j writer \<Rightarrow> bool" where
  "is_busy w = (case w_thread w of Busy _ \<Rightarrow> True | _ \<Rightarrow> False)"

text \<open>
  The queue holds at most \<open>w_depth\<close> entries, its own counter is exact, no job is lost or duplicated,
  and jobs leave the queue in the order they entered, so the writer writes in submission order.
\<close>

definition queue_inv :: "'j writer \<Rightarrow> bool" where
  "queue_inv w \<longleftrightarrow> length (w_queue w) \<le> w_depth w \<and> 0 < w_depth w
     \<and> w_unfinished w = length (w_queue w) + (if is_busy w then 1 else 0)
     \<and> mset (w_accepted w) = mset (w_written w) + mset (w_failed w) + mset (in_hand w) + mset (jobs (w_queue w))
     \<and> (\<exists>taken. w_accepted w = taken @ jobs (w_queue w) \<and> subseq (w_written w @ in_hand w) taken)
     \<and> (w_thread w = Not_started \<longrightarrow> w_queue w = [])"

lemma jobs_simps [simp]:
  "jobs [] = []" "jobs (None # q) = jobs q" "jobs (Some j # q) = j # jobs q" "jobs (p @ q) = jobs p @ jobs q"
  by (simp_all add: map_filter_simps map_filter_def)

lemma queue_inv_new: "queue_inv (new_writer d)"
  by (simp add: queue_inv_def new_writer_def is_busy_def in_hand_def)

lemma queue_inv_accept:
  assumes "queue_inv w" and "has_room w" and "w_thread w \<noteq> Not_started"
  shows "queue_inv (accept_job j w)"
proof -
  from assms(1) obtain taken where t: "w_accepted w = taken @ jobs (w_queue w)"
    "subseq (w_written w @ in_hand w) taken"
    by (auto simp: queue_inv_def)
  have fields: "w_queue (accept_job j w) = w_queue w @ [Some j]" "w_depth (accept_job j w) = w_depth w"
    "w_unfinished (accept_job j w) = w_unfinished w + 1" "w_accepted (accept_job j w) = w_accepted w @ [j]"
    "w_thread (accept_job j w) = w_thread w" "w_written (accept_job j w) = w_written w"
    "w_failed (accept_job j w) = w_failed w"
    by (simp_all add: accept_job_def q_put_def)
  have "in_hand (accept_job j w) = in_hand w" "is_busy (accept_job j w) = is_busy w"
    by (simp_all add: in_hand_def is_busy_def fields)
  moreover have "\<exists>tk. w_accepted w @ [j] = tk @ jobs (w_queue w) @ [j] \<and> subseq (w_written w @ in_hand w) tk"
    using t by (intro exI [of _ taken]) simp
  ultimately show ?thesis
    using assms by (simp add: queue_inv_def fields has_room_def)
qed

lemma queue_inv_cong:
  assumes "queue_inv w" and "w_queue w' = w_queue w" "w_depth w' = w_depth w" "w_unfinished w' = w_unfinished w"
    "w_accepted w' = w_accepted w" "w_written w' = w_written w" "w_failed w' = w_failed w"
    and "w_thread w' = w_thread w \<or> w_thread w = Not_started \<and> w_thread w' = Waiting"
  shows "queue_inv w'"
proof -
  have "in_hand w' = in_hand w" "is_busy w' = is_busy w"
    using assms(8) by (auto simp: in_hand_def is_busy_def)
  then show ?thesis using assms by (auto simp: queue_inv_def)
qed

lemma queue_inv_submit:
  assumes "queue_inv w" shows "queue_inv (submit j w)"
proof (cases "w_closed w")
  case True
  then have "submit j w = w\<lparr>w_refused := w_refused w @ [j]\<rparr>" by (simp add: submit_def ensure_thread_def)
  then show ?thesis by (intro queue_inv_cong [OF assms]) simp_all
next
  case False
  define w1 where "w1 = (if w_thread w = Not_started then w\<lparr>w_thread := Waiting\<rparr> else w)"
  have w1: "queue_inv w1" unfolding w1_def by (rule queue_inv_cong [OF assms]) simp_all
  have thread: "w_thread w1 \<noteq> Not_started" by (simp add: w1_def)
  have sub: "submit j w = (if has_room w1 then accept_job j w1 else w1\<lparr>w_blocked := Some j\<rparr>)"
    using False by (simp add: submit_def ensure_thread_def w1_def)
  show ?thesis
  proof (cases "has_room w1")
    case True
    then show ?thesis using sub queue_inv_accept [OF w1 True thread] by simp
  next
    case False
    then show ?thesis unfolding sub by (simp add: queue_inv_cong [OF w1])
  qed
qed

lemma queue_inv_take:
  assumes "queue_inv w" and "w_thread w = Waiting" and "w_queue w = x # q"
  shows "queue_inv (take_job w)"
proof -
  from assms(1) obtain taken where t: "w_accepted w = taken @ jobs (w_queue w)"
    "subseq (w_written w @ in_hand w) taken"
    by (auto simp: queue_inv_def)
  have h: "in_hand w = []" by (simp add: in_hand_def assms(2))
  have fields: "w_queue (take_job w) = q" "w_depth (take_job w) = w_depth w"
    "w_unfinished (take_job w) = w_unfinished w" "w_accepted (take_job w) = w_accepted w"
    "w_thread (take_job w) = Busy x" "w_written (take_job w) = w_written w" "w_failed (take_job w) = w_failed w"
    by (simp_all add: take_job_def assms(3))
  have busy: "is_busy (take_job w)" "\<not> is_busy w" by (simp_all add: is_busy_def fields assms(2))
  have hand: "in_hand (take_job w) @ jobs q = jobs (w_queue w)"
    by (cases x) (simp_all add: in_hand_def fields assms(3))
  have "\<exists>tk. w_accepted w = tk @ jobs q \<and> subseq (w_written w @ in_hand (take_job w)) tk"
    using t hand h by (intro exI [of _ "taken @ in_hand (take_job w)"]) (auto intro: list_emb_append_mono)
  moreover have "mset (jobs (w_queue w)) = mset (in_hand (take_job w)) + mset (jobs q)"
    unfolding hand [symmetric] by simp
  ultimately show ?thesis using assms(1,3) h busy by (simp add: queue_inv_def fields)
qed

lemma queue_inv_finish:
  assumes "queue_inv w" and "w_thread w = Busy x"
  shows "queue_inv (finish_job ok w)"
proof -
  from assms(1) obtain taken where t: "w_accepted w = taken @ jobs (w_queue w)"
    "subseq (w_written w @ in_hand w) taken"
    by (auto simp: queue_inv_def)
  have un: "w_unfinished w - 1 = length (w_queue w)" using assms by (simp add: queue_inv_def is_busy_def)
  have "subseq (w_written w) (w_written w @ in_hand w)" by (simp add: prefix_imp_subseq)
  then have sub: "subseq (w_written w) taken" using t(2) by (rule subseq_order.trans)
  show ?thesis
  proof (cases x)
    case None
    then show ?thesis using assms un t sub
      by (auto simp: queue_inv_def finish_job_def task_done_def is_busy_def in_hand_def)
  next
    case (Some j)
    have "in_hand w = [j]" by (simp add: in_hand_def assms(2) Some)
    then show ?thesis using assms un t sub
      by (cases ok) (auto simp: queue_inv_def finish_job_def task_done_def is_busy_def in_hand_def Some Let_def)
  qed
qed

lemma queue_inv_abandon:
  assumes "queue_inv w" shows "queue_inv (abandon_one w)"
proof (cases "w_queue w")
  case Nil
  then show ?thesis by (simp add: abandon_one_def queue_inv_cong [OF assms])
next
  case (Cons x q)
  from assms obtain taken where t: "w_accepted w = taken @ jobs (w_queue w)"
    "subseq (w_written w @ in_hand w) taken"
    by (auto simp: queue_inv_def)
  define w' where "w' = abandon_one w"
  have fields: "w_queue w' = q" "w_depth w' = w_depth w"
    "w_unfinished w' = w_unfinished w - 1" "w_accepted w' = w_accepted w"
    "w_thread w' = w_thread w" "w_written w' = w_written w"
    "w_failed w' = w_failed w @ jobs [x]"
    by (cases x; simp add: w'_def abandon_one_def Cons task_done_def Let_def)+
  have same: "in_hand w' = in_hand w" "is_busy w' = is_busy w" by (simp_all add: in_hand_def is_busy_def fields)
  have split: "jobs (w_queue w) = jobs [x] @ jobs q" by (cases x) (simp_all add: Cons)
  have "\<exists>tk. w_accepted w = tk @ jobs q \<and> subseq (w_written w @ in_hand w) tk"
    using t split by (intro exI [of _ "taken @ jobs [x]"]) (auto intro: subseq_order.trans)
  then have "queue_inv w'"
    using assms by (cases x) (simp_all add: queue_inv_def fields same Cons)
  then show ?thesis by (simp add: w'_def)
qed

lemma queue_inv_put_sentinel:
  assumes "queue_inv w" and "has_room w" and "w_thread w \<noteq> Not_started"
  shows "queue_inv (put_sentinel w)"
proof -
  have fields: "w_queue (put_sentinel w) = w_queue w @ [None]" "w_depth (put_sentinel w) = w_depth w"
    "w_unfinished (put_sentinel w) = w_unfinished w + 1" "w_accepted (put_sentinel w) = w_accepted w"
    "w_thread (put_sentinel w) = w_thread w" "w_written (put_sentinel w) = w_written w"
    "w_failed (put_sentinel w) = w_failed w"
    by (simp_all add: put_sentinel_def q_put_def)
  have "in_hand (put_sentinel w) = in_hand w" "is_busy (put_sentinel w) = is_busy w"
    by (simp_all add: in_hand_def is_busy_def fields)
  then show ?thesis using assms by (simp add: queue_inv_def fields has_room_def)
qed

text \<open>Who may act when: \<open>close\<close> past its first line means closed, with a thread to stop.\<close>

definition closer_inv :: "'j writer \<Rightarrow> bool" where
  "closer_inv w \<longleftrightarrow> (w_closed w \<longleftrightarrow> w_closer w \<noteq> Open)
     \<and> (w_closer w \<in> {Putting, Abandoning} \<longrightarrow> w_thread w \<noteq> Not_started)
     \<and> (w_blocked w \<noteq> None \<longrightarrow> w_thread w \<noteq> Not_started)
     \<and> (w_stopping w \<longrightarrow> w_closer w \<in> {Abandoning, Closed_done})
     \<and> (w_thread w \<in> {Stopped, Busy None} \<or> None \<in> set (w_queue w) \<longrightarrow> w_closed w)"

lemma closer_inv_step:
  assumes "closer_inv w"
  shows "writer_step w w' \<Longrightarrow> closer_inv w'" and "client_step w w' \<Longrightarrow> closer_inv w'"
    and "close_step w w' \<Longrightarrow> closer_inv w'"
proof -
  show "closer_inv w'" if "writer_step w w'"
    using that assms by (cases rule: writer_step.cases)
      (auto simp: closer_inv_def take_job_def finish_job_def task_done_def Let_def split: list.splits option.splits)
  show "closer_inv w'" if "client_step w w'"
    using that assms by (cases rule: client_step.cases)
      (auto simp: closer_inv_def submit_def ensure_thread_def accept_job_def q_put_def resume_submit_def
        submit_timed_out_def)
  show "closer_inv w'" if "close_step w w'"
    using that assms by (cases rule: close_step.cases)
      (auto simp: closer_inv_def close_begin_def put_sentinel_def q_put_def give_up_sentinel_def abandon_one_def
        task_done_def Let_def split: list.splits option.splits)
qed

lemma queue_inv_step:
  assumes q: "queue_inv w" and c: "closer_inv w"
  shows "writer_step w w' \<Longrightarrow> queue_inv w'" and "client_step w w' \<Longrightarrow> queue_inv w'"
    and "close_step w w' \<Longrightarrow> queue_inv w'"
proof -
  show "queue_inv w'" if "writer_step w w'"
    using that
  proof (cases rule: writer_step.cases)
    case Take
    then obtain x xs where "w_queue w = x # xs" by (meson list.exhaust)
    from queue_inv_take [OF q Take(2) this] Take(1) show ?thesis by simp
  next
    case (Done x ok)
    from queue_inv_finish [OF q Done(2)] Done(1) show ?thesis by simp
  qed
  show "queue_inv w'" if "client_step w w'"
    using that
  proof (cases rule: client_step.cases)
    case (Submit j)
    then show ?thesis using queue_inv_submit [OF q] by simp
  next
    case (Resume j)
    have "queue_inv (w\<lparr>w_blocked := None\<rparr>)" by (rule queue_inv_cong [OF q]) simp_all
    moreover have "has_room (w\<lparr>w_blocked := None\<rparr>)" using Resume by (simp add: has_room_def)
    moreover have "w_thread (w\<lparr>w_blocked := None\<rparr>) \<noteq> Not_started" using Resume c by (simp add: closer_inv_def)
    ultimately have "queue_inv (accept_job j (w\<lparr>w_blocked := None\<rparr>))" by (rule queue_inv_accept)
    then show ?thesis using Resume by (simp add: resume_submit_def)
  next
    case (Timeout j)
    then show ?thesis by (simp add: submit_timed_out_def queue_inv_cong [OF q])
  qed
  show "queue_inv w'" if "close_step w w'"
    using that
  proof (cases rule: close_step.cases)
    case Begin
    then show ?thesis using q by (simp add: close_begin_def queue_inv_cong [OF q])
  next
    case Sentinel
    then show ?thesis using queue_inv_put_sentinel [OF q] c by (simp add: closer_inv_def)
  next
    case Give_up
    then show ?thesis by (simp add: give_up_sentinel_def queue_inv_cong [OF q])
  next
    case Abandon
    then show ?thesis using queue_inv_abandon [OF q] by simp
  qed
qed

lemma reach_inv: "reach d w \<Longrightarrow> queue_inv w \<and> closer_inv w"
proof (induction rule: reach.induct)
  case New
  then show ?case by (simp add: queue_inv_new) (simp add: closer_inv_def new_writer_def)
next
  case (Writer w w')
  note i = conjunct1 [OF Writer.IH] conjunct2 [OF Writer.IH]
  show ?case using queue_inv_step(1) [OF i Writer.hyps(2)] closer_inv_step(1) [OF i(2) Writer.hyps(2)] by simp
next
  case (Client w w')
  note i = conjunct1 [OF Client.IH] conjunct2 [OF Client.IH]
  show ?case using queue_inv_step(2) [OF i Client.hyps(2)] closer_inv_step(2) [OF i(2) Client.hyps(2)] by simp
next
  case (Close w w')
  note i = conjunct1 [OF Close.IH] conjunct2 [OF Close.IH]
  show ?case using queue_inv_step(3) [OF i Close.hyps(2)] closer_inv_step(3) [OF i(2) Close.hyps(2)] by simp
qed

subsection \<open>Termination\<close>

definition work_left :: "'j writer \<Rightarrow> nat" where
  "work_left w = 2 * length (w_queue w) + (if is_busy w then 1 else 0)"

lemma writer_step_work:
  assumes "writer_step w w'" shows "work_left w' + 1 = work_left w"
  using assms
proof (cases rule: writer_step.cases)
  case Take
  then show ?thesis by (auto simp: work_left_def take_job_def is_busy_def neq_Nil_conv)
next
  case (Done x ok)
  have "w_queue w' = w_queue w" "w_thread w' \<in> {Waiting, Stopped}"
    using Done by (cases x; simp add: finish_job_def task_done_def Let_def)+
  then show ?thesis using Done by (auto simp: work_left_def is_busy_def)
qed

lemma writer_progress:
  assumes "queue_inv w" and "closer_inv w" and "\<not> join_returns w"
  shows "\<exists>w'. writer_step w w'"
proof (cases "w_thread w")
  case Waiting
  have "w_queue w \<noteq> []" using assms(1,3) Waiting by (auto simp: queue_inv_def join_returns_def is_busy_def)
  then show ?thesis using writer_step.Take [OF Waiting] by blast
next
  case (Busy x)
  then show ?thesis using writer_step.Done by blast
qed (use assms in \<open>auto simp: join_returns_def closer_inv_def\<close>)

lemma writer_drains_aux:
  "queue_inv w \<Longrightarrow> closer_inv w \<Longrightarrow> work_left w = m \<Longrightarrow>
    \<exists>n w'. n \<le> m \<and> (writer_step ^^ n) w w' \<and> join_returns w'"
proof (induction m arbitrary: w)
  case 0
  have "join_returns w"
  proof (rule ccontr)
    assume "\<not> join_returns w"
    then obtain w' where "writer_step w w'" using writer_progress [OF 0(1,2)] by blast
    then show False using writer_step_work [of w w'] 0(3) by simp
  qed
  then show ?case by (intro exI [of _ 0] exI [of _ w]) simp
next
  case (Suc m)
  show ?case
  proof (cases "join_returns w")
    case True
    then show ?thesis by (intro exI [of _ 0] exI [of _ w]) simp
  next
    case False
    then obtain w1 where w1: "writer_step w w1" using writer_progress [OF Suc.prems(1,2)] by blast
    have left: "work_left w1 = m" using writer_step_work [OF w1] Suc.prems(3) by simp
    obtain n w' where n: "n \<le> m" "(writer_step ^^ n) w1 w'" "join_returns w'"
      using Suc.IH [OF queue_inv_step(1) [OF Suc.prems(1,2) w1] closer_inv_step(1) [OF Suc.prems(2) w1] left]
      by blast
    have "(writer_step ^^ Suc n) w w'" using relpowp_Suc_I2 [OF w1 n(2)] .
    then show ?thesis using n(1,3) by (intro exI [of _ "Suc n"] exI [of _ w']) simp
  qed
qed

subsection \<open>One client thread\<close>

text \<open>When saves and shutdown share a thread, nothing follows the sentinel.\<close>

definition sentinel_ok ::
  "bool \<Rightarrow> 'j option \<Rightarrow> 'j option list \<Rightarrow> closer \<Rightarrow> bool \<Rightarrow> 'j worker \<Rightarrow> bool" where
  "sentinel_ok is_closed blocked q closer stopping thread \<longleftrightarrow>
     (is_closed \<longrightarrow> blocked = None)
     \<and> None \<notin> set (butlast q)
     \<and> (None \<in> set q \<longrightarrow> closer = Closed_done \<and> \<not> stopping)
     \<and> (thread = Busy None \<longrightarrow> q = [] \<and> closer = Closed_done)
     \<and> (thread = Stopped \<longrightarrow> closer = Closed_done \<and> q = [] \<or> stopping)
     \<and> (stopping \<and> closer = Closed_done \<longrightarrow> q = [])"

definition sentinel_inv :: "'j writer \<Rightarrow> bool" where
  "sentinel_inv w \<longleftrightarrow>
     sentinel_ok (w_closed w) (w_blocked w) (w_queue w) (w_closer w) (w_stopping w) (w_thread w)"

lemma sentinel_take:
  "sentinel_ok c b (x # q) cl st Waiting \<Longrightarrow> sentinel_ok c b q cl st (Busy x)"
  by (cases q; cases x) (auto simp: sentinel_ok_def)

lemma sentinel_open:
  "None \<notin> set q \<Longrightarrow> thread \<noteq> Stopped \<Longrightarrow> thread \<noteq> Busy None \<Longrightarrow> sentinel_ok False b q Open False thread"
  by (auto simp: sentinel_ok_def dest: in_set_butlastD)

lemma sentinel_writer:
  assumes s: "sentinel_inv w" and step: "writer_step w w'"
  shows "sentinel_inv w'"
  using step
proof (cases rule: writer_step.cases)
  case Take
  then obtain x q where q: "w_queue w = x # q" by (meson list.exhaust)
  have w': "w' = w\<lparr>w_queue := q, w_thread := Busy x\<rparr>" using Take q by (simp add: take_job_def)
  show ?thesis using s Take(2) sentinel_take unfolding w' sentinel_inv_def by (simp add: q)
next
  case (Done x ok)
  have f: "w_closed w' = w_closed w" "w_blocked w' = w_blocked w" "w_queue w' = w_queue w"
    "w_closer w' = w_closer w" "w_stopping w' = w_stopping w"
    "w_thread w' = (if x = None \<or> w_stopping w then Stopped else Waiting)"
    using Done by (cases x; simp add: finish_job_def task_done_def Let_def)+
  have "sentinel_ok c b q cl st (Busy x) \<Longrightarrow> sentinel_ok c b q cl st (if x = None \<or> st then Stopped else Waiting)"
    for c b q cl st by (cases x; cases st) (simp_all add: sentinel_ok_def)
  then show ?thesis using s unfolding sentinel_inv_def f Done(2) .
qed

lemma sentinel_client:
  assumes s: "sentinel_inv w" and c: "closer_inv w" and step: "client_step w w'"
  shows "sentinel_inv w'"
proof (cases "w_closed w")
  case True
  then have b: "w_blocked w = None" using s by (simp add: sentinel_inv_def sentinel_ok_def)
  from step show ?thesis
  proof (cases rule: client_step.cases)
    case (Submit j)
    then show ?thesis using s True by (simp add: sentinel_inv_def submit_def ensure_thread_def)
  qed (use b in simp_all)
next
  case False
  then have o: "w_closer w = Open" "\<not> w_stopping w" "None \<notin> set (w_queue w)" "w_thread w \<noteq> Stopped"
    "w_thread w \<noteq> Busy None"
    using c by (auto simp: closer_inv_def)
  have "w_closed w' = False \<and> w_closer w' = Open \<and> w_stopping w' = False \<and> None \<notin> set (w_queue w')
      \<and> w_thread w' \<noteq> Stopped \<and> w_thread w' \<noteq> Busy None"
    using step
  proof (cases rule: client_step.cases)
    case (Submit j)
    then show ?thesis using o False by (simp add: submit_def ensure_thread_def accept_job_def q_put_def)
  next
    case (Resume j)
    then show ?thesis using o False by (simp add: resume_submit_def accept_job_def q_put_def)
  next
    case (Timeout j)
    then show ?thesis using o False by (simp add: submit_timed_out_def)
  qed
  then show ?thesis unfolding sentinel_inv_def using sentinel_open by metis
qed

lemma sentinel_close:
  assumes s: "sentinel_inv w" and c: "closer_inv w" and step: "close_step w w'" and b: "w_blocked w = None"
  shows "sentinel_inv w'"
  using step
proof (cases rule: close_step.cases)
  case Begin
  show ?thesis
  proof (cases "w_closed w")
    case True
    then show ?thesis using s Begin by (simp add: close_begin_def)
  next
    case False
    then have "\<not> w_stopping w" "None \<notin> set (w_queue w)" "w_thread w \<noteq> Stopped" "w_thread w \<noteq> Busy None"
      using c by (auto simp: closer_inv_def)
    then show ?thesis using Begin False b
      by (simp add: sentinel_inv_def close_begin_def) (auto simp: sentinel_ok_def dest: in_set_butlastD)
  qed
next
  case Sentinel
  have "w_stopping w = False" using c Sentinel by (auto simp: closer_inv_def)
  then show ?thesis using s Sentinel b
    by (simp add: sentinel_inv_def put_sentinel_def q_put_def) (auto simp: sentinel_ok_def)
next
  case Give_up
  then show ?thesis using s
    by (simp add: sentinel_inv_def give_up_sentinel_def) (auto simp: sentinel_ok_def)
next
  case Abandon
  then have n: "None \<notin> set (w_queue w)" using s by (auto simp: sentinel_inv_def sentinel_ok_def)
  have st: "w_thread w \<noteq> Busy None" using s Abandon by (auto simp: sentinel_inv_def sentinel_ok_def)
  show ?thesis
  proof (cases "w_queue w")
    case Nil
    then show ?thesis using s Abandon st
      by (simp add: sentinel_inv_def abandon_one_def) (auto simp: sentinel_ok_def)
  next
    case (Cons x q)
    then obtain j where "x = Some j" using n by (cases x) auto
    then show ?thesis using s Abandon st n Cons
      by (simp add: sentinel_inv_def abandon_one_def task_done_def Let_def)
        (auto simp: sentinel_ok_def dest: in_set_butlastD)
  qed
qed

lemma seq_reach_inv: "seq_reach d w \<Longrightarrow> sentinel_inv w"
proof (induction rule: seq_reach.induct)
  case New
  show ?case by (simp add: sentinel_inv_def sentinel_ok_def new_writer_def)
next
  case (Writer w w')
  show ?case by (rule sentinel_writer [OF Writer.IH Writer.hyps(2)])
next
  case (Client w w')
  show ?case using sentinel_client [OF Client.IH _ Client.hyps(2)] reach_inv [OF seq_is_reach [OF Client.hyps(1)]] by simp
next
  case (Close w w')
  show ?case using sentinel_close [OF Close.IH _ Close.hyps(2,3)] reach_inv [OF seq_is_reach [OF Close.hyps(1)]] by simp
qed

subsection \<open>Properties\<close>

text \<open>
  C27. The writer's ledger is exact in every interleaving: the queue never holds more than its bound, every
  accepted job is exactly one of written, failed, in the writer's hands or still queued, and jobs are
  written in the order they were submitted.
\<close>

theorem writer_ledger_exact:
  assumes "reach d w"
  shows "length (w_queue w) \<le> w_depth w
    \<and> mset (w_accepted w) = mset (w_written w) + mset (w_failed w) + mset (in_hand w) + mset (jobs (w_queue w))
    \<and> subseq (w_written w) (w_accepted w)"
proof -
  have inv: "queue_inv w" using reach_inv [OF assms] by simp
  then obtain taken where t: "w_accepted w = taken @ jobs (w_queue w)" "subseq (w_written w @ in_hand w) taken"
    by (auto simp: queue_inv_def)
  have "subseq (w_written w) (w_written w @ in_hand w)" by (simp add: prefix_imp_subseq)
  then have "subseq (w_written w) taken" using t(2) by (rule subseq_order.trans)
  moreover have "subseq taken (taken @ jobs (w_queue w))" by (simp add: prefix_imp_subseq)
  ultimately have "subseq (w_written w) (w_accepted w)" unfolding t(1) by (rule subseq_order.trans)
  then show ?thesis using inv by (simp add: queue_inv_def)
qed

text \<open>
  C28. A join is a durability barrier: when \<open>join\<close> returns on an open writer, the queue is empty, nothing is
  in the writer's hands, and every job accepted so far has been written or reported failed.
\<close>

theorem join_is_a_barrier:
  assumes "reach d w" and "join_returns w" and "\<not> w_closed w"
  shows "w_queue w = [] \<and> in_hand w = [] \<and> mset (w_accepted w) = mset (w_written w) + mset (w_failed w)"
proof -
  have inv: "queue_inv w" "closer_inv w" using reach_inv [OF assms(1)] by simp_all
  have "w_queue w = [] \<and> \<not> is_busy w"
  proof (cases "w_thread w = Not_started")
    case True
    then show ?thesis using inv(1) by (simp add: queue_inv_def is_busy_def)
  next
    case False
    then have "w_unfinished w = 0" using assms(2,3) by (simp add: join_returns_def)
    then show ?thesis using inv(1) by (auto simp: queue_inv_def split: if_splits)
  qed
  then have "w_queue w = []" "in_hand w = []" by (auto simp: is_busy_def in_hand_def split: worker.splits option.splits)
  then show ?thesis using inv(1) by (simp add: queue_inv_def)
qed

text \<open>
  C29. A join always comes to an end: from every reachable state the writer thread alone, whatever its
  writes do, reaches a state where \<open>join\<close> returns, within two steps per queued job and one for the job in
  hand; and it can take no infinite run on its own.
\<close>

theorem join_terminates:
  assumes "reach d w"
  shows "(\<exists>n w'. n \<le> work_left w \<and> (writer_step ^^ n) w w' \<and> join_returns w')
    \<and> wfP (\<lambda>w2 w1 :: 'j writer. writer_step w1 w2)"
proof
  show "\<exists>n w'. n \<le> work_left w \<and> (writer_step ^^ n) w w' \<and> join_returns w'"
    using reach_inv [OF assms] writer_drains_aux [of w] by blast
  show "wfP (\<lambda>w2 w1 :: 'j writer. writer_step w1 w2)"
  proof (rule wfp_subset [OF wfp_if_convertible_to_nat])
    show "(\<lambda>w2 w1. writer_step w1 w2) \<le> (\<lambda>w2 w1. work_left w2 < work_left w1)"
      by (intro le_funI) (auto dest: writer_step_work)
  qed simp
qed

text \<open>
  C30. Shutdown loses nothing on one client thread: once \<open>close\<close> is past and the writer thread is gone,
  every job ever accepted has been written or reported failed, including those a wedged store left in
  the queue.
\<close>

theorem close_accounts_for_every_job:
  assumes "seq_reach d w" and "w_closer w = Closed_done" and "w_thread w \<in> {Stopped, Not_started}"
  shows "w_queue w = [] \<and> mset (w_accepted w) = mset (w_written w) + mset (w_failed w)"
proof -
  have inv: "queue_inv w" using reach_inv [OF seq_is_reach [OF assms(1)]] by simp
  have q: "w_queue w = []"
    using assms(2,3) inv seq_reach_inv [OF assms(1)]
    by (auto simp: sentinel_inv_def sentinel_ok_def queue_inv_def)
  then show ?thesis using inv assms(3) by (auto simp: queue_inv_def in_hand_def)
qed


subsection \<open>Witnesses\<close>

definition one_job :: "nat writer" where "one_job = submit 7 (new_writer 1)"
definition one_written :: "nat writer" where "one_written = finish_job True (take_job one_job)"
definition one_closed :: "nat writer" where
  "one_closed = finish_job True (take_job (put_sentinel (close_begin one_written)))"

lemmas writer_ops = submit_def ensure_thread_def has_room_def accept_job_def q_put_def new_writer_def
  close_begin_def take_job_def put_sentinel_def finish_job_def task_done_def Let_def
  one_job_def one_written_def one_closed_def

lemma one_job_reach: "seq_reach 1 one_job"
  unfolding one_job_def
  by (intro seq_reach.Client [OF seq_reach.New] client_step.Submit) (simp add: new_writer_def)

lemma one_written_reach: "seq_reach 1 one_written"
proof -
  have "seq_reach 1 (take_job one_job)"
    by (rule seq_reach.Writer [OF one_job_reach]) (rule writer_step.Take, simp_all add: writer_ops)
  then show ?thesis unfolding one_written_def
    by (rule seq_reach.Writer) (rule writer_step.Done [where x = "Some 7"], simp add: writer_ops)
qed

lemma one_closed_reach: "seq_reach 1 one_closed"
proof -
  have "seq_reach 1 (close_begin one_written)"
    by (rule seq_reach.Close [OF one_written_reach close_step.Begin]) (simp add: writer_ops)
  then have "seq_reach 1 (put_sentinel (close_begin one_written))"
    by (rule seq_reach.Close) (rule close_step.Sentinel, simp_all add: writer_ops)
  then have "seq_reach 1 (take_job (put_sentinel (close_begin one_written)))"
    by (rule seq_reach.Writer) (rule writer_step.Take, simp_all add: writer_ops)
  then show ?thesis unfolding one_closed_def
    by (rule seq_reach.Writer) (rule writer_step.Done [where x = None], simp add: writer_ops)
qed

theorem writer_ledger_exact_witness: "subseq (w_written one_written) [7] \<and> length (w_queue one_written) \<le> 1"
  using writer_ledger_exact [OF seq_is_reach [OF one_written_reach]] by (simp add: writer_ops)

theorem join_is_a_barrier_witness: "mset (w_accepted one_written) = mset (w_written one_written) + mset (w_failed one_written)"
  using join_is_a_barrier [OF seq_is_reach [OF one_written_reach]] by (simp add: writer_ops join_returns_def)

theorem join_terminates_witness: "\<exists>n w'. n \<le> 2 \<and> (writer_step ^^ n) one_job w' \<and> join_returns w'"
proof -
  have "work_left one_job = 2" by (simp add: work_left_def is_busy_def writer_ops)
  then show ?thesis using join_terminates [OF seq_is_reach [OF one_job_reach]] by metis
qed

theorem close_accounts_for_every_job_witness: "mset (w_accepted one_closed) = {#7#} \<and> w_queue one_closed = []"
  using close_accounts_for_every_job [OF one_closed_reach] by (simp add: writer_ops)

end
