(* ===== verification/WriterRegistry.thy ===== *)
theory WriterRegistry
  imports CaptureWriter
begin

text \<open>
  \<open>_LIVE_WRITERS\<close>, the writers that have a thread, and how often the exit hook was registered. The hook
  closes them one after the other; it runs when no other thread submits, so the steps of one \<open>close\<close> are
  not interleaved with a client's. An exception of \<open>close\<close> is logged and the next writer is closed.
\<close>

subsection \<open>Closing at exit\<close>

definition running :: "'j writer \<Rightarrow> bool" where
  "running w \<longleftrightarrow> w_thread w \<noteq> Not_started \<and> w_thread w \<noteq> Stopped"

record registry =
  rg_live :: "nat set"
  rg_hooks :: nat

definition enlist :: "nat \<Rightarrow> registry \<Rightarrow> registry" where
  "enlist i r = \<lparr>rg_live = insert i (rg_live r), rg_hooks = (if rg_hooks r = 0 then 1 else rg_hooks r)\<rparr>"

definition delist :: "nat \<Rightarrow> 'j writer \<Rightarrow> registry \<Rightarrow> registry" where
  "delist i w r = (if running w then r else r\<lparr>rg_live := rg_live r - {i}\<rparr>)"

definition close_call :: "'j writer \<Rightarrow> 'j writer" where
  "close_call w =
     (if w_closed w then w
      else let w1 = close_begin w
           in if w_closer w1 \<noteq> Putting then w1
              else if has_room w1 then put_sentinel w1
              else (abandon_one ^^ Suc (length (w_queue w1))) (give_up_sentinel w1))"

definition close_live_writers :: "(nat \<Rightarrow> 'w \<Rightarrow> 'x + 'w) \<Rightarrow> nat list \<Rightarrow> (nat \<Rightarrow> 'w) \<Rightarrow> nat \<Rightarrow> 'w" where
  "close_live_writers close is ws =
     fold (\<lambda>i ws. case close i (ws i) of Inl _ \<Rightarrow> ws | Inr w \<Rightarrow> ws(i := w)) is ws"

lemma one_hook: "rg_hooks r \<le> 1 \<Longrightarrow> rg_hooks (enlist i r) = 1"
  by (simp add: enlist_def)

lemma abandon_all:
  "w_closer w = Abandoning \<Longrightarrow> reach d w \<Longrightarrow> length (w_queue w) = n
     \<Longrightarrow> reach d ((abandon_one ^^ Suc n) w) \<and> w_closed ((abandon_one ^^ Suc n) w) = w_closed w
       \<and> w_closer ((abandon_one ^^ Suc n) w) = Closed_done"
proof (induction n arbitrary: w)
  case 0
  have "reach d (abandon_one w)" by (rule reach.Close [OF 0(2) close_step.Abandon [OF 0(1)]])
  then show ?case using 0 by (simp add: abandon_one_def)
next
  case (Suc n)
  then obtain x xs where q: "w_queue w = x # xs" by (cases "w_queue w") simp_all
  have r: "reach d (abandon_one w)" by (rule reach.Close [OF Suc.prems(2) close_step.Abandon [OF Suc.prems(1)]])
  have f: "w_closer (abandon_one w) = Abandoning" "length (w_queue (abandon_one w)) = n"
    "w_closed (abandon_one w) = w_closed w"
    using Suc.prems q by (auto simp: abandon_one_def task_done_def Let_def split: option.splits)
  show ?case using Suc.IH [OF f(1) r f(2)] f(3) by (simp only: funpow_Suc_right [of "Suc n"] comp_def)
qed

text \<open>The exit hook's \<open>close\<close> is one of the interleavings, and leaves the writer closed with nothing left to wait for.\<close>

lemma close_call_reach:
  assumes "reach d w"
  shows "reach d (close_call w)" and "w_closed (close_call w)"
proof -
  have b: "reach d (close_begin w)" by (rule reach.Close [OF assms close_step.Begin])
  have cb: "w_closed (close_begin w)" by (simp add: close_begin_def)
  have g: "w_closer (close_begin w) = Putting \<Longrightarrow> \<not> has_room (close_begin w)
      \<Longrightarrow> reach d (give_up_sentinel (close_begin w))"
    by (rule reach.Close [OF b close_step.Give_up])
  have s: "w_closer (close_begin w) = Putting \<Longrightarrow> has_room (close_begin w) \<Longrightarrow> reach d (put_sentinel (close_begin w))"
    by (rule reach.Close [OF b close_step.Sentinel])
  have q: "w_queue (give_up_sentinel v) = w_queue v" "w_closed (give_up_sentinel v) = w_closed v"
    "w_closer (give_up_sentinel v) = Abandoning" "w_closed (put_sentinel v) = w_closed v" for v :: "'a writer"
    by (simp_all add: give_up_sentinel_def put_sentinel_def q_put_def)
  show "reach d (close_call w)" "w_closed (close_call w)"
    using assms b cb g s q abandon_all [OF q(3) g]
    by (auto simp: close_call_def Let_def simp del: funpow.simps)
qed


text \<open>A writer whose close raises keeps no other from being closed.\<close>

lemma close_live_writers_at:
  "distinct is \<Longrightarrow> close_live_writers close is ws i =
     (if i \<in> set is then (case close i (ws i) of Inl _ \<Rightarrow> ws i | Inr w \<Rightarrow> w) else ws i)"
proof (induction "is" arbitrary: ws)
  case (Cons j js)
  have step: "close_live_writers close (j # js) ws
      = close_live_writers close js (case close j (ws j) of Inl _ \<Rightarrow> ws | Inr w \<Rightarrow> ws(j := w))"
    by (simp add: close_live_writers_def)
  show ?case unfolding step using Cons by (auto split: sum.splits)
qed (simp add: close_live_writers_def)

end
