(* ===== verification/ContentDim.thy ===== *)
theory ContentDim
  imports Load
begin

text \<open>
  The check of a packed page against the width the engine publishes: \<open>_spec_kv_content_widths\<close>,
  \<open>_expected_page_content_dim\<close> and \<open>_require_packed_content_dim\<close>. The KV-cache config and vLLM's
  iterator over the layer specs of a group are the record \<open>page_env\<close>; the iterator is absent when its
  import fails. The expectation, \<open>_content_dim_expectation\<close>, is resolved once and carried beside the
  connector's state.
\<close>

subsection \<open>The check\<close>

record page_env =
  pe_kv_cache_config :: pyval
  pe_iter_layer_specs :: "(pyval \<Rightarrow> pyval list) option"

type_synonym expectation = "int option \<times> content_source \<times> bool"

type_synonym 'z page_st = "expectation option \<times> 'z audit_st_scheme"

text \<open>The set of widths, or none when a spec is silent; a width that is no integer raises.\<close>

fun layer_widths :: "pyval list \<Rightarrow> py_error + (int \<times> int) list option" where
  "layer_widths [] = Inr (Some [])"
| "layer_widths (spec # specs) =
     (let h = getattr spec ''head_size''; v = getattr spec ''head_size_v''
      in if h = PNone \<or> v = PNone then Inr None
         else case (py_int h, py_int v) of
                (Inl x, _) \<Rightarrow> Inl x
              | (_, Inl x) \<Rightarrow> Inl x
              | (Inr i, Inr j) \<Rightarrow> map_sum id (map_option (List.insert (i, j))) (layer_widths specs))"

definition spec_kv_content_widths :: "page_env \<Rightarrow> py_error + (int \<times> int) option" where
  "spec_kv_content_widths g =
     (let groups = getattr (pe_kv_cache_config g) ''kv_cache_groups''
      in if \<not> truthy groups then Inr None
         else case groups of
                PSeq _ (grp # _) \<Rightarrow>
                  (let spec = getattr grp ''kv_cache_spec''
                   in if spec = PNone then Inr None
                      else case layer_widths (case pe_iter_layer_specs g of None \<Rightarrow> [spec] | Some it \<Rightarrow> it spec) of
                             Inr (Some [w]) \<Rightarrow> Inr (Some w)
                           | Inr _ \<Rightarrow> Inr None
                           | Inl x \<Rightarrow> Inl x)
              | _ \<Rightarrow> Inl TypeError)"

definition expected_page_content_dim ::
  "'p env \<Rightarrow> page_env \<Rightarrow> 'z page_st \<Rightarrow> (py_error + expectation) \<times> 'z page_st" where
  "expected_page_content_dim e g st =
     (case st of
        (Some x, _) \<Rightarrow> (Inr x, st)
      | (None, s) \<Rightarrow>
          (case spec_kv_content_widths g of
             Inl x \<Rightarrow> (Inl x, st)
           | Inr (Some (head_size, head_size_v)) \<Rightarrow>
               (let x = (Some (head_size + head_size_v), Kv_cache_spec, head_size = head_size_v)
                in (Inr x, Some x, s))
           | Inr None \<Rightarrow>
               (case model_head_size e of
                  Inl x \<Rightarrow> (Inl x, st)
                | Inr None \<Rightarrow>
                    (let x = (None, Unresolved, True)
                     in (Inr x, Some x,
                         audit e None (EL Ev_packed_content_dim_check_skipped)
                           (bump (SL Packed_content_dim_check_skipped_unknown_head_size) s)))
                | Inr (Some head_size) \<Rightarrow>
                    (let x = (Some (2 * head_size), Hf_head_size, True) in (Inr x, Some x, s)))))"

definition require_packed_content_dim ::
  "'p env \<Rightarrow> page_env \<Rightarrow> nat list \<Rightarrow> 'z page_st \<Rightarrow> (py_error + unit) \<times> 'z page_st" where
  "require_packed_content_dim e g shape st =
     (case expected_page_content_dim e g st of
        (Inl x, st') \<Rightarrow> (Inl x, st')
      | (Inr (expected, source, halves_equal), (c, s)) \<Rightarrow>
          if \<not> halves_equal
          then (Inl (RuntimeError ''uneven K|V content dim''),
                (c, audit e None (EL (Ev_packed_asymmetric_kv_content_refused shape
                                        (case expected of None \<Rightarrow> 0 | Some n \<Rightarrow> n)))
                      (bump (SL Packed_asymmetric_kv_content_refused) s)))
          else (case expected of
                  None \<Rightarrow> (Inr (), (c, s))
                | Some n \<Rightarrow>
                    if int (shape ! 3) = n then (Inr (), (c, s))
                    else (Inl (RuntimeError ''this backend packs head slots''),
                          (c, audit e None (EL (Ev_packed_head_slot_layout_refused shape n source))
                                (bump (SL (Packed_head_slot_layout_refused_vs source)) s)))))"

subsection \<open>Lemmas\<close>

lemma expected_cached [simp]: "expected_page_content_dim e g (Some x, s) = (Inr x, Some x, s)"
  by (simp add: expected_page_content_dim_def)

lemma expected_resolves:
  "expected_page_content_dim e g st = (Inr x, st') \<Longrightarrow> fst st' = Some x"
  by (auto simp: expected_page_content_dim_def Let_def split: option.splits sum.splits prod.splits)

text \<open>A page that passed once passes again, with nothing counted or reported.\<close>

lemma required_again:
  assumes "require_packed_content_dim e g shape st = (Inr (), st')"
  shows "require_packed_content_dim e g shape st' = (Inr (), st')"
proof -
  obtain x c s where x: "expected_page_content_dim e g st = (Inr x, c, s)"
    using assms by (cases "expected_page_content_dim e g st")
      (auto simp: require_packed_content_dim_def split: sum.splits)
  then have c: "c = Some x" using expected_resolves by fastforce
  obtain n source eq where [simp]: "x = (n, source, eq)" by (cases x) auto
  have "st' = (c, s)" "eq" "case n of None \<Rightarrow> True | Some n \<Rightarrow> int (shape ! 3) = n"
    using assms by (auto simp: require_packed_content_dim_def x split: if_splits option.splits)
  then show ?thesis by (auto simp: require_packed_content_dim_def c split: option.splits)
qed

text \<open>
  What a pass means where the spec publishes one width: the page holds K and V of that same width, so
  the middle of its last axis is where V starts.
\<close>

lemma required_by_spec:
  assumes "require_packed_content_dim e g shape (None, s) = (Inr (), st')"
    and "spec_kv_content_widths g = Inr (Some (h, v))"
  shows "v = h" and "int (shape ! 3) = h + v"
  using assms
  by (auto simp: require_packed_content_dim_def expected_page_content_dim_def Let_def split: if_splits)

end
