(* ===== verification/Layouts.thy ===== *)
theory Layouts
  imports ContentDim "HOL-Library.Countable"
begin

text \<open>
  The KV tensors as the attention backends lay them out: \<open>_extract_kv_from_layer\<close> and
  \<open>_inject_kv_into_layer\<close> on a tensor with its shape. A tensor's contents map an index, a list of
  coordinates, to an element, an integer. The four layouts the code tells apart are MLA pages, pages
  that pack K and V per head, and a K/V axis before or after the block axis; each gives the coordinates of
  component \<open>j\<close> of the row of a slot, K's components first. \<open>Slots\<close> speaks of opaque rows; every
  layout refines it. Slots are taken to lie inside the tensor.
\<close>

subsection \<open>Tensors\<close>

type_synonym contents = "nat list \<Rightarrow> int"

record tensor =
  tn_shape :: "nat list"
  tn_at :: contents

text \<open>Coordinates in row-major order.\<close>

fun unravel :: "nat list \<Rightarrow> nat \<Rightarrow> nat list" where
  "unravel [] j = []"
| "unravel (d # ds) j = (j div prod_list ds) # unravel ds (j mod prod_list ds)"

subsection \<open>Layouts\<close>

record layout =
  ly_page :: nat
  ly_width :: nat
  ly_index :: "nat \<Rightarrow> nat \<Rightarrow> nat list"

text \<open>\<open>[blocks, page, \<dots>]\<close>: the row is one latent vector.\<close>

definition mla_index :: "nat \<Rightarrow> nat list \<Rightarrow> nat \<Rightarrow> nat \<Rightarrow> nat list" where
  "mla_index p dims s j = s div p # s mod p # unravel dims j"

text \<open>\<open>[blocks, heads, page, 2 * head_size]\<close>, K in the first half of the last axis.\<close>

definition packed_index :: "nat \<Rightarrow> nat \<Rightarrow> nat \<Rightarrow> nat \<Rightarrow> nat \<Rightarrow> nat list" where
  "packed_index p heads hs s j =
     (let x = j mod (heads * hs) in [s div p, x div hs, s mod p, (j div (heads * hs)) * hs + x mod hs])"

text \<open>\<open>[2, blocks, page, \<dots>]\<close> and \<open>[blocks, 2, page, \<dots>]\<close>.\<close>

definition kv_first_index :: "nat \<Rightarrow> nat list \<Rightarrow> nat \<Rightarrow> nat \<Rightarrow> nat list" where
  "kv_first_index p dims s j = j div prod_list dims # s div p # s mod p # unravel dims (j mod prod_list dims)"

definition kv_second_index :: "nat \<Rightarrow> nat list \<Rightarrow> nat \<Rightarrow> nat \<Rightarrow> nat list" where
  "kv_second_index p dims s j = s div p # j div prod_list dims # s mod p # unravel dims (j mod prod_list dims)"

text \<open>
  The branches of both functions. A packed page whose last axis is odd has no two halves: the split of
  the gather has three parts, and the scatter's source is one component short.
\<close>

definition uneven :: "bool \<Rightarrow> nat list \<Rightarrow> bool" where
  "uneven mla shape \<longleftrightarrow> \<not> mla \<and> length shape = 4 \<and> odd (shape ! 3)"

definition layout_of :: "bool \<Rightarrow> nat list \<Rightarrow> py_error + layout" where
  "layout_of mla shape =
     (if mla
      then if length shape < 2 then Inl IndexError
           else (let p = shape ! 1; dims = drop 2 shape
                 in Inr \<lparr>ly_page = p, ly_width = prod_list dims, ly_index = mla_index p dims\<rparr>)
      else if length shape < 3 then Inl IndexError
      else let p = shape ! 2; dims = drop 3 shape
           in if length shape = 4
              then let heads = shape ! 1; hs = shape ! 3 div 2
                   in Inr \<lparr>ly_page = p, ly_width = 2 * (heads * hs), ly_index = packed_index p heads hs\<rparr>
              else if shape ! 0 = 2
              then Inr \<lparr>ly_page = p, ly_width = 2 * prod_list dims, ly_index = kv_first_index p dims\<rparr>
              else if shape ! 1 = 2
              then Inr \<lparr>ly_page = p, ly_width = 2 * prod_list dims, ly_index = kv_second_index p dims\<rparr>
              else Inl (RuntimeError ''unrecognized paged KV layout''))"

subsection \<open>Gather and scatter\<close>

definition read_row :: "nat \<Rightarrow> (nat \<Rightarrow> nat \<Rightarrow> nat list) \<Rightarrow> contents \<Rightarrow> nat \<Rightarrow> int list" where
  "read_row w ix t s = map (\<lambda>j. t (ix s j)) [0..<w]"

definition write_row :: "nat \<Rightarrow> (nat \<Rightarrow> nat \<Rightarrow> nat list) \<Rightarrow> nat \<Rightarrow> int list \<Rightarrow> contents \<Rightarrow> contents" where
  "write_row w ix s row t = fold (\<lambda>j t. t(ix s j := row ! j)) [0..<w] t"

text \<open>
  A captured layer is its K rows and its V rows, \<open>[2, n, W]\<close>, or for MLA its latent rows, \<open>[n, C]\<close>,
  with no second part. The final \<open>reshape\<close> with an inferred width raises on an empty gather.
\<close>

type_synonym captured = "int list list \<times> int list list"

definition halves :: "bool \<Rightarrow> nat \<Rightarrow> int list list \<Rightarrow> captured" where
  "halves mla w rows = (if mla then (rows, []) else (map (take (w div 2)) rows, map (drop (w div 2)) rows))"

definition extract_layer :: "bool \<Rightarrow> tensor \<Rightarrow> nat list \<Rightarrow> py_error + captured" where
  "extract_layer mla t slots =
     (case layout_of mla (tn_shape t) of
        Inl x \<Rightarrow> Inl x
      | Inr ly \<Rightarrow>
          if uneven mla (tn_shape t) then Inl ValueError
          else if slots = [] then Inl (RuntimeError ''cannot reshape tensor of 0 elements'')
          else Inr (halves mla (ly_width ly) (map (read_row (ly_width ly) (ly_index ly) (tn_at t)) slots)))"

text \<open>
  The scatter reshapes its source to \<open>[2, n, \<dots>]\<close>, whatever its shape was, as long as the element counts
  agree. The MLA assignment broadcasts an axis of length one instead.
\<close>

definition row_chunks :: "nat \<Rightarrow> nat \<Rightarrow> int list \<Rightarrow> int list list" where
  "row_chunks n w flat = map (\<lambda>i. take w (drop (i * w) flat)) [0..<n]"

definition broadcast :: "nat \<Rightarrow> 'a list \<Rightarrow> 'a list" where
  "broadcast n xs = (if length xs = 1 then replicate n (hd xs) else xs)"

definition source_rows_for :: "bool \<Rightarrow> nat \<Rightarrow> nat \<Rightarrow> captured \<Rightarrow> py_error + int list list" where
  "source_rows_for mla n w src =
     (if mla
      then let rows = map (broadcast w) (broadcast n (fst src))
           in if snd src \<noteq> [] \<or> length rows \<noteq> n \<or> list_ex (\<lambda>row. length row \<noteq> w) rows
              then Inl (RuntimeError ''shape mismatch'') else Inr rows
      else let h = w div 2; flat = concat (fst src) @ concat (snd src)
           in if length flat \<noteq> 2 * (n * h) then Inl (RuntimeError ''shape is invalid'')
              else Inr (map2 (@) (row_chunks n h flat) (row_chunks n h (drop (n * h) flat))))"

definition inject_layer :: "bool \<Rightarrow> tensor \<Rightarrow> captured \<Rightarrow> nat list \<Rightarrow> py_error + tensor" where
  "inject_layer mla t src slots =
     (case layout_of mla (tn_shape t) of
        Inl x \<Rightarrow> Inl x
      | Inr ly \<Rightarrow>
          (case source_rows_for mla (length slots) (ly_width ly) src of
             Inl x \<Rightarrow> Inl x
           | Inr rows \<Rightarrow>
               if uneven mla (tn_shape t) then Inl (RuntimeError ''shape mismatch'')
               else Inr (t\<lparr>tn_at := fold (\<lambda>sr. write_row (ly_width ly) (ly_index ly) (fst sr) (snd sr))
                                   (zip slots rows) (tn_at t)\<rparr>)))"

text \<open>The functions as the worker calls them, with the check of a packed page in front.\<close>

definition page_check ::
  "'p env \<Rightarrow> page_env \<Rightarrow> bool \<Rightarrow> nat list \<Rightarrow> 'z page_st \<Rightarrow> (py_error + unit) \<times> 'z page_st" where
  "page_check e g mla shape st =
     (if \<not> mla \<and> length shape = 4 then require_packed_content_dim e g shape st else (Inr (), st))"

definition extract_kv_from_layer ::
  "'p env \<Rightarrow> page_env \<Rightarrow> bool \<Rightarrow> tensor \<Rightarrow> nat list \<Rightarrow> 'z page_st
     \<Rightarrow> (py_error + captured) \<times> 'z page_st" where
  "extract_kv_from_layer e g mla t slots st =
     (case page_check e g mla (tn_shape t) st of
        (Inl x, st') \<Rightarrow> (Inl x, st')
      | (Inr _, st') \<Rightarrow> (extract_layer mla t slots, st'))"

definition inject_kv_into_layer ::
  "'p env \<Rightarrow> page_env \<Rightarrow> bool \<Rightarrow> tensor \<Rightarrow> captured \<Rightarrow> nat list \<Rightarrow> 'z page_st
     \<Rightarrow> (py_error + tensor) \<times> 'z page_st" where
  "inject_kv_into_layer e g mla t src slots st =
     (case page_check e g mla (tn_shape t) st of
        (Inl x, st') \<Rightarrow> (Inl x, st')
      | (Inr _, st') \<Rightarrow> (inject_layer mla t src slots, st'))"

subsection \<open>A layout is a row store\<close>

text \<open>The contract of a layout: within its width, no two components share an element.\<close>

locale indexed_rows =
  fixes w :: nat and ix :: "nat \<Rightarrow> nat \<Rightarrow> nat list"
  assumes separate: "j < w \<Longrightarrow> j' < w \<Longrightarrow> ix s j = ix s' j' \<Longrightarrow> s = s' \<and> j = j'"
begin

lemma write_row_at:
  "k \<le> w \<Longrightarrow> fold (\<lambda>j t. t(ix s j := row ! j)) [0..<k] t (ix s' j')
      = (if s' = s \<and> j' < k then row ! j' else t (ix s' j'))" if "j' < w"
proof (induction k)
  case (Suc k)
  have "ix s' j' = ix s k \<longleftrightarrow> s' = s \<and> j' = k" using separate [of j' k s' s] that Suc.prems by auto
  then show ?case using Suc by (auto simp: less_Suc_eq)
qed simp

lemma read_write_row:
  assumes "length row = w"
  shows "read_row w ix (write_row w ix s row t) s' = (if s' = s then row else read_row w ix t s')"
proof (rule nth_equalityI)
  show "length (read_row w ix (write_row w ix s row t) s') = length (if s' = s then row else read_row w ix t s')"
    using assms by (simp add: read_row_def)
  fix j assume "j < length (read_row w ix (write_row w ix s row t) s')"
  then have j: "j < w" by (simp add: read_row_def)
  show "read_row w ix (write_row w ix s row t) s' ! j = (if s' = s then row else read_row w ix t s') ! j"
    using write_row_at [OF j, of w s row t s'] j by (simp add: read_row_def write_row_def)
qed

sublocale rows: row_store "read_row w ix" "write_row w ix" "\<lambda>row. length row = w"
  by unfold_locales (simp add: read_write_row)

abbreviation writes :: "nat list \<Rightarrow> int list list \<Rightarrow> contents \<Rightarrow> contents" where
  "writes slots rows t \<equiv> fold (\<lambda>sr. write_row w ix (fst sr) (snd sr)) (zip slots rows) t"

lemma reads_writes:
  "distinct slots \<Longrightarrow> length rows = length slots \<Longrightarrow> \<forall>row \<in> set rows. length row = w
     \<Longrightarrow> map (read_row w ix (writes slots rows t)) slots = rows"
  by (rule rows.gets_puts)

lemma read_writes_other:
  "\<forall>row \<in> set rows. length row = w \<Longrightarrow> s \<notin> set slots
     \<Longrightarrow> read_row w ix (writes slots rows t) s = read_row w ix t s"
  by (rule rows.get_puts_other)

end


subsection \<open>The layouts keep rows apart\<close>

lemma prod_list_pos: "(j::nat) < prod_list (d # ds) \<Longrightarrow> 0 < prod_list ds"
  by (cases "prod_list ds") simp_all

lemma unravel_inj: "unravel ds i = unravel ds j \<Longrightarrow> i < prod_list ds \<Longrightarrow> j < prod_list ds \<Longrightarrow> i = j"
proof (induction ds arbitrary: i j)
  case (Cons d ds)
  define n where "n = prod_list ds"
  have n: "0 < n" using prod_list_pos [OF Cons.prems(2)] by (simp add: n_def)
  have "i mod n = j mod n" by (rule Cons.IH) (use Cons.prems(1) n in \<open>simp_all add: n_def\<close>)
  moreover have "i div n = j div n" using Cons.prems(1) by (simp add: n_def)
  ultimately show ?case by (metis div_mult_mod_eq)
qed simp

lemma div_mod_inj: "x div n = y div n \<Longrightarrow> x mod n = y mod n \<Longrightarrow> x = (y::nat)"
  by (metis div_mult_mod_eq)

interpretation mla: indexed_rows "prod_list dims" "mla_index p dims" for p dims
  by unfold_locales (auto simp: mla_index_def intro: div_mod_inj unravel_inj)

lemma kv_halves: "j < 2 * n \<Longrightarrow> j' < 2 * n \<Longrightarrow> j div n = j' div n \<Longrightarrow> unravel dims (j mod n) = unravel dims (j' mod n)
   \<Longrightarrow> n = prod_list dims \<Longrightarrow> j = j'"
proof -
  assume a: "j < 2 * n" "j' < 2 * n" "j div n = j' div n" "unravel dims (j mod n) = unravel dims (j' mod n)" "n = prod_list dims"
  then have "0 < n" by (cases n) simp_all
  then have "j mod n = j' mod n" using a by (intro unravel_inj [of dims]) simp_all
  with a(3) show ?thesis by (rule div_mod_inj)
qed

interpretation kv_first: indexed_rows "2 * prod_list dims" "kv_first_index p dims" for p dims
  by unfold_locales (auto simp: kv_first_index_def intro: div_mod_inj kv_halves)

interpretation kv_second: indexed_rows "2 * prod_list dims" "kv_second_index p dims" for p dims
  by unfold_locales (auto simp: kv_second_index_def intro: div_mod_inj kv_halves)

lemma packed_index_inj:
  assumes "j < 2 * (heads * hs)" and "j' < 2 * (heads * hs)" and "packed_index p heads hs s j = packed_index p heads hs s' j'"
  shows "s = s' \<and> j = j'"
proof -
  define n where "n = heads * hs"
  have hs: "0 < hs" using assms(1) by (cases hs) simp_all
  have e: "s div p = s' div p" "s mod p = s' mod p" "j mod n div hs = j' mod n div hs"
    "j div n * hs + j mod n mod hs = j' div n * hs + j' mod n mod hs"
    using assms(3) by (simp_all add: packed_index_def Let_def n_def)
  have c: "(j div n * hs + j mod n mod hs) div hs = j div n" "(j div n * hs + j mod n mod hs) mod hs = j mod n mod hs" for j
    using hs by simp_all
  have "j div n = j' div n" using arg_cong [OF e(4), of "\<lambda>x. x div hs"] unfolding c .
  have "j mod n mod hs = j' mod n mod hs" using arg_cong [OF e(4), of "\<lambda>x. x mod hs"] unfolding c .
  then have "j mod n = j' mod n" by (intro div_mod_inj [OF e(3)])
  then have "j = j'" by (rule div_mod_inj [OF \<open>j div n = j' div n\<close>])
  moreover have "s = s'" using e(1,2) by (rule div_mod_inj)
  ultimately show ?thesis by simp
qed

interpretation packed: indexed_rows "2 * (heads * hs)" "packed_index p heads hs" for p heads hs
  by unfold_locales (rule packed_index_inj)

lemma layout_of_rows:
  assumes "layout_of mla shape = Inr ly"
  shows "indexed_rows (ly_width ly) (ly_index ly)"
  using assms mla.indexed_rows_axioms packed.indexed_rows_axioms kv_first.indexed_rows_axioms
    kv_second.indexed_rows_axioms
  by (auto simp: layout_of_def Let_def split: if_splits)

lemma layout_of_even: "layout_of False shape = Inr ly \<Longrightarrow> even (ly_width ly)"
  by (auto simp: layout_of_def Let_def split: if_splits)

subsection \<open>A captured layer is a source\<close>

lemma row_chunks_concat:
  "\<forall>row \<in> set rows. length row = w \<Longrightarrow> row_chunks (length rows) w (concat rows @ rest) = rows"
proof (induction rows)
  case (Cons row rows)
  have "row_chunks (Suc n) w (row @ xs) = row # row_chunks n w xs" if "length row = w" for n xs
    using that by (simp add: row_chunks_def map_upt_Suc del: upt_Suc)
  then show ?case using Cons by simp
qed (simp add: row_chunks_def)

lemma concat_width: "\<forall>row \<in> set rows. length row = w \<Longrightarrow> length (concat rows) = length rows * w"
  by (induction rows) simp_all

lemma map2_halves: "map2 (@) (map (take h) rows) (map (drop h) rows) = rows"
  by (induction rows) simp_all

lemma broadcast_id: "length xs = n \<Longrightarrow> broadcast n xs = xs"
  by (cases xs) (auto simp: broadcast_def)

lemma source_rows_for_halves:
  assumes w: "\<forall>row \<in> set rows. length row = w" and even: "mla \<or> even w"
  shows "source_rows_for mla (length rows) w (halves mla w rows) = Inr rows"
proof (cases mla)
  case True
  have "map (broadcast w) rows = rows" using w by (induction rows) (simp_all add: broadcast_id)
  then show ?thesis using True w by (simp add: source_rows_for_def halves_def broadcast_id list_ex_iff Let_def)
next
  case False
  define h where "h = w div 2"
  have w2: "w = 2 * h" using even False by (simp add: h_def)
  define ks where "ks = map (take h) rows"
  define vs where "vs = map (drop h) rows"
  have k: "\<forall>row \<in> set ks. length row = h" and v: "\<forall>row \<in> set vs. length row = h"
    using w by (simp_all add: ks_def vs_def w2)
  have l: "length ks = length rows" "length vs = length rows" by (simp_all add: ks_def vs_def)
  have "row_chunks (length rows) h (concat ks @ concat vs) = ks"
    using row_chunks_concat [OF k] by (simp add: l)
  moreover have "drop (length rows * h) (concat ks @ concat vs) = concat vs"
    using concat_width [OF k] by (simp add: l)
  moreover have "row_chunks (length rows) h (concat vs) = vs"
    using row_chunks_concat [OF v, of "[]"] by (simp add: l)
  ultimately show ?thesis
    using False concat_width [OF k] concat_width [OF v]
    by (simp add: source_rows_for_def halves_def Let_def h_def [symmetric] ks_def [symmetric] vs_def [symmetric] l)
      (simp add: ks_def vs_def map2_halves)
qed

lemma source_rows_width:
  assumes "source_rows_for mla n w src = Inr rows" and "mla \<or> even w"
  shows "length rows = n" and "\<forall>row \<in> set rows. length row = w"
proof -
  show "length rows = n" using assms by (auto simp: source_rows_for_def Let_def row_chunks_def split: if_splits)
  show "\<forall>row \<in> set rows. length row = w"
  proof (cases mla)
    case True
    then show ?thesis using assms by (auto simp: source_rows_for_def Let_def list_ex_iff split: if_splits)
  next
    case False
    define h where "h = w div 2"
    define flat where "flat = concat (fst src) @ concat (snd src)"
    have w2: "w = 2 * h" using assms(2) False by (simp add: h_def)
    have fl: "length flat = 2 * (n * h)"
      and rows: "rows = map2 (@) (row_chunks n h flat) (row_chunks n h (drop (n * h) flat))"
      using assms(1) False
      by (auto simp: source_rows_for_def Let_def h_def [symmetric] flat_def [symmetric] split: if_splits)
    have chunk: "length c = h" if c: "c \<in> set (row_chunks n h xs)" and lx: "n * h \<le> length xs" for c xs
    proof -
      obtain i where i: "i < n" "c = take h (drop (i * h) xs)" using c by (auto simp: row_chunks_def)
      have "(i + 1) * h \<le> n * h" using i(1) by (intro mult_le_mono1) simp
      then have "h \<le> length xs - i * h" using lx by simp
      then show ?thesis by (simp add: i(2))
    qed
    show ?thesis
    proof
      fix row assume "row \<in> set rows"
      then obtain k v where kv: "(k, v) \<in> set (zip (row_chunks n h flat) (row_chunks n h (drop (n * h) flat)))"
        "row = k @ v"
        by (auto simp: rows)
      have "length k = h" by (rule chunk [OF set_zip_leftD [OF kv(1)]]) (simp add: fl)
      moreover have "length v = h" by (rule chunk [OF set_zip_rightD [OF kv(1)]]) (simp add: fl)
      ultimately show "length row = w" by (simp add: kv(2) w2)
    qed
  qed
qed


subsection \<open>Refinement of the opaque rows\<close>

text \<open>
  The layer of \<open>Slots\<close> that a tensor is: the row of a token is the code of its components. Reading and
  writing the tensor is reading and writing that layer, whatever the layout.
\<close>

definition row_code :: "int list \<Rightarrow> int" where
  "row_code row = int (to_nat row)"

definition rows_of :: "bool \<Rightarrow> captured \<Rightarrow> int list list" where
  "rows_of mla src = (if mla then fst src else map2 (@) (fst src) (snd src))"

definition layer_of :: "layout \<Rightarrow> contents \<Rightarrow> layer_cache" where
  "layer_of ly t page off =
     (if off < ly_page ly then row_code (read_row (ly_width ly) (ly_index ly) t (page * ly_page ly + off)) else 0)"

lemma row_code_inj [simp]: "row_code x = row_code y \<longleftrightarrow> x = y"
  by (simp add: row_code_def)

lemma rows_of_halves [simp]: "rows_of mla (halves mla w rows) = rows"
  by (simp add: rows_of_def halves_def map2_halves)

lemma cell_layer_of:
  "0 < ly_page ly \<Longrightarrow>
     cell (ly_page ly) (layer_of ly t) slot = row_code (read_row (ly_width ly) (ly_index ly) t slot)"
  by (simp add: cell_def layer_of_def)

lemma layer_of_write:
  assumes ly: "layout_of mla shape = Inr ly" and p: "0 < ly_page ly" and row: "length row = ly_width ly"
  shows "layer_of ly (write_row (ly_width ly) (ly_index ly) s row t)
           = write_cell (ly_page ly) (s, row_code row) (layer_of ly t)"
proof (intro ext)
  fix page off
  have slot: "page * ly_page ly + off = s \<longleftrightarrow> s div ly_page ly = page \<and> s mod ly_page ly = off" if "off < ly_page ly"
    using that p by auto
  have "s mod ly_page ly \<noteq> off" if "\<not> off < ly_page ly" using that p by auto
  then show "layer_of ly (write_row (ly_width ly) (ly_index ly) s row t) page off
          = write_cell (ly_page ly) (s, row_code row) (layer_of ly t) page off"
    using slot by (auto simp: layer_of_def write_cell_def indexed_rows.read_write_row [OF layout_of_rows [OF ly] row])
qed

lemma layer_of_writes:
  assumes ly: "layout_of mla shape = Inr ly" and p: "0 < ly_page ly"
  shows "\<forall>row \<in> set rows. length row = ly_width ly \<Longrightarrow>
    layer_of ly (fold (\<lambda>sr. write_row (ly_width ly) (ly_index ly) (fst sr) (snd sr)) (zip slots rows) t)
      = fold (write_cell (ly_page ly)) (zip slots (map row_code rows)) (layer_of ly t)"
proof (induction slots arbitrary: rows t)
  case (Cons x slots)
  then show ?case by (cases rows) (simp_all add: layer_of_write [OF ly p])
qed simp


text \<open>
  The gather and the scatter of every tensor layout the connector knows implement those of the opaque
  rows: reading slots of the tensor is reading them of its layer, and a scatter that the tensor accepts
  is the scatter of the source's rows, which the layer accepts too.
\<close>

theorem layouts_refine_rows:
  assumes "layout_of mla (tn_shape t) = Inr ly" and "\<not> uneven mla (tn_shape t)"
    and "0 < ly_page ly" and "slots \<noteq> []"
  shows "map_sum id (\<lambda>src. map row_code (rows_of mla src)) (extract_layer mla t slots)
           = Inr (extract_kv (ly_page ly) (layer_of ly (tn_at t)) slots)
       \<and> map_sum id (\<lambda>t'. layer_of ly (tn_at t')) (inject_layer mla t src slots)
           = (case source_rows_for mla (length slots) (ly_width ly) src of
                Inl x \<Rightarrow> Inl x
              | Inr rows \<Rightarrow> inject_kv (ly_page ly) (layer_of ly (tn_at t)) (map row_code rows) slots)"
proof (intro conjI)
  show "map_sum id (\<lambda>src. map row_code (rows_of mla src)) (extract_layer mla t slots)
           = Inr (extract_kv (ly_page ly) (layer_of ly (tn_at t)) slots)"
    using assms by (simp add: extract_layer_def extract_kv_def cell_layer_of)
  have even: "mla \<or> even (ly_width ly)" using assms(1) layout_of_even by (cases mla) auto
  show "map_sum id (\<lambda>t'. layer_of ly (tn_at t')) (inject_layer mla t src slots)
           = (case source_rows_for mla (length slots) (ly_width ly) src of
                Inl x \<Rightarrow> Inl x
              | Inr rows \<Rightarrow> inject_kv (ly_page ly) (layer_of ly (tn_at t)) (map row_code rows) slots)"
  proof (cases "source_rows_for mla (length slots) (ly_width ly) src")
    case (Inr rows)
    note w = source_rows_width [OF Inr even]
    show ?thesis
      using assms(1,2) w(1) layer_of_writes [OF assms(1,3) w(2)] by (simp add: inject_layer_def Inr inject_kv_def)
  qed (use assms(1) in \<open>simp add: inject_layer_def\<close>)
qed

lemma extract_inject_layer:
  assumes out: "extract_layer mla t slots = Inr src"
    and ly: "layout_of mla (tn_shape t) = Inr ly" "layout_of mla (tn_shape t') = Inr ly'"
    and width: "ly_width ly = ly_width ly'" and even: "\<not> uneven mla (tn_shape t')"
    and slots: "length slots' = length slots" "distinct slots'"
  obtains t'' where "inject_layer mla t' src slots' = Inr t''" and "tn_shape t'' = tn_shape t'"
    and "extract_layer mla t'' slots' = Inr src"
    and "\<And>s. s \<notin> set slots' \<Longrightarrow> extract_layer mla t'' [s] = extract_layer mla t' [s]"
proof
  define w where "w = ly_width ly'"
  define rows where "rows = map (read_row w (ly_index ly) (tn_at t)) slots"
  define t'' where "t'' = t'\<lparr>tn_at := fold (\<lambda>sr. write_row w (ly_index ly') (fst sr) (snd sr)) (zip slots' rows) (tn_at t')\<rparr>"
  have rw: "\<forall>row \<in> set rows. length row = w" by (simp add: rows_def read_row_def)
  have l: "length rows = length slots'" by (simp add: rows_def slots(1))
  have ne: "slots \<noteq> []" "slots' \<noteq> []" and src: "src = halves mla w rows"
    using out ly(1) slots(1) by (auto simp: extract_layer_def rows_def w_def width split: if_splits)
  have "mla \<or> even w" using ly(2) layout_of_even by (cases mla) (auto simp: w_def)
  then have source: "source_rows_for mla (length slots') w src = Inr rows"
    using source_rows_for_halves [OF rw] by (simp add: src l)
  show "inject_layer mla t' src slots' = Inr t''"
    using ly(2) source even by (simp add: inject_layer_def t''_def w_def)
  note store = layout_of_rows [OF ly(2), folded w_def]
  have "map (read_row w (ly_index ly') (tn_at t'')) slots' = rows"
    using indexed_rows.reads_writes [OF store slots(2) l rw] by (simp add: t''_def)
  then show "extract_layer mla t'' slots' = Inr src"
    using ly(2) ne even by (simp add: extract_layer_def t''_def w_def [symmetric] src)
  show "extract_layer mla t'' [s] = extract_layer mla t' [s]" if "s \<notin> set slots'" for s
    using ly(2) indexed_rows.read_writes_other [OF store rw that]
    by (simp add: extract_layer_def t''_def w_def [symmetric])
  show "tn_shape t'' = tn_shape t'" by (simp add: t''_def)
qed

text \<open>
  C38. What was captured from one layer lands in any layer with rows of the same width, whichever of the
  layouts either has, once the pages pass the check: written at distinct slots it reads back as it was
  captured, no other slot changes, and nothing more is counted or reported.
\<close>

theorem captured_layer_lands_in_any_layout:
  assumes out: "extract_kv_from_layer e g mla t slots st = (Inr src, st1)"
    and check: "page_check e g mla (tn_shape t') st1 = (Inr (), st2)"
    and ly: "layout_of mla (tn_shape t) = Inr ly" "layout_of mla (tn_shape t') = Inr ly'"
    and width: "ly_width ly = ly_width ly'" and even: "\<not> uneven mla (tn_shape t')"
    and slots: "length slots' = length slots" "distinct slots'"
  shows "\<exists>t''. inject_kv_into_layer e g mla t' src slots' st1 = (Inr t'', st2)
           \<and> extract_kv_from_layer e g mla t'' slots' st2 = (Inr src, st2)
           \<and> (\<forall>s. s \<notin> set slots' \<longrightarrow> extract_layer mla t'' [s] = extract_layer mla t' [s])"
proof -
  have "extract_layer mla t slots = Inr src"
    using out by (auto simp: extract_kv_from_layer_def split: prod.splits sum.splits)
  then obtain t'' where t'': "inject_layer mla t' src slots' = Inr t''" "tn_shape t'' = tn_shape t'"
      "extract_layer mla t'' slots' = Inr src"
      "\<And>s. s \<notin> set slots' \<Longrightarrow> extract_layer mla t'' [s] = extract_layer mla t' [s]"
    by (rule extract_inject_layer [OF _ ly width even slots]) (rule that)
  have "page_check e g mla (tn_shape t') st2 = (Inr (), st2)"
    using check by (auto simp: page_check_def intro: required_again split: if_splits)
  then show ?thesis
    using t'' check by (intro exI [of _ t'']) (simp add: inject_kv_into_layer_def extract_kv_from_layer_def)
qed


subsection \<open>Witnesses\<close>

text \<open>A packed page of two heads of width two whose spec says so, and a page with a K/V axis.\<close>

definition packed_page :: tensor where
  "packed_page = \<lparr>tn_shape = [4, 2, 2, 4], tn_at = \<lambda>ix. foldr (\<lambda>d n. int d + 10 * n) ix 0\<rparr>"

definition kv_axis_page :: tensor where
  "kv_axis_page = \<lparr>tn_shape = [3, 2, 4, 2, 2], tn_at = \<lambda>_. 0\<rparr>"

definition width_two :: page_env where
  "width_two =
     \<lparr>pe_kv_cache_config = PObj [] [(''kv_cache_groups'',
        PSeq [] [PObj [] [(''kv_cache_spec'', PObj [] [(''head_size'', PInt 2), (''head_size_v'', PInt 2)])]])],
      pe_iter_layer_specs = None\<rparr>"

lemma packed_page_passes:
  "page_check slots_env width_two False (tn_shape packed_page) (None, s)
     = (Inr (), Some (Some 4, Kv_cache_spec, True), s)"
proof -
  have "spec_kv_content_widths width_two = Inr (Some (2, 2))" by code_simp
  then show ?thesis
    by (simp add: page_check_def packed_page_def require_packed_content_dim_def
        expected_page_content_dim_def Let_def numeral_3_eq_3)
qed

lemma packed_rows:
  "extract_layer False packed_page [2, 5]
     = Inr ([[1, 1001, 11, 1011], [102, 1102, 112, 1112]], [[2001, 3001, 2011, 3011], [2102, 3102, 2112, 3112]])"
  by code_simp

theorem layouts_refine_rows_witness:
  "\<exists>ly. layout_of False (tn_shape packed_page) = Inr ly
     \<and> map_sum id (\<lambda>src. map row_code (rows_of False src)) (extract_layer False packed_page [2, 5])
         = Inr (extract_kv (ly_page ly) (layer_of ly (tn_at packed_page)) [2, 5])"
proof -
  obtain ly where ly: "layout_of False (tn_shape packed_page) = Inr ly" "ly_page ly = 2"
    by (simp add: layout_of_def packed_page_def Let_def)
  then show ?thesis
    using layouts_refine_rows [where mla = False and t = packed_page and ly = ly and slots = "[2, 5]"
        and src = "([], [])"]
    by (simp add: uneven_def packed_page_def numeral_3_eq_3)
qed

theorem captured_layer_lands_in_any_layout_witness:
  "\<exists>t''. inject_kv_into_layer slots_env width_two False kv_axis_page
             ([[1, 1001, 11, 1011], [102, 1102, 112, 1112]], [[2001, 3001, 2011, 3011], [2102, 3102, 2112, 3112]])
             [9, 3] (Some (Some 4, Kv_cache_spec, True), init_audit)
           = (Inr t'', Some (Some 4, Kv_cache_spec, True), init_audit)"
proof -
  let ?st = "(Some (Some 4, Kv_cache_spec, True), init_audit)"
  have out: "extract_kv_from_layer slots_env width_two False packed_page [2, 5] (None, init_audit)
      = (Inr ([[1, 1001, 11, 1011], [102, 1102, 112, 1112]], [[2001, 3001, 2011, 3011], [2102, 3102, 2112, 3112]]), ?st)"
    by (simp add: extract_kv_from_layer_def packed_page_passes packed_rows)
  obtain ly where ly: "layout_of False (tn_shape packed_page) = Inr ly" "ly_width ly = 8"
    by (simp add: layout_of_def packed_page_def Let_def numeral_3_eq_3)
  obtain ly' where ly': "layout_of False (tn_shape kv_axis_page) = Inr ly'" "ly_width ly' = 8"
    by (simp add: layout_of_def kv_axis_page_def Let_def numeral_3_eq_3)
  have ok: "page_check slots_env width_two False (tn_shape kv_axis_page) ?st = (Inr (), ?st)"
    by (simp add: page_check_def kv_axis_page_def)
  have w: "ly_width ly = ly_width ly'" by (simp only: ly(2) ly'(2))
  have even: "\<not> uneven False (tn_shape kv_axis_page)" by (simp add: uneven_def kv_axis_page_def)
  have "length [9, 3] = length [2, 5 :: nat]" and "distinct [9, 3 :: nat]" by simp_all
  from captured_layer_lands_in_any_layout [OF out ok ly(1) ly'(1) w even this]
  show ?thesis by (rule ex_forward) (erule conjunct1)
qed

end
