(* ===== verification/CaptureCost.thy ===== *)
theory CaptureCost
  imports AuditTrail
begin

text \<open>
  What donor captures cost the forward pass: \<open>_running_capture_cost\<close>, \<open>_note_capture_cost\<close>,
  \<open>_note_flush_cost\<close>, \<open>_report_capture_cost\<close>, the queue-full cost of \<open>_note_write_queue_blocked\<close> and the
  participants of a step that \<open>_submit_write\<close> collects. Elapsed times are arguments, exact rationals; no
  decision of the connector reads any of this, so it is a state of its own. The theory ends with an
  abstract ledger, itemised bills, that the running sums implement.
\<close>

subsection \<open>Rounding\<close>

text \<open>Python's \<open>round\<close>: to the nearest integer, a tie to the even one.\<close>

definition py_round :: "rat \<Rightarrow> int" where
  "py_round x =
     (let n = floor x; d = x - of_int n
      in if d < 1 / 2 then n else if 1 / 2 < d then n + 1 else if even n then n else n + 1)"

subsection \<open>State and operations\<close>

record cost =
  cc_capture_ms :: rat
  cc_copy_ms :: rat
  cc_write_ms :: rat
  cc_write_blocked_ms :: rat
  cc_flush_ms :: rat
  cc_copy_bytes :: int

definition no_cost :: cost where
  "no_cost = \<lparr>cc_capture_ms = 0, cc_copy_ms = 0, cc_write_ms = 0, cc_write_blocked_ms = 0, cc_flush_ms = 0,
     cc_copy_bytes = 0\<rparr>"

record cost_st = audit_st +
  capture_cost :: "string \<rightharpoonup> cost"
  capture_flush_ms :: rat
  capture_flush_participants :: "string set"

definition running_capture_cost :: "string \<Rightarrow> 'z cost_st_scheme \<Rightarrow> cost" where
  "running_capture_cost rid s = (case capture_cost s rid of None \<Rightarrow> no_cost | Some c \<Rightarrow> c)"

definition note_capture_cost ::
  "string \<Rightarrow> rat \<Rightarrow> rat \<Rightarrow> rat \<Rightarrow> int \<Rightarrow> 'z cost_st_scheme \<Rightarrow> 'z cost_st_scheme" where
  "note_capture_cost rid capture_ms copy_ms write_ms copy_bytes s =
     (let c = running_capture_cost rid s
      in bump (SW Capture_layers_total)
           (s\<lparr>capture_cost := (capture_cost s)(rid \<mapsto>
                c\<lparr>cc_capture_ms := cc_capture_ms c + capture_ms, cc_copy_ms := cc_copy_ms c + copy_ms,
                  cc_write_ms := cc_write_ms c + write_ms, cc_copy_bytes := cc_copy_bytes c + copy_bytes\<rparr>)\<rparr>))"

definition note_blocked_cost :: "string \<Rightarrow> rat \<Rightarrow> 'z cost_st_scheme \<Rightarrow> 'z cost_st_scheme" where
  "note_blocked_cost rid blocked_ms s =
     (let c = running_capture_cost rid s
      in s\<lparr>capture_cost := (capture_cost s)(rid \<mapsto>
             c\<lparr>cc_write_blocked_ms := cc_write_blocked_ms c + blocked_ms\<rparr>)\<rparr>)"

definition join_flush :: "string \<Rightarrow> 'z cost_st_scheme \<Rightarrow> 'z cost_st_scheme" where
  "join_flush rid s = s\<lparr>capture_flush_participants := insert rid (capture_flush_participants s)\<rparr>"

text \<open>The loop over the participants, each with a key of its own, is one update of the map.\<close>

definition note_flush_cost :: "rat \<Rightarrow> 'z cost_st_scheme \<Rightarrow> 'z cost_st_scheme" where
  "note_flush_cost flush_ms s =
     (let total = capture_flush_ms s + flush_ms
      in s\<lparr>capture_flush_ms := total,
           stats := (stats s)(SW Capture_flush_ms_total := py_round total),
           capture_flush_participants := {},
           capture_cost := (\<lambda>rid.
             if rid \<in> capture_flush_participants s
             then (let c = running_capture_cost rid s in Some (c\<lparr>cc_flush_ms := cc_flush_ms c + flush_ms\<rparr>))
             else capture_cost s rid)\<rparr>)"

definition report_capture_cost ::
  "'p env \<Rightarrow> string \<Rightarrow> nat \<Rightarrow> 'z cost_st_scheme \<Rightarrow> 'z cost_st_scheme" where
  "report_capture_cost e rid layers s =
     (case capture_cost s rid of
        None \<Rightarrow> s
      | Some c \<Rightarrow>
          audit e (Some rid)
            (EW (Ev_donor_capture_cost (py_round (cc_capture_ms c)) (py_round (cc_copy_ms c))
                  (py_round (cc_write_ms c)) (py_round (cc_write_blocked_ms c)) (py_round (cc_flush_ms c))
                  (cc_copy_bytes c) layers (c_kv_storage_backend (e_config e))))
            (bump_by (SW Capture_bytes_total) (cc_copy_bytes c)
              (bump_by (SW Capture_write_blocked_ms_total) (py_round (cc_write_blocked_ms c))
                (bump_by (SW Capture_write_ms_total) (py_round (cc_write_ms c))
                  (bump_by (SW Capture_copy_ms_total) (py_round (cc_copy_ms c))
                    (bump_by (SW Capture_ms_total) (py_round (cc_capture_ms c))
                      (s\<lparr>capture_cost := (capture_cost s)(rid := None)\<rparr>)))))))"

subsection \<open>A run\<close>

datatype cost_event =
    Layer_captured string rat rat rat int
  | Write_blocked string rat
  | Queued string
  | Joined rat
  | Finished string nat

fun cost_step :: "'p env \<Rightarrow> cost_event \<Rightarrow> 'z cost_st_scheme \<Rightarrow> 'z cost_st_scheme" where
  "cost_step e (Layer_captured rid c cp w n) s = note_capture_cost rid c cp w n s"
| "cost_step e (Write_blocked rid ms) s = note_blocked_cost rid ms s"
| "cost_step e (Queued rid) s = join_flush rid s"
| "cost_step e (Joined ms) s = note_flush_cost ms s"
| "cost_step e (Finished rid layers) s = report_capture_cost e rid layers s"

definition cost_run :: "'p env \<Rightarrow> cost_event list \<Rightarrow> 'z cost_st_scheme \<Rightarrow> 'z cost_st_scheme" where
  "cost_run e evs s = fold (cost_step e) evs s"

definition init_cost :: cost_st where
  "init_cost = audit_st.extend init_audit
     \<lparr>capture_cost = Map.empty, capture_flush_ms = 0, capture_flush_participants = {}\<rparr>"

subsection \<open>The ledger\<close>

text \<open>
  The specification: every request has the list of items charged to it since it was last billed. A join
  is an item of every request that queued a write since the previous join. A finish settles the list.
\<close>

datatype item = Layer_item rat rat rat int | Blocked_item rat | Flush_item rat

record ledger =
  lg_open :: "string \<Rightarrow> item list"
  lg_in_step :: "string set"
  lg_settled :: "(string \<times> item list) list"
  lg_joins :: "rat list"

definition charge :: "string \<Rightarrow> item \<Rightarrow> ledger \<Rightarrow> ledger" where
  "charge rid x g = g\<lparr>lg_open := (lg_open g)(rid := lg_open g rid @ [x])\<rparr>"

fun ledger_step :: "cost_event \<Rightarrow> ledger \<Rightarrow> ledger" where
  "ledger_step (Layer_captured rid c cp w n) g = charge rid (Layer_item c cp w n) g"
| "ledger_step (Write_blocked rid ms) g = charge rid (Blocked_item ms) g"
| "ledger_step (Queued rid) g = g\<lparr>lg_in_step := insert rid (lg_in_step g)\<rparr>"
| "ledger_step (Joined ms) g =
     g\<lparr>lg_open := (\<lambda>rid. if rid \<in> lg_in_step g then lg_open g rid @ [Flush_item ms] else lg_open g rid),
       lg_in_step := {}, lg_joins := lg_joins g @ [ms]\<rparr>"
| "ledger_step (Finished rid layers) g =
     (if lg_open g rid = [] then g
      else g\<lparr>lg_open := (lg_open g)(rid := []), lg_settled := lg_settled g @ [(rid, lg_open g rid)]\<rparr>)"

definition ledger_of :: "cost_event list \<Rightarrow> ledger" where
  "ledger_of evs =
     fold ledger_step evs \<lparr>lg_open = (\<lambda>_. []), lg_in_step = {}, lg_settled = [], lg_joins = []\<rparr>"

fun item_cost :: "item \<Rightarrow> cost" where
  "item_cost (Layer_item c cp w n) =
     no_cost\<lparr>cc_capture_ms := c, cc_copy_ms := cp, cc_write_ms := w, cc_copy_bytes := n\<rparr>"
| "item_cost (Blocked_item ms) = no_cost\<lparr>cc_write_blocked_ms := ms\<rparr>"
| "item_cost (Flush_item ms) = no_cost\<lparr>cc_flush_ms := ms\<rparr>"

text \<open>What a list of items comes to, each kind of cost summed on its own.\<close>

definition bill :: "item list \<Rightarrow> cost" where
  "bill xs = \<lparr>cc_capture_ms = sum_list (map (cc_capture_ms \<circ> item_cost) xs),
     cc_copy_ms = sum_list (map (cc_copy_ms \<circ> item_cost) xs),
     cc_write_ms = sum_list (map (cc_write_ms \<circ> item_cost) xs),
     cc_write_blocked_ms = sum_list (map (cc_write_blocked_ms \<circ> item_cost) xs),
     cc_flush_ms = sum_list (map (cc_flush_ms \<circ> item_cost) xs),
     cc_copy_bytes = sum_list (map (cc_copy_bytes \<circ> item_cost) xs)\<rparr>"

definition billed_ms :: "(cost \<Rightarrow> rat) \<Rightarrow> ledger \<Rightarrow> int" where
  "billed_ms f g = sum_list (map (\<lambda>(rid, xs). py_round (f (bill xs))) (lg_settled g))"

definition follows :: "'z cost_st_scheme \<Rightarrow> ledger \<Rightarrow> bool" where
  "follows s g \<longleftrightarrow> (\<forall>rid. capture_cost s rid = (if lg_open g rid = [] then None else Some (bill (lg_open g rid))))
     \<and> capture_flush_participants s = lg_in_step g
     \<and> capture_flush_ms s = sum_list (lg_joins g)
     \<and> stats s (SW Capture_flush_ms_total) = (if lg_joins g = [] then 0 else py_round (sum_list (lg_joins g)))
     \<and> stats s (SW Capture_ms_total) = billed_ms cc_capture_ms g
     \<and> stats s (SW Capture_copy_ms_total) = billed_ms cc_copy_ms g
     \<and> stats s (SW Capture_write_ms_total) = billed_ms cc_write_ms g
     \<and> stats s (SW Capture_write_blocked_ms_total) = billed_ms cc_write_blocked_ms g
     \<and> stats s (SW Capture_bytes_total) = sum_list (map (\<lambda>(rid, xs). cc_copy_bytes (bill xs)) (lg_settled g))"


subsection \<open>The running sums are the ledger\<close>

lemma cost_fields_eq:
  assumes "audit_st.more s = audit_st.more (t :: 'z cost_st_scheme)"
  shows "capture_cost s = capture_cost t" "capture_flush_ms s = capture_flush_ms t"
    "capture_flush_participants s = capture_flush_participants t"
  using assms by (cases s; cases t; simp)+

lemma cost_small [simp]:
  fixes s :: "'z cost_st_scheme"
  shows "capture_cost (audit e r ev s) = capture_cost s" "capture_cost (bump_by k n s) = capture_cost s"
    "capture_flush_ms (audit e r ev s) = capture_flush_ms s" "capture_flush_ms (bump_by k n s) = capture_flush_ms s"
    "capture_flush_participants (audit e r ev s) = capture_flush_participants s"
    "capture_flush_participants (bump_by k n s) = capture_flush_participants s"
  using cost_fields_eq [OF more_audit, of e r ev s] by (simp_all add: bump_by_def)

lemma stats_bump_by: "stats (bump_by k n s) j = stats s j + (if j = k then n else 0)"
  by (simp add: bump_by_def)

lemma bill_snoc:
  "bill (xs @ [x]) =
     \<lparr>cc_capture_ms = cc_capture_ms (bill xs) + cc_capture_ms (item_cost x),
      cc_copy_ms = cc_copy_ms (bill xs) + cc_copy_ms (item_cost x),
      cc_write_ms = cc_write_ms (bill xs) + cc_write_ms (item_cost x),
      cc_write_blocked_ms = cc_write_blocked_ms (bill xs) + cc_write_blocked_ms (item_cost x),
      cc_flush_ms = cc_flush_ms (bill xs) + cc_flush_ms (item_cost x),
      cc_copy_bytes = cc_copy_bytes (bill xs) + cc_copy_bytes (item_cost x)\<rparr>"
  by (simp add: bill_def)

lemma bill_Nil [simp]: "bill [] = no_cost"
  by (simp add: bill_def no_cost_def)

lemma running_bill: "follows s g \<Longrightarrow> running_capture_cost rid s = bill (lg_open g rid)"
  by (auto simp: follows_def running_capture_cost_def)

lemma no_cost_fields [simp]:
  "cc_capture_ms no_cost = 0" "cc_copy_ms no_cost = 0" "cc_write_ms no_cost = 0"
  "cc_write_blocked_ms no_cost = 0" "cc_flush_ms no_cost = 0" "cc_copy_bytes no_cost = 0"
  by (simp_all add: no_cost_def)

lemma billed_charge [simp]: "billed_ms f (charge rid x g) = billed_ms f g"
  by (simp add: billed_ms_def charge_def)

lemma billed_settle:
  "billed_ms f (g\<lparr>lg_open := o', lg_settled := lg_settled g @ [(rid, xs)]\<rparr>) = billed_ms f g + py_round (f (bill xs))"
  by (simp add: billed_ms_def)

lemma cost_eqI:
  assumes "cc_capture_ms a = cc_capture_ms b" "cc_copy_ms a = cc_copy_ms b" "cc_write_ms a = cc_write_ms b"
    "cc_write_blocked_ms a = cc_write_blocked_ms b" "cc_flush_ms a = cc_flush_ms b" "cc_copy_bytes a = cc_copy_bytes b"
  shows "a = (b :: cost)"
  using assms by (cases a; cases b) simp

lemma follows_step: "follows s g \<Longrightarrow> follows (cost_step e ev s) (ledger_step ev g)"
proof (cases ev)
  case (Layer_captured rid c cp w n)
  assume f: "follows s g"
  note r = running_bill [OF f, of rid]
  show ?thesis using f
    by (auto simp: Layer_captured follows_def note_capture_cost_def r Let_def charge_def bump_def stats_bump_by
        bill_snoc billed_ms_def intro!: cost_eqI)
next
  case (Write_blocked rid ms)
  assume f: "follows s g"
  note r = running_bill [OF f, of rid]
  show ?thesis using f
    by (auto simp: Write_blocked follows_def note_blocked_cost_def r Let_def charge_def bill_snoc billed_ms_def
        intro!: cost_eqI)
next
  case (Queued rid)
  assume f: "follows s g"
  then show ?thesis by (auto simp: Queued follows_def join_flush_def billed_ms_def)
next
  case (Joined ms)
  assume f: "follows s g"
  note r = running_bill [OF f]
  show ?thesis using f
    by (auto simp: Joined follows_def note_flush_cost_def r Let_def bill_snoc billed_ms_def intro!: cost_eqI)
next
  case (Finished rid layers)
  assume f: "follows s g"
  show ?thesis
  proof (cases "lg_open g rid = []")
    case True
    then show ?thesis using f by (simp add: Finished report_capture_cost_def follows_def)
  next
    case False
    then have "capture_cost s rid = Some (bill (lg_open g rid))" using f by (simp add: follows_def)
    then show ?thesis using f False
      by (auto simp: Finished report_capture_cost_def follows_def stats_bump_by billed_settle)
  qed
qed


lemma py_round_error: "\<bar>of_int (py_round x) - x\<bar> \<le> 1 / 2"
proof -
  define d where "d = x - of_int (floor x)"
  have d: "0 \<le> d" "d < 1" by (simp_all add: d_def) linarith
  have x: "x = of_int (floor x) + d" by (simp add: d_def)
  have r: "py_round x = (if d < 1 / 2 then floor x else if 1 / 2 < d then floor x + 1
             else if even (floor x) then floor x else floor x + 1)"
    by (simp add: py_round_def Let_def d_def)
  have "of_int (py_round x) - x = (if py_round x = floor x then - d else 1 - d)"
    using x by (auto simp: r)
  then show ?thesis using d by (auto simp: r split: if_splits)
qed

lemma billed_error:
  "\<bar>of_int (billed_ms f g) - sum_list (map (\<lambda>(rid, xs). f (bill xs)) (lg_settled g))\<bar>
     \<le> of_nat (length (lg_settled g)) / 2"
proof -
  have "\<bar>of_int (sum_list (map (\<lambda>(rid, xs). py_round (f (bill xs))) ys))
          - sum_list (map (\<lambda>(rid, xs). f (bill xs)) ys)\<bar> \<le> of_nat (length ys) / 2"
    for ys :: "(string \<times> item list) list"
  proof (induction ys)
    case (Cons y ys)
    obtain rid xs where y: "y = (rid, xs)" by (cases y)
    have add: "\<bar>a - x\<bar> \<le> c \<Longrightarrow> \<bar>b - z\<bar> \<le> d \<Longrightarrow> \<bar>a + b - (x + z)\<bar> \<le> c + d" for a b c d x z :: rat
      by linarith
    show ?case using add [OF py_round_error [of "f (bill xs)"] Cons.IH] by (simp add: y add_divide_distrib)
  qed simp
  then show ?thesis by (simp add: billed_ms_def)
qed

lemma init_follows: "follows init_cost (ledger_of [])"
  by (simp add: follows_def init_cost_def ledger_of_def billed_ms_def init_audit_def audit_st.defs)


end
