(* ===== verification/ConfigReaders.thy ===== *)
theory ConfigReaders
  imports Numbers Config
begin

text \<open>
  Reading the configuration, \<open>config.py\<close>: the extra-config mapping, the environment behind it, the
  readers of one key, \<open>from_vllm_config\<close> and \<open>validation_warnings\<close>. A reader returns the value the code
  returns; the two ways out of the record's types are errors: Python's \<open>OverflowError\<close>, and \<open>Outside\<close>,
  a value the code would go on with and the record cannot hold (an infinity or a NaN in a float field, a
  value that is not text in a field of optional text).
\<close>

subsection \<open>Readers\<close>

datatype config_error = Overflow | Outside string

definition sum_bind :: "'e + 'a \<Rightarrow> ('a \<Rightarrow> 'e + 'b) \<Rightarrow> 'e + 'b" where
  "sum_bind x f = (case x of Inl err \<Rightarrow> Inl err | Inr a \<Rightarrow> f a)"

lemma sum_bind_simps [simp]: "sum_bind (Inl err) f = Inl err" "sum_bind (Inr a) f = f a"
  by (simp_all add: sum_bind_def)

lemma sum_bind_Inl: "sum_bind x f = Inl err \<longleftrightarrow> x = Inl err \<or> (\<exists>a. x = Inr a \<and> f a = Inl err)"
  by (cases x) simp_all

lemma sum_bind_Inr: "sum_bind x f = Inr b \<longleftrightarrow> (\<exists>a. x = Inr a \<and> f a = Inr b)"
  by (cases x) simp_all

type_synonym extra = "(string \<times> pyval) list"
type_synonym environment = "string \<rightharpoonup> string"

text \<open>\<open>os.environ.get\<close>; every variable's name starts the same way.\<close>

definition environ_value :: "environment \<Rightarrow> string \<Rightarrow> pyval" where
  "environ_value environ var =
     (case environ (''SEMBLEND_VLLM_'' @ var) of None \<Rightarrow> PNone | Some t \<Rightarrow> PStr t)"

text \<open>\<open>extra.get(key, os.environ.get(var, default))\<close>, and \<open>extra.get(key) or os.environ.get(var)\<close>.\<close>

definition extra_get :: "extra \<Rightarrow> environment \<Rightarrow> string \<Rightarrow> string \<Rightarrow> pyval \<Rightarrow> pyval" where
  "extra_get extra environ key var dflt =
     (case map_of extra key of
        Some v \<Rightarrow> v
      | None \<Rightarrow> (case environ (''SEMBLEND_VLLM_'' @ var) of Some t \<Rightarrow> PStr t | None \<Rightarrow> dflt))"

definition extra_or_environ :: "extra \<Rightarrow> environment \<Rightarrow> string \<Rightarrow> string \<Rightarrow> pyval" where
  "extra_or_environ extra environ key var = py_or (get_item extra key) (environ_value environ var)"

definition coerce_bool :: "pyval \<Rightarrow> bool \<Rightarrow> bool" where
  "coerce_bool raw dflt =
     (case raw of
        PBool b \<Rightarrow> b
      | PNone \<Rightarrow> dflt
      | PInt i \<Rightarrow> i \<noteq> 0
      | _ \<Rightarrow>
          (let t = py_lower (py_strip (py_str raw))
           in if t \<in> {''1'', ''true'', ''yes'', ''on''} then True
              else if t \<in> {''0'', ''false'', ''no'', ''off''} then False
              else dflt))"

definition read_int :: "extra \<Rightarrow> environment \<Rightarrow> string \<Rightarrow> string \<Rightarrow> int \<Rightarrow> int" where
  "read_int extra environ key var dflt =
     (case py_int (extra_get extra environ key var (PInt dflt)) of Inl _ \<Rightarrow> dflt | Inr i \<Rightarrow> i)"

definition read_float :: "extra \<Rightarrow> environment \<Rightarrow> string \<Rightarrow> string \<Rightarrow> rat \<Rightarrow> config_error + rat" where
  "read_float extra environ key var dflt =
     (case py_float (extra_get extra environ key var (PFloat dflt [])) of
        Inl x \<Rightarrow> if x = OverflowError then Inl Overflow else Inr dflt
      | Inr Nonfinite \<Rightarrow> Inl (Outside key)
      | Inr (Finite r) \<Rightarrow> Inr r)"

definition read_bool :: "extra \<Rightarrow> environment \<Rightarrow> string \<Rightarrow> string \<Rightarrow> bool \<Rightarrow> bool" where
  "read_bool extra environ key var dflt =
     coerce_bool (extra_get extra environ key var (PBool dflt)) dflt"

definition read_text :: "extra \<Rightarrow> environment \<Rightarrow> string \<Rightarrow> string \<Rightarrow> string \<Rightarrow> string" where
  "read_text extra environ key var dflt = py_str (extra_get extra environ key var (PStr dflt))"

definition normal_text :: "string \<Rightarrow> string" where
  "normal_text t = py_lower (py_strip t)"

definition capture_policies :: "string list" where
  "capture_policies = [''all'', ''sampled'', ''hinted'']"

definition read_capture_policy :: "extra \<Rightarrow> environment \<Rightarrow> string" where
  "read_capture_policy extra environ =
     (let policy = normal_text (read_text extra environ ''capture_policy'' ''CAPTURE_POLICY'' ''all'')
      in if policy \<in> set capture_policies then policy else ''all'')"

definition all_modes :: "reuse_mode list" where
  "all_modes = [DISCOVERY_ONLY, EXACT_PREFIX, REQUEST_ONLY_EXPERIMENTAL, SEGMENTED_EXPERIMENTAL,
     SEMANTIC_SPAN_EXPERIMENTAL]"

text \<open>\<open>ReuseMode(text)\<close>.\<close>

definition mode_of_text :: "string \<Rightarrow> reuse_mode option" where
  "mode_of_text t = find (\<lambda>m. mode_value m = t) all_modes"

definition read_mode :: "extra \<Rightarrow> environment \<Rightarrow> reuse_mode" where
  "read_mode extra environ =
     (case mode_of_text (read_text extra environ ''mode'' ''MODE'' (mode_value DISCOVERY_ONLY)) of
        None \<Rightarrow> DISCOVERY_ONLY | Some m \<Rightarrow> m)"

definition read_model_id :: "pyval \<Rightarrow> extra \<Rightarrow> environment \<Rightarrow> string option" where
  "read_model_id vllm extra environ =
     (let named = extra_or_environ extra environ ''model_id'' ''MODEL_ID'';
          mc = getattr vllm ''model_config'';
          model_id = (if named \<noteq> PNone then named
                      else py_or (py_or (getattr mc ''model'') (getattr mc ''served_model_name''))
                             (getattr mc ''model_name''))
      in if model_id = PNone then None else Some (py_str model_id))"

definition option_text :: "string \<Rightarrow> pyval \<Rightarrow> config_error + string option" where
  "option_text key v =
     (case v of PNone \<Rightarrow> Inr None | PStr t \<Rightarrow> Inr (Some t) | _ \<Rightarrow> Inl (Outside key))"

subsection \<open>The extra-config mapping\<close>

definition extra_config_keys :: "string list" where
  "extra_config_keys =
    [''mode'', ''provider'', ''provider_module'',
     ''provider_class'', ''model_id'', ''min_prompt_tokens'',
     ''min_semantic_span'', ''lookup_precheck'', ''multi_donor_spans'',
     ''min_mid_prefill_segment'', ''min_boundary_tokens'', ''evict_filled_blocks_from_prefix_cache'',
     ''min_similarity'', ''min_reuse_ratio'', ''embedder_type'',
     ''chunk_size'', ''max_donors'', ''register_donors'',
     ''skip_when_exact_prefix_ratio_at_least'', ''lookup_top_k'', ''enable_prompt_text'',
     ''boundary_sliced_query_text'', ''min_query_text_chars'', ''log_decisions'',
     ''audit_path'', ''kv_storage_path'', ''max_materialized_tokens'',
     ''allow_non_identical_request_only'', ''capture_served_requests'', ''capture_policy'',
     ''capture_sample_rate'', ''capture_hint_key'', ''stage_hint_key'',
     ''capture_write_queue_depth'', ''capture_async_copy'', ''capture_write_close_timeout_s'',
     ''donor_registration_retry_steps'', ''kv_storage_backend'', ''kv_memory_max_donors'']"

text \<open>The getter, \<open>get_from_extra_config(key, None)\<close>, is the transfer configuration's own, when it has one.\<close>

definition get_extra_config :: "(string \<Rightarrow> pyval) option \<Rightarrow> pyval \<Rightarrow> extra" where
  "get_extra_config getter vllm =
     (let ktc = getattr vllm ''kv_transfer_config''
      in if ktc = PNone then []
         else case getattr ktc ''kv_connector_extra_config'' of
                PMap _ d \<Rightarrow> d
              | _ \<Rightarrow> (case getter of
                       None \<Rightarrow> []
                     | Some get \<Rightarrow> filter (\<lambda>kv. snd kv \<noteq> PNone) (map (\<lambda>k. (k, get k)) extra_config_keys)))"

subsection \<open>\<open>from_vllm_config\<close>\<close>

text \<open>The fields whose readers cannot fail, with the values of the eight others.\<close>

definition read_fields ::
  "pyval \<Rightarrow> extra \<Rightarrow> environment \<Rightarrow> string option \<Rightarrow> string option \<Rightarrow> rat \<Rightarrow> rat \<Rightarrow> string option
     \<Rightarrow> rat \<Rightarrow> rat \<Rightarrow> rat \<Rightarrow> config" where
  "read_fields vllm extra environ pm pc ms mr em sk cr ct = \<lparr>
       c_mode = read_mode extra environ,
       c_provider = read_text extra environ ''provider'' ''PROVIDER'' ''local'',
       c_provider_module = pm,
       c_provider_class = pc,
       c_model_id = read_model_id vllm extra environ,
       c_min_prompt_tokens = read_int extra environ ''min_prompt_tokens'' ''MIN_PROMPT_TOKENS'' 512,
       c_min_semantic_span = read_int extra environ ''min_semantic_span'' ''MIN_SEMANTIC_SPAN'' 512,
       c_lookup_precheck = read_bool extra environ ''lookup_precheck'' ''LOOKUP_PRECHECK'' True,
       c_multi_donor_spans = read_bool extra environ ''multi_donor_spans'' ''MULTI_DONOR_SPANS'' False,
       c_min_mid_prefill_segment = read_int extra environ ''min_mid_prefill_segment'' ''MIN_MID_PREFILL_SEGMENT'' 128,
       c_min_boundary_tokens = read_int extra environ ''min_boundary_tokens'' ''MIN_BOUNDARY_TOKENS'' 0,
       c_evict_filled_blocks_from_prefix_cache = read_bool extra environ ''evict_filled_blocks_from_prefix_cache'' ''EVICT_FILLED_BLOCKS_FROM_PREFIX_CACHE'' True,
       c_min_similarity = ms,
       c_min_reuse_ratio = mr,
       c_embedder_type = em,
       c_chunk_size = (let n = read_int extra environ ''chunk_size'' ''CHUNK_SIZE'' 0 in if n = 0 then None else Some n),
       c_max_donors = read_int extra environ ''max_donors'' ''MAX_DONORS'' 10000,
       c_register_donors = read_bool extra environ ''register_donors'' ''REGISTER_DONORS'' True,
       c_skip_when_exact_prefix_ratio_at_least = sk,
       c_lookup_top_k = read_int extra environ ''lookup_top_k'' ''LOOKUP_TOP_K'' 5,
       c_enable_prompt_text = read_bool extra environ ''enable_prompt_text'' ''ENABLE_PROMPT_TEXT'' False,
       c_boundary_sliced_query_text = read_bool extra environ ''boundary_sliced_query_text'' ''BOUNDARY_SLICED_QUERY_TEXT'' True,
       c_min_query_text_chars = read_int extra environ ''min_query_text_chars'' ''MIN_QUERY_TEXT_CHARS'' 64,
       c_log_decisions = read_bool extra environ ''log_decisions'' ''LOG_DECISIONS'' True,
       c_audit_path = (let t = py_str (py_or (extra_or_environ extra environ ''audit_path'' ''AUDIT_PATH'') (PStr [])) in if t = [] then None else Some t),
       c_kv_storage_path = read_text extra environ ''kv_storage_path'' ''KV_STORAGE_PATH'' ''/tmp/semblend-vllm-kv'',
       c_max_materialized_tokens = read_int extra environ ''max_materialized_tokens'' ''MAX_MATERIALIZED_TOKENS'' 4096,
       c_allow_non_identical_request_only = read_bool extra environ ''allow_non_identical_request_only'' ''ALLOW_NON_IDENTICAL_REQUEST_ONLY'' False,
       c_capture_served_requests = read_bool extra environ ''capture_served_requests'' ''CAPTURE_SERVED_REQUESTS'' False,
       c_capture_policy = read_capture_policy extra environ,
       c_capture_sample_rate = cr,
       c_capture_hint_key = normal_text (read_text extra environ ''capture_hint_key'' ''CAPTURE_HINT_KEY'' ''semblend_capture''),
       c_stage_hint_key = normal_text (read_text extra environ ''stage_hint_key'' ''STAGE_HINT_KEY'' ''semblend_stage''),
       c_capture_write_queue_depth = read_int extra environ ''capture_write_queue_depth'' ''CAPTURE_WRITE_QUEUE_DEPTH'' 64,
       c_capture_async_copy = read_bool extra environ ''capture_async_copy'' ''CAPTURE_ASYNC_COPY'' True,
       c_capture_write_close_timeout_s = ct,
       c_donor_registration_retry_steps = read_int extra environ ''donor_registration_retry_steps'' ''DONOR_REGISTRATION_RETRY_STEPS'' 8,
       c_kv_storage_backend = normal_text (read_text extra environ ''kv_storage_backend'' ''KV_STORAGE_BACKEND'' ''disk''),
       c_kv_memory_max_donors = read_int extra environ ''kv_memory_max_donors'' ''KV_MEMORY_MAX_DONORS'' 16\<rparr>"

definition config_from :: "pyval \<Rightarrow> extra \<Rightarrow> environment \<Rightarrow> config_error + config" where
  "config_from vllm extra environ =
     sum_bind (option_text ''provider_module'' (extra_or_environ extra environ ''provider_module'' ''PROVIDER_MODULE'')) (\<lambda>pm.
     sum_bind (option_text ''provider_class'' (extra_or_environ extra environ ''provider_class'' ''PROVIDER_CLASS'')) (\<lambda>pc.
     sum_bind (read_float extra environ ''min_similarity'' ''MIN_SIMILARITY'' (7 / 10)) (\<lambda>ms.
     sum_bind (read_float extra environ ''min_reuse_ratio'' ''MIN_REUSE_RATIO'' (1 / 2)) (\<lambda>mr.
     sum_bind (option_text ''embedder_type'' (extra_or_environ extra environ ''embedder_type'' ''EMBEDDER'')) (\<lambda>em.
     sum_bind (read_float extra environ ''skip_when_exact_prefix_ratio_at_least'' ''SKIP_EXACT_RATIO'' (1 / 2)) (\<lambda>sk.
     sum_bind (read_float extra environ ''capture_sample_rate'' ''CAPTURE_SAMPLE_RATE'' 1) (\<lambda>cr.
     sum_bind (read_float extra environ ''capture_write_close_timeout_s'' ''CAPTURE_WRITE_CLOSE_TIMEOUT_S'' 5) (\<lambda>ct.
     Inr (read_fields vllm extra environ pm pc ms mr em sk cr ct)))))))))"

definition from_vllm_config ::
  "(string \<Rightarrow> pyval) option \<Rightarrow> environment \<Rightarrow> pyval \<Rightarrow> config_error + config" where
  "from_vllm_config getter environ vllm = config_from vllm (get_extra_config getter vllm) environ"

subsection \<open>Warnings\<close>

datatype config_warning =
    Min_prompt_below_min_span int int
  | Sampled_never rat
  | Sampled_always rat
  | No_registration_retries int
  | No_close_timeout rat
  | Queue_depth_below_one int

definition validation_warnings :: "config \<Rightarrow> config_warning list" where
  "validation_warnings c =
     (if c_mode c = SEMANTIC_SPAN_EXPERIMENTAL \<and> c_min_prompt_tokens c < c_min_semantic_span c
      then [Min_prompt_below_min_span (c_min_prompt_tokens c) (c_min_semantic_span c)] else []) @
     (if c_capture_policy c = ''sampled'' \<and> c_capture_sample_rate c \<le> 0
      then [Sampled_never (c_capture_sample_rate c)] else []) @
     (if c_capture_policy c = ''sampled'' \<and> 1 \<le> c_capture_sample_rate c
      then [Sampled_always (c_capture_sample_rate c)] else []) @
     (if c_donor_registration_retry_steps c \<le> 0
      then [No_registration_retries (c_donor_registration_retry_steps c)] else []) @
     (if c_capture_write_close_timeout_s c \<le> 0
      then [No_close_timeout (c_capture_write_close_timeout_s c)] else []) @
     (if c_capture_write_queue_depth c < 1
      then [Queue_depth_below_one (c_capture_write_queue_depth c)] else [])"

subsection \<open>Writing a configuration down\<close>

text \<open>The extra-config mapping that spells a configuration out.\<close>

definition option_value :: "string option \<Rightarrow> pyval" where
  "option_value x = (case x of None \<Rightarrow> PNone | Some t \<Rightarrow> PStr t)"

definition config_entries :: "config \<Rightarrow> extra" where
  "config_entries c = [
     (''mode'', PStr (mode_value (c_mode c))),
     (''provider'', PStr (c_provider c)),
     (''provider_module'', option_value (c_provider_module c)),
     (''provider_class'', option_value (c_provider_class c)),
     (''model_id'', option_value (c_model_id c)),
     (''min_prompt_tokens'', PInt (c_min_prompt_tokens c)),
     (''min_semantic_span'', PInt (c_min_semantic_span c)),
     (''lookup_precheck'', PBool (c_lookup_precheck c)),
     (''multi_donor_spans'', PBool (c_multi_donor_spans c)),
     (''min_mid_prefill_segment'', PInt (c_min_mid_prefill_segment c)),
     (''min_boundary_tokens'', PInt (c_min_boundary_tokens c)),
     (''evict_filled_blocks_from_prefix_cache'', PBool (c_evict_filled_blocks_from_prefix_cache c)),
     (''min_similarity'', PFloat (c_min_similarity c) []),
     (''min_reuse_ratio'', PFloat (c_min_reuse_ratio c) []),
     (''embedder_type'', option_value (c_embedder_type c)),
     (''chunk_size'', PInt (case c_chunk_size c of None \<Rightarrow> 0 | Some n \<Rightarrow> n)),
     (''max_donors'', PInt (c_max_donors c)),
     (''register_donors'', PBool (c_register_donors c)),
     (''skip_when_exact_prefix_ratio_at_least'', PFloat (c_skip_when_exact_prefix_ratio_at_least c) []),
     (''lookup_top_k'', PInt (c_lookup_top_k c)),
     (''enable_prompt_text'', PBool (c_enable_prompt_text c)),
     (''boundary_sliced_query_text'', PBool (c_boundary_sliced_query_text c)),
     (''min_query_text_chars'', PInt (c_min_query_text_chars c)),
     (''log_decisions'', PBool (c_log_decisions c)),
     (''audit_path'', option_value (c_audit_path c)),
     (''kv_storage_path'', PStr (c_kv_storage_path c)),
     (''max_materialized_tokens'', PInt (c_max_materialized_tokens c)),
     (''allow_non_identical_request_only'', PBool (c_allow_non_identical_request_only c)),
     (''capture_served_requests'', PBool (c_capture_served_requests c)),
     (''capture_policy'', PStr (c_capture_policy c)),
     (''capture_sample_rate'', PFloat (c_capture_sample_rate c) []),
     (''capture_hint_key'', PStr (c_capture_hint_key c)),
     (''stage_hint_key'', PStr (c_stage_hint_key c)),
     (''capture_write_queue_depth'', PInt (c_capture_write_queue_depth c)),
     (''capture_async_copy'', PBool (c_capture_async_copy c)),
     (''capture_write_close_timeout_s'', PFloat (c_capture_write_close_timeout_s c) []),
     (''donor_registration_retry_steps'', PInt (c_donor_registration_retry_steps c)),
     (''kv_storage_backend'', PStr (c_kv_storage_backend c)),
     (''kv_memory_max_donors'', PInt (c_kv_memory_max_donors c))]"

lemma config_lookup:
  shows "map_of (config_entries c) ''mode'' = Some (PStr (mode_value (c_mode c)))"
    and "map_of (config_entries c) ''provider'' = Some (PStr (c_provider c))"
    and "map_of (config_entries c) ''provider_module'' = Some (option_value (c_provider_module c))"
    and "map_of (config_entries c) ''provider_class'' = Some (option_value (c_provider_class c))"
    and "map_of (config_entries c) ''model_id'' = Some (option_value (c_model_id c))"
    and "map_of (config_entries c) ''min_prompt_tokens'' = Some (PInt (c_min_prompt_tokens c))"
    and "map_of (config_entries c) ''min_semantic_span'' = Some (PInt (c_min_semantic_span c))"
    and "map_of (config_entries c) ''lookup_precheck'' = Some (PBool (c_lookup_precheck c))"
    and "map_of (config_entries c) ''multi_donor_spans'' = Some (PBool (c_multi_donor_spans c))"
    and "map_of (config_entries c) ''min_mid_prefill_segment'' = Some (PInt (c_min_mid_prefill_segment c))"
    and "map_of (config_entries c) ''min_boundary_tokens'' = Some (PInt (c_min_boundary_tokens c))"
    and "map_of (config_entries c) ''evict_filled_blocks_from_prefix_cache'' = Some (PBool (c_evict_filled_blocks_from_prefix_cache c))"
    and "map_of (config_entries c) ''min_similarity'' = Some (PFloat (c_min_similarity c) [])"
    and "map_of (config_entries c) ''min_reuse_ratio'' = Some (PFloat (c_min_reuse_ratio c) [])"
    and "map_of (config_entries c) ''embedder_type'' = Some (option_value (c_embedder_type c))"
    and "map_of (config_entries c) ''chunk_size'' = Some (PInt (case c_chunk_size c of None \<Rightarrow> 0 | Some n \<Rightarrow> n))"
    and "map_of (config_entries c) ''max_donors'' = Some (PInt (c_max_donors c))"
    and "map_of (config_entries c) ''register_donors'' = Some (PBool (c_register_donors c))"
    and "map_of (config_entries c) ''skip_when_exact_prefix_ratio_at_least'' = Some (PFloat (c_skip_when_exact_prefix_ratio_at_least c) [])"
    and "map_of (config_entries c) ''lookup_top_k'' = Some (PInt (c_lookup_top_k c))"
    and "map_of (config_entries c) ''enable_prompt_text'' = Some (PBool (c_enable_prompt_text c))"
    and "map_of (config_entries c) ''boundary_sliced_query_text'' = Some (PBool (c_boundary_sliced_query_text c))"
    and "map_of (config_entries c) ''min_query_text_chars'' = Some (PInt (c_min_query_text_chars c))"
    and "map_of (config_entries c) ''log_decisions'' = Some (PBool (c_log_decisions c))"
    and "map_of (config_entries c) ''audit_path'' = Some (option_value (c_audit_path c))"
    and "map_of (config_entries c) ''kv_storage_path'' = Some (PStr (c_kv_storage_path c))"
    and "map_of (config_entries c) ''max_materialized_tokens'' = Some (PInt (c_max_materialized_tokens c))"
    and "map_of (config_entries c) ''allow_non_identical_request_only'' = Some (PBool (c_allow_non_identical_request_only c))"
    and "map_of (config_entries c) ''capture_served_requests'' = Some (PBool (c_capture_served_requests c))"
    and "map_of (config_entries c) ''capture_policy'' = Some (PStr (c_capture_policy c))"
    and "map_of (config_entries c) ''capture_sample_rate'' = Some (PFloat (c_capture_sample_rate c) [])"
    and "map_of (config_entries c) ''capture_hint_key'' = Some (PStr (c_capture_hint_key c))"
    and "map_of (config_entries c) ''stage_hint_key'' = Some (PStr (c_stage_hint_key c))"
    and "map_of (config_entries c) ''capture_write_queue_depth'' = Some (PInt (c_capture_write_queue_depth c))"
    and "map_of (config_entries c) ''capture_async_copy'' = Some (PBool (c_capture_async_copy c))"
    and "map_of (config_entries c) ''capture_write_close_timeout_s'' = Some (PFloat (c_capture_write_close_timeout_s c) [])"
    and "map_of (config_entries c) ''donor_registration_retry_steps'' = Some (PInt (c_donor_registration_retry_steps c))"
    and "map_of (config_entries c) ''kv_storage_backend'' = Some (PStr (c_kv_storage_backend c))"
    and "map_of (config_entries c) ''kv_memory_max_donors'' = Some (PInt (c_kv_memory_max_donors c))"
  by (simp_all add: config_entries_def)

subsection \<open>Normal text\<close>

lemma is_space_lower [simp]: "is_space (lower_char c) = is_space c"
proof -
  have "lower_char c = c \<or> 65 \<le> (of_char c :: nat) \<and> (of_char c :: nat) \<le> 90 \<and> lower_char c = char_of ((of_char c :: nat) + 32)"
    by (simp add: lower_char_def Let_def)
  then show ?thesis
  proof (elim disjE conjE)
    assume r: "65 \<le> (of_char c :: nat)" "(of_char c :: nat) \<le> 90" "lower_char c = char_of ((of_char c :: nat) + 32)"
    have sp: "(of_char d :: nat) \<le> 32" if "is_space d" for d using that by (auto simp: is_space_def)
    have "(of_char (lower_char c) :: nat) = of_char c + 32" using r by (simp add: of_char_of)
    then have "\<not> is_space (lower_char c)" using sp [of "lower_char c"] r(1) by linarith
    moreover have "\<not> is_space c" using sp [of c] r(1) by linarith
    ultimately show ?thesis by simp
  qed simp
qed

lemma lower_lower [simp]: "lower_char (lower_char c) = lower_char c"
proof (cases "65 \<le> (of_char c :: nat) \<and> (of_char c :: nat) \<le> 90")
  case True
  define d where "d = lower_char c"
  have "(of_char d :: nat) = of_char c + 32" using True by (simp add: d_def lower_char_def Let_def of_char_of)
  then have "lower_char d = d" using True by (simp add: lower_char_def Let_def)
  then show ?thesis by (simp add: d_def)
qed (auto simp: lower_char_def Let_def)

lemma strip_ends:
  assumes "py_strip t \<noteq> []"
  shows "\<not> is_space (hd (py_strip t))" and "\<not> is_space (last (py_strip t))"
proof -
  define y where "y = dropWhile is_space t"
  have s: "py_strip t = rev (dropWhile is_space (rev y))" by (simp add: py_strip_def y_def)
  then have ne: "dropWhile is_space (rev y) \<noteq> []" using assms by simp
  show "\<not> is_space (last (py_strip t))"
    using hd_dropWhile [OF ne] ne by (simp add: s last_rev)
  have "rev y = takeWhile is_space (rev y) @ dropWhile is_space (rev y)" by simp
  then have "y = py_strip t @ rev (takeWhile is_space (rev y))" unfolding s by (metis rev_append rev_rev_ident)
  then have h: "hd y = hd (py_strip t)" "y \<noteq> []" using assms by (metis hd_append2, auto)
  then show "\<not> is_space (hd (py_strip t))" using hd_dropWhile [of is_space t] by (simp add: y_def)
qed

lemma normal_text_idem: "normal_text (normal_text t) = normal_text t"
proof (cases "py_strip t = []")
  case False
  have m: "hd (map lower_char xs) = lower_char (hd xs)" "last (map lower_char xs) = lower_char (last xs)"
    if "xs \<noteq> []" for xs using that by (simp_all add: hd_map last_map)
  have "py_strip (py_lower (py_strip t)) = py_lower (py_strip t)"
    using False strip_ends [OF False] by (intro strip_no_space) (simp_all add: py_lower_def m)
  then show ?thesis by (simp add: normal_text_def py_lower_def comp_def)
next
  case True
  have "py_strip [] = []" by (simp add: py_strip_def)
  then show ?thesis by (simp add: normal_text_def True py_lower_def)
qed

subsection \<open>Properties\<close>

definition well_formed_config :: "config \<Rightarrow> bool" where
  "well_formed_config c \<longleftrightarrow> c_capture_policy c \<in> set capture_policies \<and> c_chunk_size c \<noteq> Some 0
     \<and> c_audit_path c \<noteq> Some [] \<and> normal_text (c_stage_hint_key c) = c_stage_hint_key c
     \<and> normal_text (c_capture_hint_key c) = c_capture_hint_key c
     \<and> normal_text (c_kv_storage_backend c) = c_kv_storage_backend c"

lemma config_from_Inr:
  assumes "config_from vllm extra environ = Inr c"
  shows "c_capture_policy c = read_capture_policy extra environ"
    and "c_chunk_size c = (let n = read_int extra environ ''chunk_size'' ''CHUNK_SIZE'' 0 in if n = 0 then None else Some n)"
    and "c_audit_path c \<noteq> Some []" and "\<exists>t. c_stage_hint_key c = normal_text t"
    and "\<exists>t. c_capture_hint_key c = normal_text t" and "\<exists>t. c_kv_storage_backend c = normal_text t"
proof -
  obtain pm pc ms mr em sk cr ct where "c = read_fields vllm extra environ pm pc ms mr em sk cr ct"
    using assms by (auto simp: config_from_def sum_bind_Inr)
  then show "c_capture_policy c = read_capture_policy extra environ"
    "c_chunk_size c = (let n = read_int extra environ ''chunk_size'' ''CHUNK_SIZE'' 0 in if n = 0 then None else Some n)"
    "c_audit_path c \<noteq> Some []" "\<exists>t. c_stage_hint_key c = normal_text t"
    "\<exists>t. c_capture_hint_key c = normal_text t" "\<exists>t. c_kv_storage_backend c = normal_text t"
    by (simp_all add: read_fields_def Let_def) blast+
qed

text \<open>
  C36. Every configuration the connector starts with is well-formed, whatever the extra-config mapping and
  the environment hold: the capture policy is one of the three, a chunk size and an audit path are absent
  rather than zero or empty, and the hint keys and the storage backend are stripped and in lower case, as
  the readers of requests and the storage code compare them.
\<close>

theorem configs_are_well_formed:
  "case from_vllm_config getter environ vllm of Inl _ \<Rightarrow> True | Inr c \<Rightarrow> well_formed_config c"
proof (cases "from_vllm_config getter environ vllm")
  case (Inr c)
  note r = config_from_Inr [OF Inr [unfolded from_vllm_config_def]]
  have "c_capture_policy c \<in> set capture_policies"
    unfolding r(1) by (simp add: read_capture_policy_def Let_def capture_policies_def)
  moreover have "c_chunk_size c \<noteq> Some 0" unfolding r(2) by (simp add: Let_def)
  ultimately show ?thesis using r(3-6) normal_text_idem by (auto simp: Inr well_formed_config_def)
qed simp

text \<open>
  C35. A configuration survives being spelled out. The extra-config mapping that lists every field of a
  well-formed configuration, its optional texts absent rather than empty, is read back as exactly that
  configuration, all 39 fields of it.
\<close>

theorem config_roundtrip:
  assumes "well_formed_config c" and "c_provider_module c \<noteq> Some []" and "c_provider_class c \<noteq> Some []"
    and "c_model_id c \<noteq> Some []" and "c_embedder_type c \<noteq> Some []"
  shows "from_vllm_config None Map.empty (PObj t [(''kv_transfer_config'',
      PObj t [(''kv_connector_extra_config'', PMap t (config_entries c))])]) = Inr c"
proof -
  define vllm where "vllm = PObj t [(''kv_transfer_config'',
      PObj t [(''kv_connector_extra_config'', PMap t (config_entries c))])]"
  define extra where "extra = config_entries c"
  have x: "get_extra_config None vllm = extra"
    by (simp add: get_extra_config_def vllm_def extra_def getattr_def Let_def)
  have mc: "getattr vllm ''model_config'' = PNone" by (simp add: vllm_def getattr_def)
  have "map_of extra k = map_of (config_entries c) k" for k by (simp add: extra_def)
  note find = this config_lookup
  have int: "read_int extra Map.empty key var d = i" if "map_of extra key = Some (PInt i)" for key var d i
    using that by (simp add: read_int_def extra_get_def)
  have bool: "read_bool extra Map.empty key var d = b" if "map_of extra key = Some (PBool b)" for key var d b
    using that by (simp add: read_bool_def extra_get_def coerce_bool_def)
  have float: "read_float extra Map.empty key var d = Inr r" if "map_of extra key = Some (PFloat r [])" for key var d r
    using that by (simp add: read_float_def extra_get_def)
  have txt_: "read_text extra Map.empty key var d = u" if "map_of extra key = Some (PStr u)" for key var d u
    using that by (simp add: read_text_def extra_get_def)
  have opt: "option_text key (extra_or_environ extra Map.empty key var) = Inr u"
    if "map_of extra key = Some (option_value u)" "u \<noteq> Some []" for key var u
    using that by (cases u) (simp_all add: option_text_def extra_or_environ_def get_item_def py_or_def environ_value_def
        option_value_def)
  have mode: "read_mode extra Map.empty = c_mode c"
  proof -
    have "map_of extra ''mode'' = Some (PStr (mode_value (c_mode c)))" by (simp add: find)
    then have "read_text extra Map.empty ''mode'' ''MODE'' (mode_value DISCOVERY_ONLY) = mode_value (c_mode c)" by (rule txt_)
    then show ?thesis by (cases "c_mode c") (simp_all add: read_mode_def mode_of_text_def all_modes_def)
  qed
  have policy: "read_capture_policy extra Map.empty = c_capture_policy c"
  proof -
    have "map_of extra ''capture_policy'' = Some (PStr (c_capture_policy c))" by (simp add: find)
    then have "read_text extra Map.empty ''capture_policy'' ''CAPTURE_POLICY'' ''all'' = c_capture_policy c" by (rule txt_)
    moreover have "normal_text (c_capture_policy c) = c_capture_policy c"
      using assms(1) by (auto simp: well_formed_config_def capture_policies_def normal_text_def py_lower_def
          lower_char_def py_strip_def is_space_def)
    ultimately show ?thesis using assms(1) by (simp add: read_capture_policy_def well_formed_config_def)
  qed
  have model: "read_model_id vllm extra Map.empty = c_model_id c"
  proof -
    have "map_of extra ''model_id'' = Some (option_value (c_model_id c))" by (simp add: find)
    then show ?thesis
      using assms(4) by (cases "c_model_id c")
        (simp_all add: read_model_id_def extra_or_environ_def get_item_def py_or_def environ_value_def option_value_def
          mc getattr_def [of PNone] Let_def)
  qed
  have chunk: "(let n = read_int extra Map.empty ''chunk_size'' ''CHUNK_SIZE'' 0 in if n = 0 then None else Some n)
      = c_chunk_size c"
  proof -
    have "map_of extra ''chunk_size'' = Some (PInt (case c_chunk_size c of None \<Rightarrow> 0 | Some n \<Rightarrow> n))"
      by (simp add: find)
    then show ?thesis using assms(1) by (auto simp: int well_formed_config_def Let_def split: option.splits)
  qed
  have audit: "(let u = py_str (py_or (extra_or_environ extra Map.empty ''audit_path'' ''AUDIT_PATH'') (PStr []))
      in if u = [] then None else Some u) = c_audit_path c"
  proof -
    have "map_of extra ''audit_path'' = Some (option_value (c_audit_path c))" by (simp add: find)
    then show ?thesis
      using assms(1) by (cases "c_audit_path c")
        (simp_all add: extra_or_environ_def get_item_def py_or_def environ_value_def option_value_def well_formed_config_def)
  qed
  have norm: "normal_text (c_stage_hint_key c) = c_stage_hint_key c"
    "normal_text (c_capture_hint_key c) = c_capture_hint_key c"
    "normal_text (c_kv_storage_backend c) = c_kv_storage_backend c"
    using assms(1) by (simp_all add: well_formed_config_def)
  note vals = mode policy model chunk audit
  have "config_from vllm extra Map.empty = Inr c"
    unfolding config_from_def read_fields_def vals
    by (simp add: int bool float txt_ opt find assms(2-5) norm)
  then show ?thesis unfolding from_vllm_config_def vllm_def [symmetric] x .
qed

lemma read_float_overflow:
  assumes "read_float extra environ key var d = Inl Overflow"
  shows "\<exists>i. map_of extra key = Some (PInt i) \<and> float_limit \<le> of_int \<bar>i\<bar>"
proof -
  define v where "v = extra_get extra environ key var (PFloat d [])"
  have "py_float v = Inl OverflowError"
    using assms by (auto simp: read_float_def v_def [symmetric] split: sum.splits pyfloat.splits if_splits)
  then obtain i where v: "v = PInt i" and i: "float_limit \<le> of_int \<bar>i\<bar>"
    by (cases v) (auto simp: float_of_text_def Let_def split: if_splits prod.splits option.splits)
  have "map_of extra key = Some (PInt i)"
    using v by (auto simp: v_def extra_get_def split: option.splits)
  then show ?thesis using i by blast
qed

lemma option_text_overflow: "option_text key v \<noteq> Inl Overflow"
  by (simp add: option_text_def split: pyval.splits)

definition float_keys :: "string list" where
  "float_keys = [''min_similarity'', ''min_reuse_ratio'', ''skip_when_exact_prefix_ratio_at_least'',
     ''capture_sample_rate'', ''capture_write_close_timeout_s'']"

lemma config_from_overflow:
  assumes fits: "\<And>key var d. key \<in> set float_keys \<Longrightarrow> read_float extra environ key var d \<noteq> Inl Overflow"
  shows "config_from vllm extra environ \<noteq> Inl Overflow"
proof -
  have five: "read_float extra environ ''min_similarity'' var d \<noteq> Inl Overflow"
    "read_float extra environ ''min_reuse_ratio'' var d \<noteq> Inl Overflow"
    "read_float extra environ ''skip_when_exact_prefix_ratio_at_least'' var d \<noteq> Inl Overflow"
    "read_float extra environ ''capture_sample_rate'' var d \<noteq> Inl Overflow"
    "read_float extra environ ''capture_write_close_timeout_s'' var d \<noteq> Inl Overflow" for var d
    by (rule fits; simp add: float_keys_def)+
  show ?thesis unfolding config_from_def sum_bind_Inl by (simp only: option_text_overflow five) simp
qed


subsection \<open>Witnesses\<close>

lemma default_well_formed: "well_formed_config default_config"
  by code_simp

theorem config_roundtrip_witness:
  "from_vllm_config None Map.empty (PObj [] [(''kv_transfer_config'',
      PObj [] [(''kv_connector_extra_config'', PMap [] (config_entries default_config))])]) = Inr default_config"
  by (rule config_roundtrip [OF default_well_formed]) (simp_all add: default_config_def)

definition huge_vllm :: pyval where
  "huge_vllm = PObj [] [(''kv_transfer_config'',
     PObj [] [(''kv_connector_extra_config'', PMap [] [(''min_similarity'', PInt (2 ^ 1024))])])]"

lemma huge_extra: "get_extra_config None huge_vllm = [(''min_similarity'', PInt (2 ^ 1024))]"
  by (simp add: get_extra_config_def huge_vllm_def getattr_def Let_def del: power_numeral)

lemma huge_read: "from_vllm_config None Map.empty huge_vllm = Inl Overflow"
proof -
  have "float_limit \<le> of_int \<bar>2 ^ 1024 :: int\<bar>" unfolding float_limit_def of_int_le_iff by simp
  then have "read_float [(''min_similarity'', PInt (2 ^ 1024))] Map.empty ''min_similarity'' ''MIN_SIMILARITY'' (7 / 10)
      = Inl Overflow" by (simp add: read_float_def extra_get_def del: power_numeral)
  then show ?thesis
    by (simp add: from_vllm_config_def huge_extra config_from_def option_text_def extra_or_environ_def get_item_def
        py_or_def environ_value_def del: power_numeral)
qed


end
