(* ===== verification/EngineGate.thy ===== *)
theory EngineGate
  imports Numbers AuditTrail
begin

text \<open>
  The startup gate, \<open>_check_engine_compatibility\<close> and \<open>_check_hash_block_size\<close> of \<open>connector.py\<close>. Its
  verdict is \<open>e_compat_decline\<close> of the environment the hooks run in. What it asks of vLLM is the
  argument \<open>engine_lib\<close>: the resolved block sizes, and the predicate and the iterator over layer specs,
  each with the ways the import or the call can fail. \<open>Startup\<close> runs it.
\<close>

subsection \<open>The gate\<close>

datatype 'a engine_answer = Unimportable | Failing | Answer 'a

record engine_lib =
  el_hash_block_size :: "pyval engine_answer"
  el_specs :: "((pyval \<Rightarrow> bool) \<times> (pyval \<Rightarrow> pyval list)) option"

datatype gate_decline =
    Context_parallel int int
  | Not_one_group nat
  | Hash_block_differs int int
  | Not_full_attention pyval
  | Packs_head_slots pyval pyval
  | Unequal_halves pyval pyval
  | States_per_token pyval
  | Recycles_blocks

datatype gate_gap =
    Cache_config_unresolved
  | Spec_import_failed
  | Block_size_unavailable
  | Block_size_failed

text \<open>A check's outcome: what was left unchecked, and why the engine is declined.\<close>

type_synonym verdict = "gate_gap list \<times> gate_decline option"

definition parallel_size :: "pyval \<Rightarrow> string \<Rightarrow> py_error + int" where
  "parallel_size pc name = py_int (py_or (getattr_or pc name (PInt 1)) (PInt 1))"

definition check_layer_spec :: "pyval \<Rightarrow> gate_decline option" where
  "check_layer_spec spec =
     (let slots = getattr spec ''num_head_slots'';
          kv_heads = getattr spec ''num_kv_heads'';
          heads = getattr_or spec ''num_heads'' kv_heads;
          head = getattr spec ''head_size'';
          head_v = getattr_or spec ''head_size_v'' head;
          states = getattr_or spec ''tokens_per_state'' (PInt 1)
      in if slots \<noteq> PNone \<or> \<not> py_eq heads kv_heads then Some (Packs_head_slots heads kv_heads)
         else if head \<noteq> PNone \<and> \<not> py_eq head_v head then Some (Unequal_halves head head_v)
         else if \<not> py_eq states (PInt 1) then Some (States_per_token states)
         else if getattr spec ''rswa_window'' \<noteq> PNone then Some Recycles_blocks
         else None)"

fun check_layer_specs :: "pyval list \<Rightarrow> gate_decline option" where
  "check_layer_specs [] = None"
| "check_layer_specs (spec # specs) =
     (case check_layer_spec spec of Some d \<Rightarrow> Some d | None \<Rightarrow> check_layer_specs specs)"

definition check_hash_block_size :: "engine_lib \<Rightarrow> int \<Rightarrow> py_error + verdict" where
  "check_hash_block_size lib block_size =
     (case el_hash_block_size lib of
        Unimportable \<Rightarrow> Inr ([Block_size_unavailable], None)
      | Failing \<Rightarrow> Inr ([Block_size_failed], None)
      | Answer v \<Rightarrow>
          (case py_int v of
             Inl x \<Rightarrow> Inl x
           | Inr h \<Rightarrow> Inr ([], if h \<noteq> block_size then Some (Hash_block_differs h block_size) else None)))"

definition check_groups :: "engine_lib \<Rightarrow> int \<Rightarrow> pyval list \<Rightarrow> py_error + verdict" where
  "check_groups lib block_size groups =
     (if length groups \<noteq> 1 then Inr ([], Some (Not_one_group (length groups)))
      else case check_hash_block_size lib block_size of
             Inl x \<Rightarrow> Inl x
           | Inr (gaps, Some d) \<Rightarrow> Inr (gaps, Some d)
           | Inr (gaps, None) \<Rightarrow>
               (case el_specs lib of
                  None \<Rightarrow> Inr (gaps @ [Spec_import_failed], None)
                | Some (is_full, layers) \<Rightarrow>
                    (let spec = getattr (hd groups) ''kv_cache_spec''
                     in Inr (gaps, if spec = PNone \<or> \<not> is_full spec then Some (Not_full_attention spec)
                                   else check_layer_specs (layers spec)))))"

definition check_engine_compatibility ::
  "engine_lib \<Rightarrow> int \<Rightarrow> pyval \<Rightarrow> pyval \<Rightarrow> py_error + verdict" where
  "check_engine_compatibility lib block_size vllm kv_cache_config =
     (let pc = getattr vllm ''parallel_config''
      in case parallel_size pc ''decode_context_parallel_size'' of
           Inl x \<Rightarrow> Inl x
         | Inr decode_cp \<Rightarrow>
             (case parallel_size pc ''prefill_context_parallel_size'' of
                Inl x \<Rightarrow> Inl x
              | Inr prefill_cp \<Rightarrow>
                  if decode_cp \<noteq> 1 \<or> prefill_cp \<noteq> 1
                  then Inr ([], Some (Context_parallel decode_cp prefill_cp))
                  else (let groups = getattr kv_cache_config ''kv_cache_groups''
                        in if \<not> truthy groups then Inr ([Cache_config_unresolved], None)
                           else case groups of
                                  PSeq _ gs \<Rightarrow> check_groups lib block_size gs
                                | _ \<Rightarrow> Inl TypeError)))"

definition connector_block_size :: "pyval \<Rightarrow> py_error + int" where
  "connector_block_size vllm = py_int (getattr_or (getattr vllm ''cache_config'') ''block_size'' (PInt 16))"

subsection \<open>What a pass means\<close>

text \<open>One slot per token and KV head, K and V equal halves, at a block index that stays put.\<close>

definition dense_layer :: "pyval \<Rightarrow> bool" where
  "dense_layer spec \<longleftrightarrow>
     getattr spec ''num_head_slots'' = PNone
     \<and> (hasattr spec ''num_heads'' \<longrightarrow> py_eq (getattr spec ''num_heads'') (getattr spec ''num_kv_heads''))
     \<and> (hasattr spec ''head_size_v'' \<longrightarrow> getattr spec ''head_size'' = PNone
          \<or> py_eq (getattr spec ''head_size_v'') (getattr spec ''head_size''))
     \<and> (hasattr spec ''tokens_per_state'' \<longrightarrow> py_eq (getattr spec ''tokens_per_state'') (PInt 1))
     \<and> getattr spec ''rswa_window'' = PNone"

lemma py_eq_refl [simp]: "py_eq v v"
  by (simp add: py_eq_def split: option.splits)

lemma check_layer_spec_None: "check_layer_spec spec = None \<longleftrightarrow> dense_layer spec"
  by (simp add: check_layer_spec_def dense_layer_def getattr_or_def Let_def)

lemma check_layer_specs_None: "check_layer_specs specs = None \<longleftrightarrow> (\<forall>spec \<in> set specs. dense_layer spec)"
  by (induction specs) (auto simp: check_layer_spec_None [symmetric] split: option.splits)


subsection \<open>Witness\<close>

definition dense_spec :: pyval where
  "dense_spec = PObj [] [(''num_kv_heads'', PInt 8), (''head_size'', PInt 128)]"

definition dense_lib :: engine_lib where
  "dense_lib = \<lparr>el_hash_block_size = Answer (PInt 16), el_specs = Some (\<lambda>_. True, \<lambda>s. [s])\<rparr>"

definition dense_cache :: pyval where
  "dense_cache = PObj [] [(''kv_cache_groups'', PSeq [] [PObj [] [(''kv_cache_spec'', dense_spec)]])]"


end
