(* ===== verification/Semblend.thy ===== *)
theory Semblend
  imports Provider
begin

text \<open>
  The SemBlend provider, \<open>providers/semblend.py\<close>: the two translations of a pipeline result into
  segments, the diagnostics of a miss, and the adapter from the provider protocol to the pipeline. The
  pipeline itself is another package: its methods are the record \<open>pipeline_ops\<close>, over its state \<open>'q\<close>,
  and its result is the record of the attributes the adapter reads, an absent one \<open>None\<close>. Its numbers are
  exact rationals; \<open>repr\<close> is the text of a float. \<open>Startup\<close> builds the pipeline.
\<close>

subsection \<open>The pipeline\<close>

record pipeline_result =
  pr_found :: bool
  pr_donor_id :: "string option"
  pr_similarity :: rat
  pr_position_map :: "(int list \<times> int list) option"
  pr_multi_donor_position_map :: "(string list \<times> int list \<times> int list) option"
  pr_donor_tokens :: "int list option"
  pr_reuse_ratio :: "rat option"
  pr_confidence_tier :: "pyval option"
  pr_fuzzy_confidence :: "rat option"
  pr_rejection_reason :: pyval
  pr_timings :: "(string \<times> pyval) list option"

record register_call =
  rc_request_id :: string
  rc_token_ids :: "int list"
  rc_prompt_text :: string
  rc_extra_key :: string
  rc_tenant :: "string option"
  rc_template :: "string option"
  rc_cache_salt :: "string option option"

text \<open>
  \<open>pp_find\<close> is called with the tokens, the prompt text, the top-k cut and the key. The donor store of the
  pipeline, if it has one, may list a donor's tokens, count the donors a namespace sees (\<open>None\<close>: it
  raised) and carry its size.
\<close>

record 'q pipeline_ops =
  pp_find :: "'q \<Rightarrow> int list \<Rightarrow> string \<Rightarrow> int \<Rightarrow> string \<Rightarrow> (string + pipeline_result option) \<times> 'q"
  pp_register :: "'q \<Rightarrow> register_call \<Rightarrow> (string + unit) \<times> 'q"
  pp_register_params :: "string list"
  pp_clear :: "'q \<Rightarrow> 'q"
  pp_run_possible :: "('q \<Rightarrow> int list \<Rightarrow> string \<Rightarrow> int \<Rightarrow> int \<Rightarrow> string + bool option) option"
  pp_has_store :: bool
  pp_donor_tokens :: "('q \<Rightarrow> string \<Rightarrow> int list option) option"
  pp_visible_donors :: "('q \<Rightarrow> string \<Rightarrow> int option) option"
  pp_store_size :: "'q \<Rightarrow> pyval"

subsection \<open>Segments\<close>

text \<open>
  Both loops collect a run while the next pair continues the last one. A segment is its first pair and
  its length.
\<close>

fun split_runs :: "('a \<Rightarrow> 'a \<Rightarrow> bool) \<Rightarrow> 'a list \<Rightarrow> 'a list \<Rightarrow> 'a list list" where
  "split_runs cont run [] = (if run = [] then [] else [run])"
| "split_runs cont run (x # xs) =
     (if run \<noteq> [] \<and> \<not> cont (last run) x then run # split_runs cont [x] xs
      else split_runs cont (run @ [x]) xs)"

type_synonym aligned = "string \<times> int \<times> int"

definition continues :: "aligned \<Rightarrow> aligned \<Rightarrow> bool" where
  "continues p q \<longleftrightarrow> fst q = fst p \<and> fst (snd q) = fst (snd p) + 1 \<and> snd (snd q) = snd (snd p) + 1"

definition run_segment :: "aligned list \<Rightarrow> segment" where
  "run_segment run =
     (case hd run of (d, dp, tp) \<Rightarrow>
        \<lparr>sg_donor_id = d, sg_donor_start = dp, sg_target_start = tp, sg_token_count = len run, sg_block_refs = None\<rparr>)"

definition some_segments :: "segment list \<Rightarrow> segment list option" where
  "some_segments segs = (if segs = [] then None else Some segs)"

definition segments_from_position_map :: "string \<Rightarrow> pipeline_result \<Rightarrow> segment list option" where
  "segments_from_position_map donor result =
     (case pr_position_map result of
        None \<Rightarrow> None
      | Some (donors, targets) \<Rightarrow>
          if donors = [] \<or> length donors \<noteq> length targets then None
          else some_segments (map run_segment
                 (split_runs continues [] (map (Pair donor) (zip donors targets)))))"

definition identical_at :: "(string \<Rightarrow> int list option) \<Rightarrow> int list \<Rightarrow> aligned \<Rightarrow> bool" where
  "identical_at tokens_of target p =
     (case p of (did, d, t) \<Rightarrow>
        (let tokens = opt_list (tokens_of did)
         in 0 \<le> d \<and> d < len tokens \<and> 0 \<le> t \<and> t < len target \<and> tokens ! nat d = target ! nat t))"

definition kept_positions ::
  "(string \<Rightarrow> int list option) \<Rightarrow> int list \<Rightarrow> string list \<Rightarrow> int list \<Rightarrow> int list \<Rightarrow> aligned list" where
  "kept_positions tokens_of target ids donors targets =
     filter (identical_at tokens_of target) (sort_key (snd \<circ> snd) (zip ids (zip donors targets)))"

definition segments_from_multi_donor_map ::
  "(string \<Rightarrow> int list option) option \<Rightarrow> pipeline_result \<Rightarrow> int list \<Rightarrow> segment list option" where
  "segments_from_multi_donor_map get_tokens result target =
     (case pr_multi_donor_position_map result of
        None \<Rightarrow> None
      | Some (ids, donors, targets) \<Rightarrow>
          if donors = [] \<or> length ids \<noteq> length donors \<or> length donors \<noteq> length targets then None
          else case get_tokens of
                 None \<Rightarrow> None
               | Some tokens_of \<Rightarrow>
                   some_segments (map run_segment
                     (split_runs continues [] (kept_positions tokens_of target ids donors targets))))"

subsection \<open>Diagnostics of a miss\<close>

definition donor_count :: "'q pipeline_ops \<Rightarrow> 'q \<Rightarrow> string option \<Rightarrow> pyval \<times> pyval" where
  "donor_count ops q ns =
     (if \<not> pp_has_store ops then (PNone, PNone)
      else case (case (pp_visible_donors ops, ns) of (Some visible, Some n) \<Rightarrow> visible q n | _ \<Rightarrow> None) of
             Some n \<Rightarrow> (PInt n, PStr ''namespace'')
           | None \<Rightarrow> (case pp_store_size ops q of PInt n \<Rightarrow> (PInt n, PStr ''store'') | _ \<Rightarrow> (PNone, PNone)))"

definition bare_reason :: "pyval \<Rightarrow> pyval" where
  "bare_reason reason =
     (case reason of
        PStr t \<Rightarrow> if t = [] then PNone
                  else if take 14 t = ''pipeline_error'' then PStr ''pipeline_error''
                  else PStr t
      | _ \<Rightarrow> PNone)"

definition positive_float :: "(rat \<Rightarrow> string) \<Rightarrow> rat \<Rightarrow> pyval" where
  "positive_float repr r = (if 0 < r then PFloat r (repr r) else PNone)"

definition miss_diagnostics ::
  "(rat \<Rightarrow> string) \<Rightarrow> 'q pipeline_ops \<Rightarrow> 'q \<Rightarrow> pipeline_result option \<Rightarrow> string option \<Rightarrow> (string \<times> pyval) list" where
  "miss_diagnostics repr ops q result ns =
     (let (count, scope) = donor_count ops q ns
      in [(''rejection_reason'', case result of None \<Rightarrow> PStr ''no_result'' | Some r \<Rightarrow> bare_reason (pr_rejection_reason r)),
          (''donor_count'', count), (''donor_count_scope'', scope),
          (''best_similarity'', case result of None \<Rightarrow> PNone | Some r \<Rightarrow> positive_float repr (pr_similarity r)),
          (''reuse_ratio'', case result of
              None \<Rightarrow> PNone
            | Some r \<Rightarrow> (case pr_reuse_ratio r of None \<Rightarrow> PNone | Some x \<Rightarrow> positive_float repr x))])"

subsection \<open>The adapter\<close>

record 'q semblend_provider =
  sb_pipeline :: 'q
  sb_last_miss :: "(string \<times> pyval) list option"

definition or_zero :: "rat option \<Rightarrow> rat" where
  "or_zero x = (case x of None \<Rightarrow> 0 | Some r \<Rightarrow> r)"

definition pipeline_segments ::
  "'q pipeline_ops \<Rightarrow> 'q \<Rightarrow> string \<Rightarrow> pipeline_result \<Rightarrow> int list \<Rightarrow> segment list option" where
  "pipeline_segments ops q donor result target =
     (case segments_from_multi_donor_map (map_option (\<lambda>g. g q) (pp_donor_tokens ops)) result target of
        Some segs \<Rightarrow> Some segs
      | None \<Rightarrow> segments_from_position_map donor result)"

definition hit_result ::
  "(rat \<Rightarrow> string) \<Rightarrow> string \<Rightarrow> pipeline_result \<Rightarrow> segment list option \<Rightarrow> lookup_result" where
  "hit_result repr donor result segs =
     \<lparr>lr_donor_id = donor, lr_similarity = pr_similarity result,
      lr_reusable_token_count = sum_list (map sg_token_count (opt_list segs)), lr_kind = K_DISCOVERY_ONLY,
      lr_donor_token_ids = Some (opt_list (pr_donor_tokens result)), lr_block_refs = None, lr_segments = segs,
      lr_quality_signals =
        [(''reuse_ratio'', PFloat (or_zero (pr_reuse_ratio result)) (repr (or_zero (pr_reuse_ratio result)))),
         (''confidence_tier'', case pr_confidence_tier result of None \<Rightarrow> PStr ''unknown'' | Some v \<Rightarrow> v),
         (''fuzzy_confidence'', PFloat (or_zero (pr_fuzzy_confidence result)) (repr (or_zero (pr_fuzzy_confidence result)))),
         (''rejection_reason'', pr_rejection_reason result)],
      lr_metadata = [(''timings'', PMap [] (opt_list (pr_timings result)))],
      lr_reason = Some ''semblend_discovery''\<rparr>"

definition found_donor :: "pipeline_result option \<Rightarrow> (string \<times> pipeline_result) option" where
  "found_donor result =
     (case result of
        None \<Rightarrow> None
      | Some r \<Rightarrow> (case pr_donor_id r of Some (c # cs) \<Rightarrow> if pr_found r then Some (c # cs, r) else None | _ \<Rightarrow> None))"

definition semblend_lookup ::
  "(rat \<Rightarrow> string) \<Rightarrow> config \<Rightarrow> 'q pipeline_ops \<Rightarrow> 'q semblend_provider \<Rightarrow> lookup_request
     \<Rightarrow> (string + lookup_result option) \<times> 'q semblend_provider" where
  "semblend_lookup repr c ops p req =
     (case pp_find ops (sb_pipeline p) (lq_token_ids req) (opt_list (lq_prompt_text req)) (c_lookup_top_k c)
             (lq_namespace req) of
        (Inl x, q) \<Rightarrow> (Inl x, p\<lparr>sb_pipeline := q\<rparr>)
      | (Inr result, q) \<Rightarrow>
          (case found_donor result of
             None \<Rightarrow>
               (Inr None, \<lparr>sb_pipeline = q,
                  sb_last_miss = Some (miss_diagnostics repr ops q result (Some (lq_namespace req)))\<rparr>)
           | Some (donor, r) \<Rightarrow>
               (Inr (Some (hit_result repr donor r (pipeline_segments ops q donor r (lq_token_ids req)))),
                \<lparr>sb_pipeline = q, sb_last_miss = None\<rparr>)))"

text \<open>A routing value travels as its text, when it is truthy and the pipeline's method takes it.\<close>

definition routing_value :: "'q pipeline_ops \<Rightarrow> string \<Rightarrow> pyval \<Rightarrow> string option" where
  "routing_value ops name v = (if truthy v \<and> name \<in> set (pp_register_params ops) then Some (py_str v) else None)"

definition semblend_register ::
  "'q pipeline_ops \<Rightarrow> 'q semblend_provider \<Rightarrow> donor_registration \<Rightarrow> (string + unit) \<times> 'q semblend_provider" where
  "semblend_register ops p d =
     (if \<not> dr_has_captured_kv d then (Inr (), p)
      else let md = dr_metadata d;
               call = \<lparr>rc_request_id = dr_donor_id d, rc_token_ids = dr_token_ids d,
                 rc_prompt_text = opt_list (dr_prompt_text d), rc_extra_key = dr_namespace d,
                 rc_tenant = routing_value ops ''tenant'' (py_or (get_item md ''tenant'') (get_item md ''tenant_id'')),
                 rc_template = routing_value ops ''template'' (py_or (get_item md ''template'') (get_item md ''template_id'')),
                 rc_cache_salt = (if ''cache_salt'' \<in> set (pp_register_params ops) then Some (dr_cache_salt d) else None)\<rparr>;
               (r, q) = pp_register ops (sb_pipeline p) call
           in (r, p\<lparr>sb_pipeline := q\<rparr>))"

definition semblend_clear :: "'q pipeline_ops \<Rightarrow> 'q semblend_provider \<Rightarrow> 'q semblend_provider" where
  "semblend_clear ops p = p\<lparr>sb_pipeline := pp_clear ops (sb_pipeline p)\<rparr>"

definition semblend_run_possible ::
  "'q pipeline_ops \<Rightarrow> 'q semblend_provider \<Rightarrow> int list \<Rightarrow> string \<Rightarrow> int \<Rightarrow> int \<Rightarrow> string + bool option" where
  "semblend_run_possible ops p ts ns start n =
     (case pp_run_possible ops of None \<Rightarrow> Inr None | Some check \<Rightarrow> check (sb_pipeline p) ts ns start n)"

definition semblend_ops :: "(rat \<Rightarrow> string) \<Rightarrow> config \<Rightarrow> 'q pipeline_ops \<Rightarrow> 'q semblend_provider provider_ops" where
  "semblend_ops repr c ops =
     \<lparr>po_lookup = semblend_lookup repr c ops, po_register_donor = semblend_register ops,
      po_clear_donors = semblend_clear ops, po_span_run_possible = Some (semblend_run_possible ops),
      po_last_lookup_diagnostics = Some sb_last_miss\<rparr>"

subsection \<open>Runs\<close>

text \<open>The aligned positions a segment stands for.\<close>

definition expand_segment :: "segment \<Rightarrow> aligned list" where
  "expand_segment g =
     map (\<lambda>i. (sg_donor_id g, sg_donor_start g + int i, sg_target_start g + int i)) [0..<nat (sg_token_count g)]"

definition is_run :: "aligned list \<Rightarrow> bool" where
  "is_run run \<longleftrightarrow> run \<noteq> [] \<and> (\<forall>i. Suc i < length run \<longrightarrow> continues (run ! i) (run ! Suc i))"

lemma is_run_snoc:
  assumes "is_run run" and "continues (last run) x"
  shows "is_run (run @ [x])"
  unfolding is_run_def
proof (intro conjI allI impI)
  fix i assume i: "Suc i < length (run @ [x])"
  have ne: "run \<noteq> []" using assms(1) by (simp add: is_run_def)
  show "continues ((run @ [x]) ! i) ((run @ [x]) ! Suc i)"
  proof (cases "Suc i < length run")
    case True
    then show ?thesis using assms(1) by (simp add: is_run_def nth_append)
  next
    case False
    then have "i = length run - 1" using i ne by (cases run) auto
    then show ?thesis using assms(2) ne by (simp add: nth_append last_conv_nth)
  qed
qed simp

lemma split_runs_spec:
  "run = [] \<or> is_run run \<Longrightarrow>
    concat (split_runs continues run xs) = run @ xs \<and> (\<forall>r \<in> set (split_runs continues run xs). is_run r)"
proof (induction xs arbitrary: run)
  case (Cons x xs)
  have one: "is_run [x]" by (simp add: is_run_def)
  show ?case
  proof (cases "run \<noteq> [] \<and> \<not> continues (last run) x")
    case True
    then have "is_run run" using Cons.prems by simp
    then show ?thesis using Cons.IH [of "[x]"] True one by simp
  next
    case False
    have "is_run (run @ [x])"
    proof (cases "run = []")
      case True
      then show ?thesis using one by simp
    next
      case ne: False
      then have "is_run run" "continues (last run) x" using Cons.prems False by simp_all
      then show ?thesis by (rule is_run_snoc)
    qed
    then have "concat (split_runs continues (run @ [x]) xs) = (run @ [x]) @ xs
        \<and> (\<forall>r \<in> set (split_runs continues (run @ [x]) xs). is_run r)" using Cons.IH by blast
    moreover have "split_runs continues run (x # xs) = split_runs continues (run @ [x]) xs"
      using False by (simp only: split_runs.simps if_False)
    ultimately show ?thesis by simp
  qed
qed auto

lemma run_nth:
  assumes "is_run run" and "i < length run"
  shows "run ! i = (fst (hd run), fst (snd (hd run)) + int i, snd (snd (hd run)) + int i)"
  using assms(2)
proof (induction i)
  case 0
  then show ?case by (cases run) simp_all
next
  case (Suc i)
  then have "continues (run ! i) (run ! Suc i)" using assms(1) unfolding is_run_def by blast
  then show ?case using Suc by (simp add: continues_def prod_eq_iff)
qed

lemma expand_run: "is_run run \<Longrightarrow> expand_segment (run_segment run) = run"
  by (rule nth_equalityI) (auto simp: expand_segment_def run_segment_def run_nth split: prod.split)

lemma expand_split_runs:
  "concat (map expand_segment (map run_segment (split_runs continues [] xs))) = xs"
proof -
  have "concat (split_runs continues [] xs) = xs" "\<forall>r \<in> set (split_runs continues [] xs). is_run r"
    using split_runs_spec [of "[]" xs] by simp_all
  moreover from this(2) have "map expand_segment (map run_segment (split_runs continues [] xs)) = split_runs continues [] xs"
    by (simp add: expand_run map_idI)
  ultimately show ?thesis by simp
qed

subsection \<open>Properties\<close>

text \<open>
  A position map survives the translation into segments: expanded again, the segments of a result are
  exactly its aligned pairs, in order, none lost and none invented, and a map without pairs, or with
  sides of different length, gives no segments.
\<close>

theorem position_map_roundtrip:
  "map_option (\<lambda>segs. concat (map expand_segment segs)) (segments_from_position_map donor result)
    = (case pr_position_map result of
         None \<Rightarrow> None
       | Some (donors, targets) \<Rightarrow>
           if donors \<noteq> [] \<and> length donors = length targets
           then Some (map (Pair donor) (zip donors targets)) else None)"
proof -
  have "(case some_segments (map run_segment (split_runs continues [] xs)) of
      None \<Rightarrow> None | Some segs \<Rightarrow> Some (concat (map expand_segment segs))) = Some xs" if "xs \<noteq> []" for xs
  proof -
    have "map run_segment (split_runs continues [] xs) \<noteq> []"
    proof
      assume "map run_segment (split_runs continues [] xs) = []"
      then have "concat (map expand_segment (map run_segment (split_runs continues [] xs))) = []" by simp
      then show False using that unfolding expand_split_runs by simp
    qed
    then show ?thesis using expand_split_runs [of xs] by (simp add: some_segments_def)
  qed
  note some = this
  show ?thesis
  proof (cases "pr_position_map result")
    case (Some m)
    obtain donors targets where m: "m = (donors, targets)" by (cases m)
    show ?thesis
    proof (cases "donors = [] \<or> length donors \<noteq> length targets")
      case True
      then show ?thesis by (auto simp: segments_from_position_map_def Some m)
    next
      case False
      then have "map (Pair donor) (zip donors targets) \<noteq> []" by (cases donors; cases targets) simp_all
      from some [OF this] show ?thesis
        using False by (simp add: segments_from_position_map_def Some m map_option_case)
    qed
  qed (simp add: segments_from_position_map_def)
qed

text \<open>
  C33. A multi-donor segment is verbatim. Every segment built from a composite alignment lies inside its
  donor's tokens and inside the prompt, and at each of its positions the donor holds exactly the prompt's
  token; together the segments are all the identical positions of the alignment, in prompt order.
\<close>

theorem multi_donor_segments_verbatim:
  assumes "segments_from_multi_donor_map (Some tokens_of) result target = Some segs"
    and "pr_multi_donor_position_map result = Some (ids, donors, targets)"
  shows "concat (map expand_segment segs) = kept_positions tokens_of target ids donors targets
    \<and> (\<forall>g \<in> set segs. \<forall>i < nat (sg_token_count g).
         0 \<le> sg_donor_start g + int i \<and> sg_donor_start g + int i < len (opt_list (tokens_of (sg_donor_id g)))
         \<and> 0 \<le> sg_target_start g + int i \<and> sg_target_start g + int i < len target
         \<and> opt_list (tokens_of (sg_donor_id g)) ! nat (sg_donor_start g + int i)
             = target ! nat (sg_target_start g + int i))"
proof -
  let ?kept = "kept_positions tokens_of target ids donors targets"
  have segs: "segs = map run_segment (split_runs continues [] ?kept)"
    using assms by (auto simp: segments_from_multi_donor_map_def some_segments_def split: if_splits)
  then have all: "concat (map expand_segment segs) = ?kept" by (simp only: expand_split_runs)
  have "identical_at tokens_of target (sg_donor_id g, sg_donor_start g + int i, sg_target_start g + int i)"
    if "g \<in> set segs" "i < nat (sg_token_count g)" for g i
  proof -
    have "(sg_donor_id g, sg_donor_start g + int i, sg_target_start g + int i) \<in> set (expand_segment g)"
      using that(2) by (simp add: expand_segment_def)
    then have "(sg_donor_id g, sg_donor_start g + int i, sg_target_start g + int i) \<in> set ?kept"
      unfolding all [symmetric] using that(1) by auto
    then show ?thesis by (simp add: kept_positions_def)
  qed
  then show ?thesis using all by (simp add: identical_at_def Let_def)
qed

subsection \<open>Witness\<close>

text \<open>Two donors, one run of two tokens from each, and a position where the tokens differ.\<close>

definition two_donor_tokens :: "string \<Rightarrow> int list option" where
  "two_donor_tokens d = (if d = ''a'' then Some [5, 6] else if d = ''b'' then Some [9, 7, 8] else None)"

definition two_donor_result :: pipeline_result where
  "two_donor_result = \<lparr>pr_found = True, pr_donor_id = Some ''a'', pr_similarity = 1, pr_position_map = None,
     pr_multi_donor_position_map = Some ([''b'', ''a'', ''a'', ''b'', ''b''], [1, 0, 1, 2, 0], [2, 0, 1, 3, 4]),
     pr_donor_tokens = None, pr_reuse_ratio = None, pr_confidence_tier = None, pr_fuzzy_confidence = None,
     pr_rejection_reason = PNone, pr_timings = None\<rparr>"

lemma two_donor_segments:
  "segments_from_multi_donor_map (Some two_donor_tokens) two_donor_result [5, 6, 7, 8, 1]
    = Some [\<lparr>sg_donor_id = ''a'', sg_donor_start = 0, sg_target_start = 0, sg_token_count = 2, sg_block_refs = None\<rparr>,
            \<lparr>sg_donor_id = ''b'', sg_donor_start = 1, sg_target_start = 2, sg_token_count = 2, sg_block_refs = None\<rparr>]"
  by code_simp

theorem multi_donor_segments_verbatim_witness:
  "kept_positions two_donor_tokens [5, 6, 7, 8, 1] [''b'', ''a'', ''a'', ''b'', ''b''] [1, 0, 1, 2, 0] [2, 0, 1, 3, 4]
    = [(''a'', 0, 0), (''a'', 1, 1), (''b'', 1, 2), (''b'', 2, 3)]"
  using conjunct1 [OF multi_donor_segments_verbatim [OF two_donor_segments, of "[''b'', ''a'', ''a'', ''b'', ''b'']"
      "[1, 0, 1, 2, 0]" "[2, 0, 1, 3, 4]"]]
  by (simp add: two_donor_result_def expand_segment_def upt_rec)

end
