(* ===== verification/Compat.thy ===== *)
theory Compat
  imports Values
begin

text \<open>
  \<open>_vllm_compat.py\<close>: the stand-ins for vLLM's base classes that a process without vLLM runs on. The
  connector reads its step's metadata through them: \<open>_get_connector_metadata\<close> asserts that vLLM bound
  some before the call. With vLLM installed these are vLLM's own classes.
\<close>

datatype kv_role = SCHEDULER | WORKER

record 'm base_st =
  bs_vllm_config :: pyval
  bs_role :: kv_role
  bs_kv_cache_config :: pyval
  bs_kv_transfer_config :: pyval
  bs_connector_metadata :: "'m option"

definition base_init :: "pyval \<Rightarrow> kv_role \<Rightarrow> pyval \<Rightarrow> 'm base_st" where
  "base_init vllm role kv_cache_config =
     \<lparr>bs_vllm_config = vllm, bs_role = role, bs_kv_cache_config = kv_cache_config,
      bs_kv_transfer_config = getattr vllm ''kv_transfer_config'', bs_connector_metadata = None\<rparr>"

definition bind_connector_metadata :: "'m \<Rightarrow> ('m, 'z) base_st_scheme \<Rightarrow> ('m, 'z) base_st_scheme" where
  "bind_connector_metadata md s = s\<lparr>bs_connector_metadata := Some md\<rparr>"

definition clear_connector_metadata :: "('m, 'z) base_st_scheme \<Rightarrow> ('m, 'z) base_st_scheme" where
  "clear_connector_metadata s = s\<lparr>bs_connector_metadata := None\<rparr>"

definition get_connector_metadata :: "('m, 'z) base_st_scheme \<Rightarrow> py_error + 'm" where
  "get_connector_metadata s =
     (case bs_connector_metadata s of None \<Rightarrow> Inl AssertionError | Some md \<Rightarrow> Inr md)"

definition get_virtual_engine :: "pyval \<Rightarrow> pyval" where
  "get_virtual_engine fc = (if hasattr fc ''virtual_engine'' then getattr fc ''virtual_engine'' else PInt 0)"

text \<open>What a worker hook reads is the metadata bound last, and an assertion fails outside a step.\<close>

lemma metadata_bound_last:
  "get_connector_metadata (bind_connector_metadata md s) = Inr md"
  "get_connector_metadata (clear_connector_metadata s) = Inl AssertionError"
  "get_connector_metadata (base_init vllm role kv_cache_config) = Inl AssertionError"
  by (simp_all add: get_connector_metadata_def bind_connector_metadata_def clear_connector_metadata_def base_init_def)

end
