(* ===== verification/Startup.thy ===== *)
theory Startup
  imports ConfigReaders EngineGate Semblend Compat Worker
begin

text \<open>
  The connector's constructor, \<open>__init__\<close> of \<open>connector.py\<close>, with \<open>load_provider\<close> of \<open>provider.py\<close> and the
  construction of the SemBlend pipeline: what is read, in which order, what can raise, and what the
  connector reports of itself. Classes imported at run time (a custom provider, the pipeline, the
  embedder) are arguments that raise or construct; an exception of theirs is its type's name.
\<close>

subsection \<open>The SemBlend pipeline\<close>

record store_args =
  sa_max_entries :: int
  sa_embedding_dim :: int
  sa_min_similarity :: rat
  sa_chunk_size :: int

record pipeline_args =
  pa_max_donors :: int
  pa_min_similarity :: rat
  pa_min_reuse_ratio :: rat
  pa_embedder_type :: "string option"
  pa_model_name :: "string option"
  pa_chunk_size :: "int option"
  pa_donor_store :: "store_args option"

text \<open>
  The pipeline's class, absent when the package cannot be imported, and the embedder factory of
  \<open>semblend_core\<close>, which gives the dimension of the embedder it makes.
\<close>

record 'q pipeline_lib =
  pl_class :: "(pipeline_args \<Rightarrow> string + 'q) option"
  pl_embedder :: "(string option \<Rightarrow> string + int) option"

definition bare_pipeline_args :: "config \<Rightarrow> pipeline_args" where
  "bare_pipeline_args c =
     \<lparr>pa_max_donors = c_max_donors c, pa_min_similarity = c_min_similarity c,
      pa_min_reuse_ratio = c_min_reuse_ratio c, pa_embedder_type = c_embedder_type c,
      pa_model_name = c_model_id c, pa_chunk_size = c_chunk_size c, pa_donor_store = None\<rparr>"

definition create_pipeline ::
  "(pipeline_args \<Rightarrow> string + 'q) \<Rightarrow> (string option \<Rightarrow> string + int) option \<Rightarrow> config \<Rightarrow> string + 'q" where
  "create_pipeline cls embedder c =
     (case embedder of
        None \<Rightarrow> cls (bare_pipeline_args c)
      | Some mk \<Rightarrow>
          sum_bind (mk (c_embedder_type c)) (\<lambda>dim.
            cls ((bare_pipeline_args c)\<lparr>pa_donor_store := Some
              \<lparr>sa_max_entries = c_max_donors c, sa_embedding_dim = dim, sa_min_similarity = c_min_similarity c,
               sa_chunk_size = (case c_chunk_size c of None \<Rightarrow> 32 | Some n \<Rightarrow> if n = 0 then 32 else n)\<rparr>\<rparr>)))"

definition new_semblend_provider :: "'q pipeline_lib \<Rightarrow> config \<Rightarrow> string + 'q semblend_provider" where
  "new_semblend_provider lib c =
     (case pl_class lib of
        None \<Rightarrow> Inl ''RuntimeError''
      | Some cls \<Rightarrow>
          sum_bind (create_pipeline cls (pl_embedder lib) c) (\<lambda>q. Inr \<lparr>sb_pipeline = q, sb_last_miss = None\<rparr>))"

subsection \<open>\<open>load_provider\<close>\<close>

datatype ('q, 'u) any_provider =
    Local_provider local_provider
  | Pipeline_provider "'q semblend_provider"
  | Custom_provider 'u

definition load_provider ::
  "(string \<Rightarrow> string \<Rightarrow> config \<Rightarrow> string + 'u) \<Rightarrow> 'q pipeline_lib \<Rightarrow> config \<Rightarrow> string + ('q, 'u) any_provider" where
  "load_provider import_class lib c =
     (case (c_provider_module c, c_provider_class c) of
        (Some (m # ms), Some (k # ks)) \<Rightarrow>
          sum_bind (import_class (m # ms) (k # ks) c) (\<lambda>p. Inr (Custom_provider p))
      | _ \<Rightarrow>
          if c_provider c = ''local'' then Inr (Local_provider (new_local_provider c))
          else if c_provider c = ''semblend''
          then sum_bind (new_semblend_provider lib c) (\<lambda>p. Inr (Pipeline_provider p))
          else Inl ''ValueError'')"

subsection \<open>The constructor\<close>

text \<open>An exception of the constructor, by the step that raised it.\<close>

datatype start_error =
    Config_raised config_error
  | Block_size_raised py_error
  | Gate_raised py_error
  | Provider_raised string

record ('q, 'u) started =
  st_config :: config
  st_supports_mid_request_matching :: bool
  st_block_size :: int
  st_incomplete :: "gate_gap list"
  st_decline :: "gate_decline option"
  st_provider :: "('q, 'u) any_provider"
  st_hma_disabled :: bool

definition gap_text :: "gate_gap \<Rightarrow> string" where
  "gap_text g =
     (case g of
        Cache_config_unresolved \<Rightarrow> ''kv_cache_config_unresolved''
      | Spec_import_failed \<Rightarrow> ''spec_import_failed''
      | Block_size_unavailable \<Rightarrow> ''block_size_resolution_unavailable''
      | Block_size_failed \<Rightarrow> ''block_size_resolution_failed'')"

definition start_connector ::
  "(string \<Rightarrow> pyval) option \<Rightarrow> environment \<Rightarrow> engine_lib \<Rightarrow> (string \<Rightarrow> string \<Rightarrow> config \<Rightarrow> string + 'u)
     \<Rightarrow> 'q pipeline_lib \<Rightarrow> 'm base_st \<Rightarrow> start_error + ('q, 'u) started" where
  "start_connector getter environ engine import_class lib base =
     (let vllm = bs_vllm_config base
      in case from_vllm_config getter environ vllm of
           Inl x \<Rightarrow> Inl (Config_raised x)
         | Inr c \<Rightarrow>
             (case connector_block_size vllm of
                Inl x \<Rightarrow> Inl (Block_size_raised x)
              | Inr b \<Rightarrow>
                  (case check_engine_compatibility engine b vllm (bs_kv_cache_config base) of
                     Inl x \<Rightarrow> Inl (Gate_raised x)
                   | Inr (gaps, decline) \<Rightarrow>
                       (case load_provider import_class lib c of
                          Inl x \<Rightarrow> Inl (Provider_raised x)
                        | Inr p \<Rightarrow>
                            Inr \<lparr>st_config = c,
                                 st_supports_mid_request_matching = (c_mode c = SEMANTIC_SPAN_EXPERIMENTAL),
                                 st_block_size = b, st_incomplete = gaps, st_decline = decline, st_provider = p,
                                 st_hma_disabled =
                                   truthy (getattr_or (getattr vllm ''scheduler_config'')
                                             ''disable_hybrid_kv_cache_manager'' (PBool False))\<rparr>))))"

text \<open>What it leaves in the counters and the audit file; the message of a decline is an argument.\<close>

fun joined :: "string list \<Rightarrow> string" where
  "joined [] = []"
| "joined [t] = t"
| "joined (t # ts) = t @ '','' @ joined ts"

definition start_event ::
  "(gate_decline \<Rightarrow> string) \<Rightarrow> string \<Rightarrow> ('q, 'u) started \<Rightarrow> startup_event" where
  "start_event say role st =
     Ev_connector_initialized role (c_provider (st_config st)) (st_block_size st) (st_hma_disabled st)
       (c_evict_filled_blocks_from_prefix_cache (st_config st)) (map_option say (st_decline st))
       (if st_incomplete st = [] then None else Some (joined (map gap_text (st_incomplete st))))"

definition start_audit ::
  "'p env \<Rightarrow> (gate_decline \<Rightarrow> string) \<Rightarrow> string \<Rightarrow> ('q, 'u) started \<Rightarrow> 'z audit_st_scheme \<Rightarrow> 'z audit_st_scheme" where
  "start_audit e say role st s =
     audit e None (EI (start_event say role st))
       (fold (\<lambda>g. bump (Compat_check_incomplete (gap_text g))) (st_incomplete st) s)"

subsection \<open>\<open>stats_snapshot\<close>\<close>

text \<open>The two counters are read together here only; their names do not meet.\<close>

definition stats_snapshot :: "'z worker_st_scheme \<Rightarrow> stat + writer_stat \<Rightarrow> int" where
  "stats_snapshot s = case_sum (stats s) (writer_stats s)"

subsection \<open>Lemmas\<close>

text \<open>
  Where no imported class raises and no custom provider is named, loading fails exactly on a provider
  name that is neither of the two known ones.
\<close>

lemma load_provider_unsupported:
  assumes "c_provider_module c = None \<or> c_provider_class c = None"
    and "\<And>c. \<not> isl (new_semblend_provider lib c)"
  shows "isl (load_provider import_class lib c) \<longleftrightarrow> c_provider c \<notin> {''local'', ''semblend''}"
proof -
  obtain p where "new_semblend_provider lib c = Inr p" using assms(2) [of c] by (cases "new_semblend_provider lib c") auto
  then show ?thesis using assms(1) by (auto simp: load_provider_def split: option.splits list.splits)
qed

text \<open>A connector that starts holds the configuration that was read and the verdict of the gate on its own block size.\<close>

lemma start_connector_Inr:
  assumes "start_connector getter environ engine import_class lib base = Inr st"
  shows "from_vllm_config getter environ (bs_vllm_config base) = Inr (st_config st)"
    and "connector_block_size (bs_vllm_config base) = Inr (st_block_size st)"
    and "check_engine_compatibility engine (st_block_size st) (bs_vllm_config base) (bs_kv_cache_config base)
           = Inr (st_incomplete st, st_decline st)"
    and "load_provider import_class lib (st_config st) = Inr (st_provider st)"
  using assms by (auto simp: start_connector_def Let_def split: sum.splits prod.splits)

end
