(* ===== verification/Rope.thy ===== *)
theory Rope
  imports Prelude
begin

text \<open>
  Re-rotation of cached keys, \<open>rope_cos_sin\<close> and \<open>rerotate_k\<close> of \<open>semantic_span.py\<close>, over the reals:
  the rounding of the tensors' element type is not modelled. A tensor of keys is a list of tokens, a token
  a list of heads, a head its list of components; the half-split layout pairs component \<open>i\<close> of the first
  half with component \<open>i\<close> of the second.
\<close>

type_synonym head = "real list"
type_synonym keys = "head list list"

subsection \<open>Operations\<close>

definition inv_freq :: "nat \<Rightarrow> real \<Rightarrow> nat \<Rightarrow> real" where
  "inv_freq head_dim theta j = 1 / theta powr (real (2 * j) / real head_dim)"

text \<open>One row of cosines and sines per position; \<open>arange(0, head_dim, 2)\<close> has \<open>(head_dim + 1) // 2\<close> entries.\<close>

definition rope_cos_sin :: "real list \<Rightarrow> nat \<Rightarrow> real \<Rightarrow> (real \<times> real) list list" where
  "rope_cos_sin positions head_dim theta =
     map (\<lambda>p. map (\<lambda>j. (cos (p * inv_freq head_dim theta j), sin (p * inv_freq head_dim theta j)))
                 [0..<(head_dim + 1) div 2]) positions"

definition rotate_head :: "nat \<Rightarrow> (real \<times> real) list \<Rightarrow> head \<Rightarrow> head" where
  "rotate_head head_dim cs x =
     (let pairs = zip cs (zip (take (head_dim div 2) x) (drop (head_dim div 2) x))
      in map (\<lambda>((c, s), (x1, x2)). x1 * c - x2 * s) pairs @ map (\<lambda>((c, s), (x1, x2)). x2 * c + x1 * s) pairs)"

definition rerotate_k :: "keys \<Rightarrow> int \<Rightarrow> int \<Rightarrow> nat \<Rightarrow> real \<Rightarrow> keys" where
  "rerotate_k k donor_start target_start head_dim theta =
     (if donor_start = target_start then k
      else let delta = target_start - donor_start;
               cs = rope_cos_sin (replicate (length k) (of_int delta)) head_dim theta
           in map2 (\<lambda>row. map (rotate_head head_dim row)) cs k)"

subsection \<open>What the engine caches\<close>

text \<open>
  The keys of consecutive tokens from \<open>start\<close>, as rotary embedding leaves them: each head of token
  \<open>start + i\<close> is rotated by the table of its own position.
\<close>

definition rope_keys :: "int \<Rightarrow> nat \<Rightarrow> real \<Rightarrow> keys \<Rightarrow> keys" where
  "rope_keys start head_dim theta raw =
     map2 (\<lambda>row. map (rotate_head head_dim row))
       (rope_cos_sin (map (\<lambda>i. of_int (start + int i)) [0..<length raw]) head_dim theta) raw"

definition head_shape :: "nat \<Rightarrow> keys \<Rightarrow> bool" where
  "head_shape head_dim k \<longleftrightarrow> (\<forall>token \<in> set k. \<forall>x \<in> set token. length x = head_dim)"

subsection \<open>Rotations compose\<close>

definition angle_table :: "nat \<Rightarrow> real \<Rightarrow> real \<Rightarrow> (real \<times> real) list" where
  "angle_table head_dim theta p =
     map (\<lambda>j. (cos (p * inv_freq head_dim theta j), sin (p * inv_freq head_dim theta j))) [0..<(head_dim + 1) div 2]"

lemma rope_cos_sin_table: "rope_cos_sin ps head_dim theta = map (angle_table head_dim theta) ps"
  by (simp add: rope_cos_sin_def angle_table_def [abs_def])

lemma rotate_head_length:
  assumes "even d" and "length x = d"
  shows "length (rotate_head d (angle_table d theta p) x) = d"
  using assms by (auto simp: rotate_head_def angle_table_def Let_def elim!: evenE)

lemma rotate_head_nth:
  assumes d: "even d" "length x = d" and i: "i < d div 2"
  shows "rotate_head d (angle_table d theta p) x ! i
      = x ! i * cos (p * inv_freq d theta i) - x ! (d div 2 + i) * sin (p * inv_freq d theta i)"
    and "rotate_head d (angle_table d theta p) x ! (d div 2 + i)
      = x ! (d div 2 + i) * cos (p * inv_freq d theta i) + x ! i * sin (p * inv_freq d theta i)"
proof -
  have "length (angle_table d theta p) = (d + 1) div 2" by (simp add: angle_table_def)
  moreover have "(d + 1) div 2 = d div 2" using d(1) by (auto elim!: evenE)
  ultimately have l: "length (angle_table d theta p) = d div 2" by simp
  have h: "length (take (d div 2) x) = d div 2" "length (drop (d div 2) x) = d div 2"
    using d by (auto elim!: evenE)
  have t: "angle_table d theta p ! i = (cos (p * inv_freq d theta i), sin (p * inv_freq d theta i))"
    using i l by (simp add: angle_table_def)
  show "rotate_head d (angle_table d theta p) x ! i
      = x ! i * cos (p * inv_freq d theta i) - x ! (d div 2 + i) * sin (p * inv_freq d theta i)"
    using i l h by (simp add: rotate_head_def Let_def nth_append t)
  show "rotate_head d (angle_table d theta p) x ! (d div 2 + i)
      = x ! (d div 2 + i) * cos (p * inv_freq d theta i) + x ! i * sin (p * inv_freq d theta i)"
    using i l h by (simp add: rotate_head_def Let_def nth_append t)
qed

lemma rotate_compose:
  assumes d: "even d" "length x = d"
  shows "rotate_head d (angle_table d theta q) (rotate_head d (angle_table d theta p) x)
    = rotate_head d (angle_table d theta (p + q)) x" (is "?l = ?r")
proof (rule nth_equalityI)
  let ?y = "rotate_head d (angle_table d theta p) x"
  have y: "length ?y = d" by (rule rotate_head_length [OF d])
  show "length ?l = length ?r" using rotate_head_length d y by simp
  fix k assume "k < length ?l"
  then have k: "k < d" using rotate_head_length [OF d(1) y] by simp
  have add: "(p + q) * f = p * f + q * f" for f by (simp add: algebra_simps)
  show "?l ! k = ?r ! k"
  proof (cases "k < d div 2")
    case True
    show ?thesis
      unfolding rotate_head_nth(1) [OF d(1) y True] rotate_head_nth [OF d True] add cos_add sin_add
      by (simp add: algebra_simps)
  next
    case False
    define i where "i = k - d div 2"
    have i: "i < d div 2" "k = d div 2 + i" using False k d(1) by (auto simp: i_def elim!: evenE)
    show ?thesis
      unfolding i(2) rotate_head_nth(2) [OF d(1) y i(1)] rotate_head_nth [OF d i(1)] add cos_add sin_add
      by (simp add: algebra_simps)
  qed
qed

lemma rotate_zero:
  assumes d: "even d" "length x = d"
  shows "rotate_head d (angle_table d theta 0) x = x"
proof (rule nth_equalityI)
  show "length (rotate_head d (angle_table d theta 0) x) = length x" using rotate_head_length [OF d] d(2) by simp
  fix k assume "k < length (rotate_head d (angle_table d theta 0) x)"
  then have k: "k < d" using rotate_head_length [OF d] by simp
  show "rotate_head d (angle_table d theta 0) x ! k = x ! k"
  proof (cases "k < d div 2")
    case True
    show ?thesis by (simp add: rotate_head_nth(1) [OF d True])
  next
    case False
    define i where "i = k - d div 2"
    have i: "i < d div 2" "k = d div 2 + i" using False k d(1) by (auto simp: i_def elim!: evenE)
    show ?thesis unfolding i(2) by (simp add: rotate_head_nth(2) [OF d i(1)])
  qed
qed

subsection \<open>Properties\<close>

lemma rerotate_shift:
  assumes "even d" and "head_shape d raw" and n: "length ps = length raw"
  shows "map2 (\<lambda>row. map (rotate_head d row)) (rope_cos_sin (replicate (length raw) q) d theta)
      (map2 (\<lambda>row. map (rotate_head d row)) (rope_cos_sin ps d theta) raw)
    = map2 (\<lambda>row. map (rotate_head d row)) (rope_cos_sin (map (\<lambda>p. p + q) ps) d theta) raw"
proof (rule nth_equalityI)
  fix i assume "i < length (map2 (\<lambda>row. map (rotate_head d row)) (rope_cos_sin (replicate (length raw) q) d theta)
      (map2 (\<lambda>row. map (rotate_head d row)) (rope_cos_sin ps d theta) raw))"
  then have i: "i < length raw" by simp
  have "\<forall>x \<in> set (raw ! i). length x = d" using assms(2) nth_mem [OF i] unfolding head_shape_def by blast
  then show "map2 (\<lambda>row. map (rotate_head d row)) (rope_cos_sin (replicate (length raw) q) d theta)
      (map2 (\<lambda>row. map (rotate_head d row)) (rope_cos_sin ps d theta) raw) ! i
    = map2 (\<lambda>row. map (rotate_head d row)) (rope_cos_sin (map (\<lambda>p. p + q) ps) d theta) raw ! i"
    using i n by (simp add: rope_cos_sin_table rotate_compose [OF assms(1)])
qed (simp add: n rope_cos_sin_table)

text \<open>
  C32. Re-rotation moves keys exactly. The keys of a window cached at the donor's positions, re-rotated from
  the donor's start to the target's, are the keys the engine would have cached for the same raw keys
  at the target's positions, for any two starts, every token and every head of even width.
\<close>

theorem rerotation_is_rope_at_target:
  assumes "even head_dim" and "head_shape head_dim raw"
  shows "rerotate_k (rope_keys donor_start head_dim theta raw) donor_start target_start head_dim theta
    = rope_keys target_start head_dim theta raw"
proof (cases "donor_start = target_start")
  case False
  let ?ps = "map (\<lambda>i. of_int (donor_start + int i) :: real) [0..<length raw]"
  have n: "length ?ps = length raw" by simp
  have l: "length (rope_keys donor_start head_dim theta raw) = length raw"
    by (simp add: rope_keys_def rope_cos_sin_table)
  have "map (\<lambda>p. p + of_int (target_start - donor_start)) ?ps = map (\<lambda>i. of_int (target_start + int i)) [0..<length raw]"
    by simp
  then show ?thesis
    using rerotate_shift [OF assms n, of "of_int (target_start - donor_start)" theta] False l
    by (simp only: rerotate_k_def rope_keys_def Let_def if_False)
qed (simp add: rerotate_k_def)

subsection \<open>Witness\<close>

theorem rerotation_is_rope_at_target_witness:
  "rerotate_k (rope_keys 4 2 10000 [[[1, 0]], [[0, 1]]]) 4 9 2 10000 = rope_keys 9 2 10000 [[[1, 0]], [[0, 1]]]"
  by (rule rerotation_is_rope_at_target) (simp_all add: head_shape_def)

end
