(* ===== verification/Spec2Isabelle.thy ===== *)
theory Spec2Isabelle
  imports Deployment Declined WriterRegistry Layouts CaptureCost Startup Rope
begin

text \<open>
  Verification library of the SemBlend vLLM connector, \<open>src/src/semblend_vllm_connector\<close>.

  \<^bold>\<open>The program.\<close> The connector plugs into vLLM's KV transfer interface and reuses the KV cache of earlier
  prompts, the donors, for a new one. vLLM runs it twice, in two processes. The scheduler's instance is
  asked, for each request, how many tokens it can supply from outside (the match hook); it asks a provider
  for a donor, decides under the configured reuse mode what is safe to load, and records a plan. Once
  vLLM has allocated blocks, the plan becomes a pending load; each step ships the pending loads, and the
  captures to make, to the worker as connector metadata; when a request finishes it is registered as a
  donor, at once or after its capture has become durable. The worker's instance writes the planned donor
  rows into the engine's paged KV tensors before the forward pass, gathers the KV of the prompts it is
  told to capture during the pass, hands them to a background writer thread, joins that thread at the end
  of the step and publishes the donors that are then complete by a record on the shared volume. Both
  count and audit what they do. What is at stake is that a token never attends to KV of other tokens or of
  other positions, that no engine block is left claimed but unwritten without being reported, and that a
  donor is visible only when all of it is there.

  \<^bold>\<open>Conventions.\<close> A definition has the name of the function it models, without leading underscores. The
  connector's fields are records that extend each other in the order of the theories, so an operation says
  in its type how much of the state it may touch, and the lemmas called frames say what it leaves alone. A
  hook is a function from the state to a result and a new state; an exception is a value of \<open>py_error\<close> on
  the left of a sum. Python integers are \<open>int\<close>, floats exact rationals (comparisons and sums are therefore
  exact here where a double rounds), dictionaries maps or ordered association lists where order is read.
  Code of other packages is an argument: the record \<open>env\<close> holds the hash, the tokenizer, the provider and
  whether an audit write succeeds; the volume both roles share is an argument of the hooks that read it;
  an iteration over a Python set is an argument or does not depend on the order. No definition uses fuel:
  every recursion is structural or has a measure. What the writer thread does between two actions of the
  forward thread is read off two lists of the worker's state, \<open>writer_turns\<close> and \<open>write_results\<close>; they are
  arbitrary, so a property of the worker holds for every schedule and every pattern of failed writes, and
  an exhausted list reads as no turn and a write that lands.

  \<^bold>\<open>Foundations.\<close> \<open>Prelude\<close> (exceptions, ordered dictionaries, block arithmetic), \<open>Values\<close> (Python values, truth,
  text), \<open>Numbers\<close> (\<open>int(x)\<close>, \<open>float(x)\<close>), \<open>Types\<close> (\<open>types.py\<close>), \<open>Config\<close> (the dataclass of \<open>config.py\<close>),
  \<open>AuditTrail\<close> (counters, events, join keys, and the environment).

  \<^bold>\<open>The scheduler.\<close> \<open>Span\<close> is \<open>semantic_span.py\<close>: aligned spans, the supply at a boundary, and the greedy chain
  over several donors, proved optimal. \<open>Request\<close> and \<open>QueryText\<close> read vLLM's requests and \<open>namespace.py\<close>.
  \<open>Storage\<close> is what both roles read of the volume. \<open>Provider\<close> is \<open>provider.py\<close>, with the contract of a
  provider as the locale \<open>kv_provider\<close>, interpreted on the local provider; \<open>Semblend\<close> is
  \<open>providers/semblend.py\<close>. \<open>MatchState\<close>, \<open>Gates\<close> and \<open>Matching\<close> are \<open>get_num_new_matched_tokens\<close>; \<open>MatchFrames\<close>,
  \<open>MatchProps\<close> and \<open>MatchTheorems\<close> show that what it advertises is a whole number of blocks inside the prompt,
  planned exactly once, that spans hold the prompt's own tokens, and that a request is looked up once.
  \<open>Segments\<close> is the segmented prefill. \<open>Fills\<close> and \<open>FillProps\<close> are the allocation hook and the eviction of
  the filled blocks from the exact prefix cache. \<open>Capture\<close> and \<open>CaptureProps\<close> decide what is captured: the
  handlers refine the abstract life of a capture, whose stores only grow. \<open>Registration\<close> and
  \<open>RegistrationProps\<close> are the finish of a request, the deferred registrations and the build of a step's
  metadata. \<open>Lifecycle\<close> makes the hooks the steps of one transition relation, \<open>sched_reach\<close>, and shows by
  rule induction what every reachable state ships; \<open>Declined\<close> shows that after a verdict of the startup gate
  against the engine no sequence of hooks does anything.

  \<^bold>\<open>The worker.\<close> \<open>Slots\<close> maps the positions of a window to cache slots and gathers and scatters rows there; a
  store of rows is the locale \<open>row_store\<close>, interpreted on cells. \<open>Layouts\<close> has the tensors: the locale
  \<open>indexed_rows\<close>, which gives a \<open>row_store\<close>, is interpreted on each of the four page layouts, and every layout
  refines the opaque rows; \<open>ContentDim\<close> is the check of a packed page's width. \<open>Worker\<close> is the save path and
  the writer's jobs; \<open>WorkerProps\<close> has the invariant that ties the copies in flight, queued and stored to
  what the worker believes, \<open>Publication\<close> the join, and \<open>WorkerTheorems\<close> whole runs: a capture reads back as
  what the model computed, a record never vouches for rows that are not there. \<open>CaptureWriter\<close> is the
  queue and thread of \<open>capture_writer.py\<close>, with every interleaving of submitter, writer and closer;
  \<open>WriterRegistry\<close> the exit hook. \<open>CaptureCost\<close> is the accounting of what captures cost. \<open>Load\<close>,
  \<open>LoadProps\<close> and \<open>LoadTheorems\<close> are the load path: it writes only its windows, reports the blocks it could not
  fill, and brings a donor's rows to the recipient's positions. \<open>Rope\<close> shows over the reals that re-rotated
  keys are the keys of the new positions.

  \<^bold>\<open>Startup.\<close> \<open>ConfigReaders\<close> reads the configuration; \<open>EngineGate\<close> is the check of the engine's layout, which
  passes exactly the engines whose slots the worker computes; \<open>Startup\<close> runs both in the constructor, with
  the loading of the provider; \<open>Compat\<close> is \<open>_vllm_compat.py\<close>.

  \<^bold>\<open>Together.\<close> \<open>Deployment\<close> composes the two roles: from any state the scheduler can reach, the loads that a
  step ships make the worker leave the planned rows in exactly the advertised windows. Its hypotheses on
  vLLM are that the blocks granted to a request are distinct and reach the end of its window and that two
  requests' windows share no slot; on the donors, that their rows are there; \<open>LoadTheorems\<close> has the
  same for donors as the captures leave them.

  \<^bold>\<open>Not modelled.\<close> The asynchronous device copy (\<open>_copy_to_host\<close>, \<open>_pageable\<close>, \<open>_index_tensor\<close>): streams, events
  and pinned memory are CUDA's, and every reader waits for the event. The rounding of floats and of tensor
  elements. Wall-clock readings, other than those \<open>CaptureCost\<close> takes as arguments. Log lines and the warning
  texts. Weak references: a writer that is collected without a close. Slot indices outside a tensor, empty
  tensor axes, and an MLA page that is not contiguous (the code writes into a reshape of it, which is
  then a copy). Threads inside a provider. The package initialisers, which only re-export.
\<close>

end
